(* ===== verification/S5_Prelude.thy ===== *)
theory S5_Prelude
  imports Main "HOL-Library.Word"
begin

text \<open>
  Shared vocabulary of the development: bytes and Go strings, Go error values, big-endian
  16-bit fields, slicing with Go's bounds checks, and the named collections the component
  theories feed.

  A Go \<^verbatim>\<open>string\<close> is an immutable byte sequence; Isabelle's \<^typ>\<open>string\<close> is a list of 8-bit
  characters, so the two coincide and \<open>[]byte(s)\<close> and \<open>string(b)\<close> are the mutually inverse
  conversions \<open>bytes_of\<close> and \<open>string_of\<close>.  A Go error is kept as its format string with its
  unrendered arguments, which carries the same information as the rendered text.
\<close>

unbundle bit_operations_syntax

type_synonym byte = "8 word"
type_synonym uint16 = "16 word"
type_synonym uint64 = "64 word"

named_theorems wire_simps \<open>equations that compute wire encodings\<close>
named_theorems quiet_rules \<open>rules for computations that write nothing\<close>
named_theorems sim_rules \<open>simulation steps between readers and the byte stream\<close>

section \<open>Strings and bytes\<close>

definition bytes_of :: "string \<Rightarrow> byte list" where
  "bytes_of s = map of_char s"

definition string_of :: "byte list \<Rightarrow> string" where
  "string_of bs = map (\<lambda>b. char_of (unat b)) bs"

lemma unat_of_char [simp]: "unat (of_char c :: byte) = of_char c"
proof -
  have "unat (of_nat (of_char c) :: byte) = of_char c mod 2 ^ LENGTH(8)"
    by (rule unat_of_nat)
  moreover have "(of_char c :: nat) < 256"
    by (fact nat_of_char_less_256)
  ultimately show ?thesis
    by (simp add: of_nat_of_char)
qed

lemma string_of_bytes_of [simp]: "string_of (bytes_of s) = s"
  by (simp add: string_of_def bytes_of_def comp_def)

lemma bytes_of_string_of [simp]: "bytes_of (string_of bs) = bs"
proof -
  have "(of_char (char_of (unat b)) :: byte) = b" for b :: byte
  proof -
    have "(of_char (char_of (unat b)) :: nat) = unat b"
      using unsigned_less [of b, where ?'a = nat] by simp
    then have "unat (of_char (char_of (unat b)) :: byte) = unat b"
      by simp
    then show ?thesis by (simp only: word_unat_eq_iff)
  qed
  then show ?thesis
    by (simp add: string_of_def bytes_of_def comp_def map_idI)
qed

lemma length_bytes_of [simp]: "length (bytes_of s) = length s"
  by (simp add: bytes_of_def)

lemma length_string_of [simp]: "length (string_of bs) = length bs"
  by (simp add: string_of_def)

lemma bytes_of_Nil [simp]: "bytes_of s = [] \<longleftrightarrow> s = []"
  by (simp add: bytes_of_def)

lemma string_of_Nil [simp]: "string_of bs = [] \<longleftrightarrow> bs = []"
  by (simp add: string_of_def)

section \<open>Errors\<close>

datatype io_error = EOF | ErrUnexpectedEOF | ErrNoProgress | ErrShortWrite | ErrClosed
  | ErrTimeout | ErrOther string

text \<open>
  \<open>errors.New\<close> and \<open>fmt.Errorf\<close> both build \<open>Errorf\<close>; an \<open>FErr\<close> argument is a wrapped
  (\<^verbatim>\<open>%w\<close>) cause.
\<close>

datatype gerror = IOErr io_error | Errorf string "farg list"
  and farg = FInt int | FStr string | FErr gerror

abbreviation errors_New :: "string \<Rightarrow> gerror" where
  "errors_New msg \<equiv> Errorf msg []"

section \<open>Big-endian 16-bit fields\<close>

definition put_u16 :: "uint16 \<Rightarrow> byte list" where
  "put_u16 p = [ucast (drop_bit 8 p), ucast p]"

definition get_u16 :: "byte list \<Rightarrow> uint16" where
  "get_u16 bs = (push_bit 8 (ucast (bs ! 0)) OR ucast (bs ! 1))"

lemma length_put_u16 [simp]: "length (put_u16 p) = 2"
  by (simp add: put_u16_def)

lemma get_put_u16 [simp]: "get_u16 (put_u16 p) = p"
  by (rule bit_word_eqI)
    (auto simp: get_u16_def put_u16_def bit_simps)

lemma put_get_u16: "length bs = 2 \<Longrightarrow> put_u16 (get_u16 bs) = bs"
proof -
  assume "length bs = 2"
  then obtain a b where bs: "bs = [a, b]"
    by (metis length_0_conv length_Suc_conv numeral_2_eq_2)
  have "(ucast (drop_bit 8 (push_bit 8 (ucast a) OR ucast b :: uint16)) :: byte) = a"
    by (rule bit_word_eqI) (auto simp: bit_simps dest: bit_imp_le_length)
  moreover have "(ucast (push_bit 8 (ucast a) OR ucast b :: uint16) :: byte) = b"
    by (rule bit_word_eqI) (auto simp: bit_simps)
  ultimately show ?thesis
    by (simp add: bs put_u16_def get_u16_def)
qed

section \<open>Slices\<close>

text \<open>\<open>xs[i:j]\<close>: \<^const>\<open>None\<close> is Go's run-time panic on an index out of range.\<close>

definition go_slice :: "'a list \<Rightarrow> nat \<Rightarrow> nat \<Rightarrow> 'a list option" where
  "go_slice xs i j = (if i \<le> j \<and> j \<le> length xs then Some (take (j - i) (drop i xs)) else None)"

definition go_index :: "'a list \<Rightarrow> nat \<Rightarrow> 'a option" where
  "go_index xs i = (if i < length xs then Some (xs ! i) else None)"

lemma go_slice_Some: "i \<le> j \<Longrightarrow> j \<le> length xs \<Longrightarrow> go_slice xs i j = Some (take (j - i) (drop i xs))"
  by (simp add: go_slice_def)

lemma go_index_Some: "i < length xs \<Longrightarrow> go_index xs i = Some (xs ! i)"
  by (simp add: go_index_def)

section \<open>Lists\<close>

lemma list_len2E:
  assumes "length xs = 2"
  obtains a b where "xs = [a, b]"
  using assms by (cases xs; cases "tl xs") auto

lemma list_len4E:
  assumes "length xs = 4"
  obtains a b c d where "xs = [a, b, c, d]"
proof (rule that)
  show "xs = [xs ! 0, xs ! 1, xs ! 2, xs ! 3]"
    using assms by (intro nth_equalityI) (auto simp: less_Suc_eq numeral_eq_Suc)
qed

text \<open>Counting the elements of a list with a property, as an integer.\<close>

definition cnt :: "('a \<Rightarrow> bool) \<Rightarrow> 'a list \<Rightarrow> int" where
  "cnt P xs = (\<Sum>x\<leftarrow>xs. of_bool (P x))"

lemma cnt_Nil [simp]: "cnt P [] = 0"
  by (simp add: cnt_def)

lemma cnt_Cons [simp]: "cnt P (x # xs) = of_bool (P x) + cnt P xs"
  by (simp add: cnt_def)

lemma cnt_append [simp]: "cnt P (xs @ ys) = cnt P xs + cnt P ys"
  by (simp add: cnt_def)

lemma cnt_nonneg [simp]: "0 \<le> cnt P xs"
  by (induction xs) auto

lemma cnt_le_length: "cnt P xs \<le> int (length xs)"
  by (induction xs) auto

lemma cnt_update: "i < length xs \<Longrightarrow> cnt P (xs[i := y]) = cnt P xs - of_bool (P (xs ! i)) + of_bool (P y)"
  by (induction xs arbitrary: i) (auto split: nat.split)

lemma cnt_filter: "cnt P xs = int (length (filter P xs))"
  by (induction xs) auto

lemma cnt_pos: "i < length xs \<Longrightarrow> P (xs ! i) \<Longrightarrow> 0 < cnt P xs"
  using nth_mem [of i xs] by (auto simp: cnt_filter filter_empty_conv)

lemma cnt_mono: "(\<And>x. x \<in> set xs \<Longrightarrow> P x \<Longrightarrow> Q x) \<Longrightarrow> cnt P xs \<le> cnt Q xs"
  by (induction xs) (auto simp: add_mono)

text \<open>
  Systems whose components run interleaved: a step relation and an invariant that each step keeps.
\<close>

locale safety =
  fixes step :: "'s \<Rightarrow> 's \<Rightarrow> bool" and inv :: "'s \<Rightarrow> bool"
  assumes inv_step: "step s t \<Longrightarrow> inv s \<Longrightarrow> inv t"
begin

lemma inv_steps: "step\<^sup>*\<^sup>* s t \<Longrightarrow> inv s \<Longrightarrow> inv t"
  by (induction rule: rtranclp_induct) (auto intro: inv_step)

text \<open>A relation between states that each step keeps holds along every run.\<close>

lemma mono_steps:
  assumes "step\<^sup>*\<^sup>* s t" and "inv s" and "R s s"
    and "\<And>u v. step u v \<Longrightarrow> inv u \<Longrightarrow> R s u \<Longrightarrow> R s v"
  shows "R s t"
  using assms(1)
proof (induction rule: rtranclp_induct)
  case base
  show ?case by (rule assms(3))
next
  case (step u v)
  with assms(2,4) inv_steps show ?case by blast
qed

end

end
