(* ===== verification/NetIO.thy ===== *)
theory NetIO
  imports S5_Prelude "HOL-Library.State_Monad"
begin

text \<open>
  The byte-stream interface the SOCKS5 code is written against.

  Go's \<^verbatim>\<open>net.Conn\<close> and \<^verbatim>\<open>io.Reader\<close> are interfaces, that is, dictionaries of methods:
  \<open>'s net_io\<close> is such a dictionary over a state \<open>'s\<close>.  Three instances matter.
  \<open>conn\<close> is a TCP connection whose peer's bytes arrive in segments, so that one \<open>Read\<close>
  returns at most one segment; \<open>bufio\<close> is the 4096-byte \<^verbatim>\<open>bufio.Reader\<close> that
  \<^verbatim>\<open>session.go:53\<close> puts in front of the client connection; \<open>stream\<close> is the plain byte
  stream both of them implement.  \<open>ReadFull\<close> is \<^verbatim>\<open>io.ReadFull\<close>, the loop around \<open>Read\<close>.

  The locale \<open>stream_impl\<close> states what an implementation promises relative to the byte
  stream, and shows once that \<open>ReadFull\<close> then delivers exactly the next bytes of the stream,
  however they were segmented.  It is interpreted on \<open>conn\<close> and on \<open>bufio\<close>.
\<close>

section \<open>Interfaces\<close>

record 's net_io =
  io_Read :: "nat \<Rightarrow> 's \<Rightarrow> byte list \<times> io_error option \<times> 's"
  io_Write :: "byte list \<Rightarrow> 's \<Rightarrow> nat \<times> io_error option \<times> 's"

text \<open>
  \<^verbatim>\<open>io.ReadFull\<close> is \<^verbatim>\<open>io.ReadAtLeast\<close> with the whole buffer as minimum: it loops while bytes
  are missing and no error occurred.  A \<open>Read\<close> that returns neither bytes nor an error would
  make the Go loop spin; the fuel bound reports it as \<open>ErrNoProgress\<close>, which
  \<open>ReadFull_sim\<close> shows never happens for the readers used here.
\<close>

fun ReadFull_loop ::
  "'s net_io \<Rightarrow> nat \<Rightarrow> nat \<Rightarrow> byte list \<Rightarrow> 's \<Rightarrow> (io_error + byte list) \<times> 's" where
  "ReadFull_loop io fuel need acc s =
     (if need = 0 then (Inr acc, s)
      else case fuel of
        0 \<Rightarrow> (Inl ErrNoProgress, s)
      | Suc f \<Rightarrow>
          (case io_Read io need s of
             (bs, None, s') \<Rightarrow> ReadFull_loop io f (need - length bs) (acc @ bs) s'
           | (bs, Some e, s') \<Rightarrow>
               (if need \<le> length bs then (Inr (acc @ bs), s')
                else if acc @ bs \<noteq> [] \<and> e = EOF then (Inl ErrUnexpectedEOF, s')
                else (Inl e, s'))))"

definition ReadFull :: "'s net_io \<Rightarrow> nat \<Rightarrow> 's \<Rightarrow> (io_error + byte list) \<times> 's" where
  "ReadFull io n s = ReadFull_loop io n n [] s"

text \<open>
  The protocol code threads a connection through many calls; it is written in the state
  monad over these two primitives.  \<open>rd\<close> is \<^verbatim>\<open>io.ReadFull\<close> into a buffer of the given
  length, \<open>wr\<close> is \<open>Write\<close>, of which the callers only look at the error.
\<close>

abbreviation ret :: "'a \<Rightarrow> ('s, 'a) state" where
  "ret \<equiv> State_Monad.return"

definition rd :: "'s net_io \<Rightarrow> nat \<Rightarrow> ('s, io_error + byte list) state" where
  "rd io n = State (ReadFull io n)"

definition wr :: "'s net_io \<Rightarrow> byte list \<Rightarrow> ('s, io_error option) state" where
  "wr io bs = State (\<lambda>s. case io_Write io bs s of (_, e, s') \<Rightarrow> (e, s'))"

section \<open>Writing\<close>

text \<open>
  The outcome of each \<open>Write\<close> is the network's: a list of outcomes, \<open>Some (k, e)\<close> for a
  write that fails with \<open>e\<close> after \<open>k\<close> bytes, and success once the list is used up.
\<close>

type_synonym write_outcome = "(nat \<times> io_error) option"

fun write_result :: "write_outcome list \<Rightarrow> byte list \<Rightarrow> byte list \<times> io_error option \<times> write_outcome list" where
  "write_result [] bs = (bs, None, [])"
| "write_result (None # ws) bs = (bs, None, ws)"
| "write_result (Some (k, e) # ws) bs = (take k bs, Some e, ws)"

section \<open>The byte stream\<close>

record stream =
  st_data :: "byte list"
  st_end :: io_error
  st_out :: "byte list"
  st_wres :: "write_outcome list"

definition stream_Read :: "nat \<Rightarrow> stream \<Rightarrow> byte list \<times> io_error option \<times> stream" where
  "stream_Read n s =
     (if n = 0 then ([], None, s)
      else if st_data s = [] then ([], Some (st_end s), s)
      else (take n (st_data s), None, s\<lparr>st_data := drop n (st_data s)\<rparr>))"

definition stream_Write :: "byte list \<Rightarrow> stream \<Rightarrow> nat \<times> io_error option \<times> stream" where
  "stream_Write bs s =
     (case write_result (st_wres s) bs of
        (w, e, ws) \<Rightarrow> (length w, e, s\<lparr>st_out := st_out s @ w, st_wres := ws\<rparr>))"

definition stream_io :: "stream net_io" where
  "stream_io = \<lparr>io_Read = stream_Read, io_Write = stream_Write\<rparr>"

text \<open>What \<^verbatim>\<open>io.ReadFull\<close> amounts to on the byte stream.\<close>

definition stream_ReadFull :: "nat \<Rightarrow> stream \<Rightarrow> (io_error + byte list) \<times> stream" where
  "stream_ReadFull n s =
     (if n \<le> length (st_data s)
      then (Inr (take n (st_data s)), s\<lparr>st_data := drop n (st_data s)\<rparr>)
      else (Inl (if st_data s \<noteq> [] \<and> st_end s = EOF then ErrUnexpectedEOF else st_end s),
            s\<lparr>st_data := []\<rparr>))"

section \<open>A TCP connection\<close>

record conn =
  c_in :: "byte list list"
  c_end :: io_error
  c_out :: "byte list"
  c_wres :: "write_outcome list"

definition conn_Read :: "nat \<Rightarrow> conn \<Rightarrow> byte list \<times> io_error option \<times> conn" where
  "conn_Read n c =
     (if n = 0 then ([], None, c)
      else case dropWhile (\<lambda>seg. seg = []) (c_in c) of
        [] \<Rightarrow> ([], Some (c_end c), c\<lparr>c_in := []\<rparr>)
      | seg # segs \<Rightarrow> (take n seg, None, c\<lparr>c_in := drop n seg # segs\<rparr>))"

definition conn_Write :: "byte list \<Rightarrow> conn \<Rightarrow> nat \<times> io_error option \<times> conn" where
  "conn_Write bs c =
     (case write_result (c_wres c) bs of
        (w, e, ws) \<Rightarrow> (length w, e, c\<lparr>c_out := c_out c @ w, c_wres := ws\<rparr>))"

definition conn_io :: "conn net_io" where
  "conn_io = \<lparr>io_Read = conn_Read, io_Write = conn_Write\<rparr>"

definition conn_stream :: "conn \<Rightarrow> stream" where
  "conn_stream c =
     \<lparr>st_data = concat (c_in c), st_end = c_end c, st_out = c_out c, st_wres = c_wres c\<rparr>"

section \<open>The buffered reader over a connection\<close>

text \<open>
  \<^verbatim>\<open>bufio.Reader.Read\<close>: hand out buffered bytes; when the buffer is empty, read at most one
  segment, straight into the caller's slice if that is at least as large as the buffer.
  Writes go to the connection itself.
\<close>

record bufio =
  b_buf :: "byte list"
  b_rd :: conn

definition bufio_size :: nat where
  "bufio_size = 4096"

definition bufio_Read :: "nat \<Rightarrow> bufio \<Rightarrow> byte list \<times> io_error option \<times> bufio" where
  "bufio_Read n b =
     (if n = 0 then ([], None, b)
      else if b_buf b \<noteq> [] then (take n (b_buf b), None, b\<lparr>b_buf := drop n (b_buf b)\<rparr>)
      else if bufio_size \<le> n then
        (case conn_Read n (b_rd b) of (bs, e, c) \<Rightarrow> (bs, e, b\<lparr>b_rd := c\<rparr>))
      else
        (case conn_Read bufio_size (b_rd b) of
           (bs, e, c) \<Rightarrow>
             (if bs = [] then ([], e, b\<lparr>b_rd := c\<rparr>)
              else (take n bs, None, b\<lparr>b_buf := drop n bs, b_rd := c\<rparr>))))"

definition bufio_Write :: "byte list \<Rightarrow> bufio \<Rightarrow> nat \<times> io_error option \<times> bufio" where
  "bufio_Write bs b = (case conn_Write bs (b_rd b) of (n, e, c) \<Rightarrow> (n, e, b\<lparr>b_rd := c\<rparr>))"

definition bufio_io :: "bufio net_io" where
  "bufio_io = \<lparr>io_Read = bufio_Read, io_Write = bufio_Write\<rparr>"

definition bufio_stream :: "bufio \<Rightarrow> stream" where
  "bufio_stream b =
     \<lparr>st_data = b_buf b @ concat (c_in (b_rd b)), st_end = c_end (b_rd b),
      st_out = c_out (b_rd b), st_wres = c_wres (b_rd b)\<rparr>"

definition NewReaderSize :: "conn \<Rightarrow> bufio" where
  "NewReaderSize c = \<lparr>b_buf = [], b_rd = c\<rparr>"

section \<open>Simulation of state-monad programs\<close>

definition st_sim :: "('s \<Rightarrow> 't) \<Rightarrow> ('s, 'a) state \<Rightarrow> ('t, 'a) state \<Rightarrow> bool" where
  "st_sim view m m' \<longleftrightarrow> (\<forall>s. run_state m' (view s) = map_prod id view (run_state m s))"

lemma st_simD: "st_sim view m m' \<Longrightarrow> run_state m s = (r, s') \<Longrightarrow> run_state m' (view s) = (r, view s')"
  by (simp add: st_sim_def)

lemma sim_ret [sim_rules]: "st_sim view (ret x) (ret x)"
  by (simp add: st_sim_def)

lemma sim_bind [sim_rules]:
  "st_sim view m m' \<Longrightarrow> (\<And>x. st_sim view (f x) (f' x)) \<Longrightarrow>
   st_sim view (State_Monad.bind m f) (State_Monad.bind m' f')"
  by (simp add: st_sim_def split: prod.splits)

lemma sim_if [sim_rules]:
  "(b \<Longrightarrow> st_sim view m m') \<Longrightarrow> (\<not> b \<Longrightarrow> st_sim view n n') \<Longrightarrow>
   st_sim view (if b then m else n) (if b then m' else n')"
  by simp

lemma sim_sum [sim_rules]:
  "(\<And>e. r = Inl e \<Longrightarrow> st_sim view (f e) (f' e)) \<Longrightarrow> (\<And>x. r = Inr x \<Longrightarrow> st_sim view (g x) (g' x)) \<Longrightarrow>
   st_sim view (case r of Inl e \<Rightarrow> f e | Inr x \<Rightarrow> g x) (case r of Inl e \<Rightarrow> f' e | Inr x \<Rightarrow> g' x)"
  by (cases r) simp_all

lemma sim_option [sim_rules]:
  "(r = None \<Longrightarrow> st_sim view m m') \<Longrightarrow> (\<And>x. r = Some x \<Longrightarrow> st_sim view (g x) (g' x)) \<Longrightarrow>
   st_sim view (case r of None \<Rightarrow> m | Some x \<Rightarrow> g x) (case r of None \<Rightarrow> m' | Some x \<Rightarrow> g' x)"
  by (cases r) simp_all

lemma sim_prod [sim_rules]:
  "(\<And>x y. r = (x, y) \<Longrightarrow> st_sim view (g x y) (g' x y)) \<Longrightarrow>
   st_sim view (case r of (x, y) \<Rightarrow> g x y) (case r of (x, y) \<Rightarrow> g' x y)"
  by (cases r) simp_all

section \<open>What an implementation of the stream promises\<close>

locale stream_impl =
  fixes io :: "'s net_io" and view :: "'s \<Rightarrow> stream"
  assumes read_progress:
    "0 < n \<Longrightarrow> st_data (view s) \<noteq> [] \<Longrightarrow>
       \<exists>k s'. 0 < k \<and> k \<le> n \<and> k \<le> length (st_data (view s)) \<and>
         io_Read io n s = (take k (st_data (view s)), None, s') \<and>
         view s' = (view s)\<lparr>st_data := drop k (st_data (view s))\<rparr>"
    and read_end:
    "0 < n \<Longrightarrow> st_data (view s) = [] \<Longrightarrow>
       \<exists>s'. io_Read io n s = ([], Some (st_end (view s)), s') \<and> view s' = view s"
    and write_ok:
    "io_Write io bs s = (n, e, s') \<Longrightarrow> stream_Write bs (view s) = (n, e, view s')"
begin

lemma ReadFull_loop_sim:
  "need \<le> fuel \<Longrightarrow>
   ReadFull_loop io fuel need acc s = (r, s') \<Longrightarrow>
   (if need \<le> length (st_data (view s))
    then r = Inr (acc @ take need (st_data (view s))) \<and>
         view s' = (view s)\<lparr>st_data := drop need (st_data (view s))\<rparr>
    else r = Inl (if acc @ st_data (view s) \<noteq> [] \<and> st_end (view s) = EOF then ErrUnexpectedEOF
                  else st_end (view s)) \<and>
         view s' = (view s)\<lparr>st_data := []\<rparr>)"
proof (induction fuel arbitrary: need acc s)
  case 0
  then show ?case by (simp add: ReadFull_loop.simps [of _ 0])
next
  case (Suc fuel)
  show ?case
  proof (cases "need = 0")
    case True
    with Suc.prems show ?thesis by (simp add: ReadFull_loop.simps [of _ "Suc fuel"])
  next
    case pos: False
    show ?thesis
    proof (cases "st_data (view s) = []")
      case True
      with pos obtain t where t: "io_Read io need s = ([], Some (st_end (view s)), t)"
        and view_t: "view t = view s"
        using read_end [of need s] by auto
      from Suc.prems(2) pos t have "r = Inl (if acc \<noteq> [] \<and> st_end (view s) = EOF
          then ErrUnexpectedEOF else st_end (view s)) \<and> s' = t"
        by (auto simp: ReadFull_loop.simps [of _ "Suc fuel"] split: if_splits)
      with True pos view_t show ?thesis by simp
    next
      case False
      with pos obtain k t where k: "0 < k" "k \<le> need" "k \<le> length (st_data (view s))"
        and rd: "io_Read io need s = (take k (st_data (view s)), None, t)"
        and view_t: "view t = (view s)\<lparr>st_data := drop k (st_data (view s))\<rparr>"
        using read_progress [of need s] by auto
      from k have len: "length (take k (st_data (view s))) = k"
        by simp
      from Suc.prems(2) pos rd k have
        "ReadFull_loop io fuel (need - k) (acc @ take k (st_data (view s))) t = (r, s')"
        by (simp add: ReadFull_loop.simps [of _ "Suc fuel"])
      moreover from Suc.prems(1) k have "need - k \<le> fuel" by simp
      ultimately show ?thesis
        using Suc.IH [of "need - k" "acc @ take k (st_data (view s))" t] k view_t
        by (auto simp: take_add [symmetric] add.commute split: if_splits)
    qed
  qed
qed

lemma ReadFull_spec:
  assumes "ReadFull io n s = (r, s')"
  shows "stream_ReadFull n (view s) = (r, view s')"
  using ReadFull_loop_sim [of n n "[]" s r s'] assms
  by (auto simp: ReadFull_def stream_ReadFull_def split: if_splits)

end

interpretation st: stream_impl stream_io "\<lambda>s. s"
proof unfold_locales
  fix n :: nat and s :: stream
  assume n: "0 < n" and d: "st_data s \<noteq> []"
  let ?k = "min n (length (st_data s))"
  have "0 < ?k \<and> ?k \<le> n \<and> ?k \<le> length (st_data s)"
    using n d by auto
  moreover have "io_Read stream_io n s =
      (take ?k (st_data s), None, s\<lparr>st_data := drop ?k (st_data s)\<rparr>)"
    using n d by (cases "n \<le> length (st_data s)") (auto simp: stream_io_def stream_Read_def)
  ultimately show "\<exists>k s'. 0 < k \<and> k \<le> n \<and> k \<le> length (st_data s) \<and>
      io_Read stream_io n s = (take k (st_data s), None, s') \<and>
      s' = s\<lparr>st_data := drop k (st_data s)\<rparr>"
    by blast
qed (auto simp: stream_io_def stream_Read_def)

lemma ReadFull_stream [simp]: "ReadFull stream_io n s = stream_ReadFull n s"
  by (cases "ReadFull stream_io n s") (auto dest: st.ReadFull_spec)

context stream_impl
begin

lemma ReadFull_sim:
  "ReadFull io n s = (r, s') \<Longrightarrow> ReadFull stream_io n (view s) = (r, view s')"
  by (simp add: ReadFull_spec)

lemma rd_sim [sim_rules]: "st_sim view (rd io n) (rd stream_io n)"
  unfolding st_sim_def rd_def
proof
  fix s
  obtain r s' where "ReadFull io n s = (r, s')" by fastforce
  then show "run_state (State (ReadFull stream_io n)) (view s) =
      map_prod id view (run_state (State (ReadFull io n)) s)"
    by (simp add: ReadFull_spec)
qed

lemma wr_sim [sim_rules]: "st_sim view (wr io bs) (wr stream_io bs)"
  by (auto simp: st_sim_def wr_def stream_io_def split: prod.splits dest: write_ok)

end

section \<open>The connection and the buffered reader implement the stream\<close>

lemma concat_dropWhile_Nil: "concat (dropWhile (\<lambda>seg. seg = []) segs) = concat segs"
  by (induction segs) auto

lemma conn_stream_in [simp]:
  "conn_stream (c\<lparr>c_in := segs\<rparr>) = (conn_stream c)\<lparr>st_data := concat segs\<rparr>"
  by (simp add: conn_stream_def)

lemma conn_Read_progress:
  assumes "0 < n" and "concat (c_in c) \<noteq> []"
  obtains k c' where "0 < k" "k \<le> n" "k \<le> length (concat (c_in c))"
    "conn_Read n c = (take k (concat (c_in c)), None, c')"
    "conn_stream c' = (conn_stream c)\<lparr>st_data := drop k (concat (c_in c))\<rparr>"
proof -
  obtain seg segs where dw: "dropWhile (\<lambda>seg. seg = []) (c_in c) = seg # segs"
    using assms(2) by (cases "dropWhile (\<lambda>seg. seg = []) (c_in c)") auto
  have cat: "concat (c_in c) = seg @ concat segs"
    using concat_dropWhile_Nil [of "c_in c"] dw by simp
  have seg: "seg \<noteq> []"
    using hd_dropWhile [of "\<lambda>seg. seg = []" "c_in c"] dw by simp
  let ?k = "min n (length seg)"
  have "conn_Read n c = (take ?k (concat (c_in c)), None, c\<lparr>c_in := drop n seg # segs\<rparr>)"
    using assms(1) dw cat by (cases "n \<le> length seg") (auto simp: conn_Read_def)
  moreover have "concat (drop n seg # segs) = drop ?k (concat (c_in c))"
    using cat by (cases "n \<le> length seg") auto
  ultimately show ?thesis
    using that [of ?k] assms(1) seg cat by auto
qed

lemma conn_Read_end:
  assumes "0 < n" and "concat (c_in c) = []"
  shows "conn_Read n c = ([], Some (c_end c), c\<lparr>c_in := []\<rparr>)"
proof -
  have dw: "dropWhile (\<lambda>seg. seg = []) (c_in c) = []"
    using assms(2) by simp
  show ?thesis
    unfolding conn_Read_def dw using assms(1) by simp
qed

lemma conn_progress:
  assumes n: "0 < n" and d: "st_data (conn_stream c) \<noteq> []"
  shows "\<exists>k s'. 0 < k \<and> k \<le> n \<and> k \<le> length (st_data (conn_stream c)) \<and>
      io_Read conn_io n c = (take k (st_data (conn_stream c)), None, s') \<and>
      conn_stream s' = (conn_stream c)\<lparr>st_data := drop k (st_data (conn_stream c))\<rparr>"
proof -
  have data: "st_data (conn_stream c) = concat (c_in c)"
    and rd: "io_Read conn_io = conn_Read"
    by (simp_all add: conn_stream_def conn_io_def)
  from d have "concat (c_in c) \<noteq> []" unfolding data .
  from conn_Read_progress [OF n this] show ?thesis
    unfolding data rd by metis
qed

interpretation tcp: stream_impl conn_io conn_stream
proof unfold_locales
  fix n :: nat and c :: conn
  assume n: "0 < n" and d: "st_data (conn_stream c) \<noteq> []"
  show "\<exists>k s'. 0 < k \<and> k \<le> n \<and> k \<le> length (st_data (conn_stream c)) \<and>
      io_Read conn_io n c = (take k (st_data (conn_stream c)), None, s') \<and>
      conn_stream s' = (conn_stream c)\<lparr>st_data := drop k (st_data (conn_stream c))\<rparr>"
    by (rule conn_progress [OF n d])
next
  fix n :: nat and c :: conn
  assume n: "0 < n" and d: "st_data (conn_stream c) = []"
  from d have "concat (c_in c) = []"
    by (simp only: conn_stream_def stream.simps)
  from conn_Read_end [OF n this] this
  show "\<exists>s'. io_Read conn_io n c = ([], Some (st_end (conn_stream c)), s') \<and>
      conn_stream s' = conn_stream c"
    by (simp add: conn_io_def conn_stream_def)
qed (auto simp: conn_io_def conn_Write_def stream_Write_def conn_stream_def split: prod.splits)

lemma drop_take_append:
  "k \<le> length xs \<Longrightarrow> drop n (take k xs) @ drop k xs = drop (min n k) xs"
proof (cases "n \<le> k")
  case True
  assume "k \<le> length xs"
  with True have "drop n (take k xs) @ drop k xs = drop n (take k xs @ drop k xs)"
    by (simp del: append_take_drop_id)
  with True show ?thesis by (simp add: min_def)
qed (simp add: min_def)

lemma bufio_progress:
  assumes n: "0 < n" and d: "st_data (bufio_stream b) \<noteq> []"
  shows "\<exists>k s'. 0 < k \<and> k \<le> n \<and> k \<le> length (st_data (bufio_stream b)) \<and>
      io_Read bufio_io n b = (take k (st_data (bufio_stream b)), None, s') \<and>
      bufio_stream s' = (bufio_stream b)\<lparr>st_data := drop k (st_data (bufio_stream b))\<rparr>"
proof (cases "b_buf b = []")
  case False
  let ?k = "min n (length (b_buf b))"
  have "io_Read bufio_io n b =
      (take ?k (st_data (bufio_stream b)), None, b\<lparr>b_buf := drop n (b_buf b)\<rparr>)"
    using False n by (cases "n \<le> length (b_buf b)")
      (auto simp: bufio_io_def bufio_Read_def bufio_stream_def)
  moreover have "bufio_stream (b\<lparr>b_buf := drop n (b_buf b)\<rparr>) =
      (bufio_stream b)\<lparr>st_data := drop ?k (st_data (bufio_stream b))\<rparr>"
    by (cases "n \<le> length (b_buf b)") (auto simp: bufio_stream_def)
  ultimately show ?thesis
    using False n by (intro exI [of _ ?k]) (auto simp: bufio_stream_def)
next
  case empty: True
  let ?m = "if bufio_size \<le> n then n else bufio_size"
  from d empty n have m: "0 < ?m" and c: "concat (c_in (b_rd b)) \<noteq> []"
    by (auto simp: bufio_stream_def bufio_size_def)
  obtain k c' where k: "0 < k" "k \<le> ?m" "k \<le> length (concat (c_in (b_rd b)))"
    and rd: "conn_Read ?m (b_rd b) = (take k (concat (c_in (b_rd b))), None, c')"
    and st: "conn_stream c' = (conn_stream (b_rd b))\<lparr>st_data := drop k (concat (c_in (b_rd b)))\<rparr>"
    by (rule conn_Read_progress [OF m c])
  show ?thesis
  proof (cases "bufio_size \<le> n")
    case True
    with empty n rd k st show ?thesis
      by (intro exI [of _ k])
        (auto simp: bufio_io_def bufio_Read_def bufio_stream_def conn_stream_def)
  next
    case False
    let ?d = "take k (concat (c_in (b_rd b)))"
    let ?j = "min n k"
    have ne: "?d \<noteq> []" using k(1) c by (simp only: take_eq_Nil) simp
    have "io_Read bufio_io n b =
        (take n ?d, None, b\<lparr>b_buf := drop n ?d, b_rd := c'\<rparr>)"
      using False empty n rd ne by (auto simp: bufio_io_def bufio_Read_def)
    moreover have "drop n ?d @ concat (c_in c') = drop ?j (concat (c_in (b_rd b)))"
      using st k(3) by (simp add: conn_stream_def drop_take_append)
    then have "bufio_stream (b\<lparr>b_buf := drop n ?d, b_rd := c'\<rparr>) =
        (bufio_stream b)\<lparr>st_data := drop ?j (st_data (bufio_stream b))\<rparr>"
      using st empty by (simp add: bufio_stream_def conn_stream_def)
    moreover have "take n ?d = take ?j (st_data (bufio_stream b))"
      using empty by (simp add: bufio_stream_def min.commute)
    moreover have "0 < ?j \<and> ?j \<le> n \<and> ?j \<le> length (st_data (bufio_stream b))"
      using n k empty by (simp add: bufio_stream_def)
    ultimately show ?thesis by metis
  qed
qed

interpretation buf: stream_impl bufio_io bufio_stream
proof unfold_locales
  fix n :: nat and b :: bufio
  assume n: "0 < n" and d: "st_data (bufio_stream b) \<noteq> []"
  show "\<exists>k s'. 0 < k \<and> k \<le> n \<and> k \<le> length (st_data (bufio_stream b)) \<and>
      io_Read bufio_io n b = (take k (st_data (bufio_stream b)), None, s') \<and>
      bufio_stream s' = (bufio_stream b)\<lparr>st_data := drop k (st_data (bufio_stream b))\<rparr>"
    by (rule bufio_progress [OF n d])
next
  fix n :: nat and b :: bufio
  assume "0 < n" and "st_data (bufio_stream b) = []"
  then show "\<exists>s'. io_Read bufio_io n b = ([], Some (st_end (bufio_stream b)), s') \<and>
      bufio_stream s' = bufio_stream b"
    using conn_Read_end [of n "b_rd b"] conn_Read_end [of bufio_size "b_rd b"]
    by (auto simp: bufio_io_def bufio_Read_def bufio_stream_def bufio_size_def)
qed (auto simp: bufio_io_def bufio_Write_def conn_Write_def stream_Write_def bufio_stream_def
       split: prod.splits)

lemma bufio_stream_sel [simp]:
  "st_out (bufio_stream b) = c_out (b_rd b)" "st_wres (bufio_stream b) = c_wres (b_rd b)"
  "st_end (bufio_stream b) = c_end (b_rd b)"
  by (simp_all add: bufio_stream_def)

lemma conn_stream_sel [simp]:
  "st_data (conn_stream c) = concat (c_in c)" "st_out (conn_stream c) = c_out c"
  "st_wres (conn_stream c) = c_wres c" "st_end (conn_stream c) = c_end c"
  by (simp_all add: conn_stream_def)

section \<open>Running the primitives on the stream\<close>

lemma run_rd [simp]: "run_state (rd stream_io n) s = stream_ReadFull n s"
  by (simp add: rd_def)

lemma run_wr: "run_state (wr stream_io bs) s =
   (case write_result (st_wres s) bs of
      (w, e, ws) \<Rightarrow> (e, s\<lparr>st_out := st_out s @ w, st_wres := ws\<rparr>))"
  by (simp add: wr_def stream_io_def stream_Write_def split: prod.splits)

lemma run_wr_ok [simp]:
  "st_wres s = [] \<Longrightarrow> run_state (wr stream_io bs) s = (None, s\<lparr>st_out := st_out s @ bs, st_wres := []\<rparr>)"
  by (simp add: run_wr)

lemma stream_ReadFull_append:
  "st_data s = xs @ ys \<Longrightarrow> length xs = n \<Longrightarrow>
   stream_ReadFull n s = (Inr xs, s\<lparr>st_data := ys\<rparr>)"
  by (auto simp: stream_ReadFull_def)

text \<open>\<open>reads s bs s'\<close>: between the two states exactly \<open>bs\<close> was read and nothing was written.\<close>

definition reads :: "stream \<Rightarrow> byte list \<Rightarrow> stream \<Rightarrow> bool" where
  "reads s bs s' \<longleftrightarrow> st_data s = bs @ st_data s' \<and> st_end s' = st_end s \<and>
     st_out s' = st_out s \<and> st_wres s' = st_wres s"

lemma reads_refl [simp]: "reads s [] s"
  by (simp add: reads_def)

lemma reads_trans: "reads s xs t \<Longrightarrow> reads t ys u \<Longrightarrow> reads s (xs @ ys) u"
  by (simp add: reads_def)

lemma ReadFull_Inr:
  assumes "stream_ReadFull n s = (Inr xs, s')"
  shows "length xs = n" and "reads s xs s'"
  using assms by (auto simp: stream_ReadFull_def reads_def split: if_splits)

lemma ReadFull_Inl:
  assumes "stream_ReadFull n s = (Inl e, s')"
  shows "length (st_data s) < n" and "reads s (st_data s) s'"
  using assms by (auto simp: stream_ReadFull_def reads_def split: if_splits)

section \<open>Computations that only read\<close>

definition quiet :: "(stream, 'a) state \<Rightarrow> bool" where
  "quiet m \<longleftrightarrow> (\<forall>s. st_out (snd (run_state m s)) = st_out s \<and> st_wres (snd (run_state m s)) = st_wres s)"

lemma quietD:
  "quiet m \<Longrightarrow> run_state m s = (x, s') \<Longrightarrow> st_out s' = st_out s \<and> st_wres s' = st_wres s"
  by (auto simp: quiet_def dest: spec [of _ s])

lemma quiet_ret [quiet_rules]: "quiet (ret x)"
  by (simp add: quiet_def)

lemma quiet_rd [quiet_rules]: "quiet (rd stream_io n)"
  by (simp add: quiet_def stream_ReadFull_def)

lemma quiet_bind [quiet_rules]: "quiet m \<Longrightarrow> (\<And>x. quiet (f x)) \<Longrightarrow> quiet (State_Monad.bind m f)"
  by (simp add: quiet_def split: prod.splits) (metis fst_conv snd_conv)

lemma quiet_if [quiet_rules]: "quiet m \<Longrightarrow> quiet n \<Longrightarrow> quiet (if b then m else n)"
  by simp

lemma quiet_sum [quiet_rules]:
  "(\<And>e. quiet (f e)) \<Longrightarrow> (\<And>x. quiet (g x)) \<Longrightarrow> quiet (case r of Inl e \<Rightarrow> f e | Inr x \<Rightarrow> g x)"
  by (simp split: sum.split)

end
