(* ===== verification/GoStd.thy ===== *)
theory GoStd
  imports S5_Prelude
begin

text \<open>
  The parts of Go's standard library that the program's own logic goes through:
  \<^verbatim>\<open>strings\<close> (searching, splitting, trimming, lower-casing), \<^verbatim>\<open>strconv.Atoi\<close> and \<^verbatim>\<open>Itoa\<close>,
  \<^verbatim>\<open>net.SplitHostPort\<close> and \<^verbatim>\<open>net.JoinHostPort\<close>, the \<^verbatim>\<open>net.IP\<close> methods and
  \<^verbatim>\<open>net.ParseIP\<close>.  Each definition follows the library's algorithm; the lemmas at the end
  are the facts the components use.
\<close>

section \<open>Searching and splitting strings\<close>

fun index_of :: "char \<Rightarrow> string \<Rightarrow> nat option" where
  "index_of c [] = None"
| "index_of c (x # xs) = (if x = c then Some 0 else map_option Suc (index_of c xs))"

fun last_index :: "char \<Rightarrow> string \<Rightarrow> nat option" where
  "last_index c [] = None"
| "last_index c (x # xs) =
     (case last_index c xs of
        Some i \<Rightarrow> Some (Suc i)
      | None \<Rightarrow> (if x = c then Some 0 else None))"

definition has_prefix :: "string \<Rightarrow> string \<Rightarrow> bool" where
  "has_prefix s p \<longleftrightarrow> take (length p) s = p"

fun contains :: "string \<Rightarrow> string \<Rightarrow> bool" where
  "contains [] p \<longleftrightarrow> p = []"
| "contains (c # cs) p \<longleftrightarrow> has_prefix (c # cs) p \<or> contains cs p"

text \<open>\<^verbatim>\<open>strings.Cut\<close> around the first occurrence of a one-byte separator.\<close>

definition cut :: "char \<Rightarrow> string \<Rightarrow> (string \<times> string) option" where
  "cut c s = (case index_of c s of None \<Rightarrow> None | Some i \<Rightarrow> Some (take i s, drop (Suc i) s))"

text \<open>\<^verbatim>\<open>strings.SplitSeq\<close> and \<^verbatim>\<open>strings.Split\<close> with a one-byte separator.\<close>

fun split_on :: "char \<Rightarrow> string \<Rightarrow> string list" where
  "split_on c [] = [[]]"
| "split_on c (x # xs) =
     (if x = c then [] # split_on c xs
      else case split_on c xs of
        [] \<Rightarrow> [[x]]
      | p # ps \<Rightarrow> (x # p) # ps)"

section \<open>Trimming and lower-casing\<close>

text \<open>
  \<^verbatim>\<open>strings.TrimSpace\<close> removes Unicode white space: the six ASCII characters and the UTF-8
  encodings of the others.  \<^verbatim>\<open>strings.ToLower\<close> maps ASCII letters and, of the other code
  points, the two whose lower case is an ASCII letter (U+0130 and the Kelvin sign U+212A);
  the remaining non-ASCII letters keep a non-ASCII image under Go, and are left alone here.
  The program only ever compares the result with ASCII words, for which the two agree.
\<close>

definition utf8_spaces :: "string list" where
  "utf8_spaces =
     map (map char_of)
       ([[9], [10], [11], [12], [13], [32],
         [0xC2, 0x85], [0xC2, 0xA0], [0xE1, 0x9A, 0x80],
         [0xE2, 0x80, 0xA8], [0xE2, 0x80, 0xA9], [0xE2, 0x80, 0xAF], [0xE2, 0x81, 0x9F],
         [0xE3, 0x80, 0x80]] @ map (\<lambda>k. [0xE2, 0x80, 0x80 + k]) [0 ..< 11 :: nat])"

function trim_left :: "string list \<Rightarrow> string \<Rightarrow> string" where
  "trim_left sps s =
     (case find (\<lambda>sp. sp \<noteq> [] \<and> has_prefix s sp) sps of
        None \<Rightarrow> s
      | Some sp \<Rightarrow> if s = [] then s else trim_left sps (drop (length sp) s))"
  by pat_completeness auto
termination
proof (relation "measure (\<lambda>(sps, s). length s)")
  fix sps s sp
  assume "find (\<lambda>sp. sp \<noteq> [] \<and> has_prefix s sp) sps = Some sp" and "s \<noteq> []"
  then have "sp \<noteq> []" by (auto simp: find_Some_iff)
  with \<open>s \<noteq> []\<close> show "((sps, drop (length sp) s), sps, s) \<in> measure (\<lambda>(sps, s). length s)"
    by simp
qed simp

declare trim_left.simps [simp del]

definition TrimSpace :: "string \<Rightarrow> string" where
  "TrimSpace s = rev (trim_left (map rev utf8_spaces) (rev (trim_left utf8_spaces s)))"

definition lower_ascii :: "char \<Rightarrow> char" where
  "lower_ascii c =
     (let n = (of_char c :: nat) in if 65 \<le> n \<and> n \<le> 90 then char_of (n + 32) else c)"

fun ToLower :: "string \<Rightarrow> string" where
  "ToLower [] = []"
| "ToLower [a] = [lower_ascii a]"
| "ToLower [a, b] =
     (if a = char_of (0xC4 :: nat) \<and> b = char_of (0xB0 :: nat) then ''i''
      else lower_ascii a # ToLower [b])"
| "ToLower (a # b # c # s) =
     (if a = char_of (0xC4 :: nat) \<and> b = char_of (0xB0 :: nat) then CHR ''i'' # ToLower (c # s)
      else if a = char_of (0xE2 :: nat) \<and> b = char_of (0x84 :: nat) \<and> c = char_of (0xAA :: nat)
      then CHR ''k'' # ToLower s
      else lower_ascii a # ToLower (b # c # s))"

section \<open>Numbers\<close>

definition is_digit :: "char \<Rightarrow> bool" where
  "is_digit c \<longleftrightarrow> 48 \<le> (of_char c :: nat) \<and> (of_char c :: nat) \<le> 57"

definition digit_char :: "nat \<Rightarrow> char" where
  "digit_char d = char_of (48 + d)"

definition digit_val :: "char \<Rightarrow> nat" where
  "digit_val c = of_char c - 48"

fun utoa :: "nat \<Rightarrow> string" where
  "utoa n = (if n < 10 then [digit_char n] else utoa (n div 10) @ [digit_char (n mod 10)])"

declare utoa.simps [simp del]

definition Itoa :: "int \<Rightarrow> string" where
  "Itoa z = (if z < 0 then CHR ''-'' # utoa (nat (- z)) else utoa (nat z))"

definition digits_val :: "string \<Rightarrow> int" where
  "digits_val ds = foldl (\<lambda>v c. 10 * v + int (digit_val c)) 0 ds"

text \<open>
  \<^verbatim>\<open>strconv.Atoi\<close>: an optional sign, then decimal digits, in the range of a 64-bit \<^verbatim>\<open>int\<close>.
\<close>

definition Atoi :: "string \<Rightarrow> gerror + int" where
  "Atoi s =
     (let (neg, ds) = (case s of
                         [] \<Rightarrow> (False, [])
                       | c # cs \<Rightarrow> if c = CHR ''-'' then (True, cs)
                                  else if c = CHR ''+'' then (False, cs) else (False, s))
      in if ds = [] \<or> \<not> list_all is_digit ds
         then Inl (Errorf ''strconv.Atoi: parsing %q: invalid syntax'' [FStr s])
         else let v = (if neg then - digits_val ds else digits_val ds)
              in if v < - (2 ^ 63) \<or> 2 ^ 63 \<le> v
                 then Inl (Errorf ''strconv.Atoi: parsing %q: value out of range'' [FStr s])
                 else Inr v)"

definition hex_digit :: "nat \<Rightarrow> char" where
  "hex_digit d = (if d < 10 then char_of (48 + d) else char_of (87 + d))"

definition hex2 :: "byte \<Rightarrow> string" where
  "hex2 b = [hex_digit (unat b div 16), hex_digit (unat b mod 16)]"

definition hex_EncodeToString :: "byte list \<Rightarrow> string" where
  "hex_EncodeToString bs = concat (map hex2 bs)"

section \<open>Host and port\<close>

definition addr_error :: "string \<Rightarrow> string \<Rightarrow> gerror" where
  "addr_error addr why = Errorf ''address %s: %s'' [FStr addr, FStr why]"

definition split_brackets ::
  "string \<Rightarrow> string \<Rightarrow> nat \<Rightarrow> nat \<Rightarrow> nat \<Rightarrow> gerror + (string \<times> string)" where
  "split_brackets hp host j k i =
     (if index_of CHR ''['' (drop j hp) \<noteq> None
      then Inl (addr_error hp ''unexpected '[' in address'')
      else if index_of CHR '']'' (drop k hp) \<noteq> None
      then Inl (addr_error hp ''unexpected ']' in address'')
      else Inr (host, drop (Suc i) hp))"

definition SplitHostPort :: "string \<Rightarrow> gerror + (string \<times> string)" where
  "SplitHostPort hp =
     (case last_index CHR '':'' hp of
        None \<Rightarrow> Inl (addr_error hp ''missing port in address'')
      | Some i \<Rightarrow>
          if hp ! 0 = CHR ''['' then
            (case index_of CHR '']'' hp of
               None \<Rightarrow> Inl (addr_error hp ''missing ']' in address'')
             | Some e \<Rightarrow>
                 if Suc e = length hp then Inl (addr_error hp ''missing port in address'')
                 else if Suc e = i then split_brackets hp (take (e - 1) (drop 1 hp)) 1 (Suc e) i
                 else if hp ! Suc e = CHR '':''
                 then Inl (addr_error hp ''too many colons in address'')
                 else Inl (addr_error hp ''missing port in address''))
          else if index_of CHR '':'' (take i hp) \<noteq> None
          then Inl (addr_error hp ''too many colons in address'')
          else split_brackets hp (take i hp) 0 0 i)"

definition JoinHostPort :: "string \<Rightarrow> string \<Rightarrow> string" where
  "JoinHostPort host port =
     (if index_of CHR '':'' host \<noteq> None then ''['' @ host @ '']:'' @ port
      else host @ '':'' @ port)"

section \<open>IP addresses\<close>

text \<open>A \<^verbatim>\<open>net.IP\<close> is a byte slice; \<^const>\<open>None\<close> stands for a nil result.\<close>

type_synonym ip = "byte list"

definition v4_prefix :: "byte list" where
  "v4_prefix = replicate 10 0 @ [0xFF, 0xFF]"

definition To4 :: "ip \<Rightarrow> ip option" where
  "To4 a =
     (if length a = 4 then Some a
      else if length a = 16 \<and> take 12 a = v4_prefix then Some (drop 12 a)
      else None)"

definition To16 :: "ip \<Rightarrow> ip option" where
  "To16 a =
     (if length a = 4 then Some (v4_prefix @ a)
      else if length a = 16 then Some a
      else None)"

definition ip_Equal :: "ip \<Rightarrow> ip \<Rightarrow> bool" where
  "ip_Equal a b =
     (if length a = length b then a = b
      else if length a = 4 \<and> length b = 16 then take 12 b = v4_prefix \<and> a = drop 12 b
      else if length a = 16 \<and> length b = 4 then take 12 a = v4_prefix \<and> drop 12 a = b
      else False)"

definition IPv4zero :: ip where
  "IPv4zero = v4_prefix @ replicate 4 0"

definition IPv6unspecified :: ip where
  "IPv6unspecified = replicate 16 0"

definition IsUnspecified :: "ip \<Rightarrow> bool" where
  "IsUnspecified a \<longleftrightarrow> ip_Equal a IPv4zero \<or> ip_Equal a IPv6unspecified"

definition IsLoopback :: "ip \<Rightarrow> bool" where
  "IsLoopback a =
     (case To4 a of
        Some a4 \<Rightarrow> a4 ! 0 = 127
      | None \<Rightarrow> ip_Equal a (replicate 15 0 @ [1]))"

subsection \<open>Printing\<close>

definition v4_string :: "byte list \<Rightarrow> string" where
  "v4_string a =
     utoa (unat (a ! 0)) @ ''.'' @ utoa (unat (a ! 1)) @ ''.'' @
     utoa (unat (a ! 2)) @ ''.'' @ utoa (unat (a ! 3))"

fun utox :: "nat \<Rightarrow> string" where
  "utox n = (if n < 16 then [hex_digit n] else utox (n div 16) @ [hex_digit (n mod 16)])"

declare utox.simps [simp del]

definition v6_groups :: "byte list \<Rightarrow> nat list" where
  "v6_groups a = map (\<lambda>i. 256 * unat (a ! (2 * i)) + unat (a ! (2 * i + 1))) [0 ..< 8]"

text \<open>
  The run of zero groups that \<^verbatim>\<open>::\<close> replaces: scanning left to right, the first run of at
  least two groups that is longer than the best so far.
\<close>

definition zero_run :: "nat list \<Rightarrow> nat \<times> nat" where
  "zero_run gs =
     fold (\<lambda>i (zs, ze).
             let l = length (takeWhile (\<lambda>g. g = 0) (drop i gs))
             in if 2 \<le> l \<and> ze - zs < l then (i, i + l) else (zs, ze))
       [0 ..< 8] (255, 255)"

fun v6_print :: "nat \<Rightarrow> nat list \<Rightarrow> nat \<Rightarrow> nat \<Rightarrow> nat \<Rightarrow> string" where
  "v6_print 0 gs zs ze i = []"
| "v6_print (Suc f) gs zs ze i =
     (if 8 \<le> i then []
      else if i = zs then
        (if 8 \<le> ze then ''::''
         else ''::'' @ utox (gs ! ze) @ v6_print f gs zs ze (Suc ze))
      else (if 0 < i then '':'' else []) @ utox (gs ! i) @ v6_print f gs zs ze (Suc i))"

definition ip_String :: "ip \<Rightarrow> string" where
  "ip_String a =
     (if a = [] then ''<nil>''
      else if length a \<noteq> 4 \<and> length a \<noteq> 16 then ''?'' @ hex_EncodeToString a
      else case To4 a of
        Some a4 \<Rightarrow> v4_string a4
      | None \<Rightarrow> (let gs = v6_groups a; (zs, ze) = zero_run gs in v6_print 8 gs zs ze 0))"

subsection \<open>Parsing\<close>

fun v4_fields :: "string \<Rightarrow> nat \<Rightarrow> nat \<Rightarrow> byte list \<Rightarrow> byte list option" where
  "v4_fields [] val dig acc = (if length acc < 3 then None else Some (acc @ [of_nat val]))"
| "v4_fields (c # cs) val dig acc =
     (if is_digit c then
        (if dig = 1 \<and> val = 0 then None
         else let v = 10 * val + digit_val c
              in if 255 < v then None else v4_fields cs v (Suc dig) acc)
      else if c = CHR ''.'' then
        (if dig = 0 \<or> cs = [] then None
         else if length acc = 3 then None
         else v4_fields cs 0 0 (acc @ [of_nat val]))
      else None)"

definition hex_val :: "char \<Rightarrow> nat option" where
  "hex_val c =
     (let n = (of_char c :: nat)
      in if 48 \<le> n \<and> n \<le> 57 then Some (n - 48)
         else if 97 \<le> n \<and> n \<le> 102 then Some (n - 87)
         else if 65 \<le> n \<and> n \<le> 70 then Some (n - 55)
         else None)"

definition is_hex :: "char \<Rightarrow> bool" where
  "is_hex c \<longleftrightarrow> hex_val c \<noteq> None"

fun v6_loop ::
  "nat \<Rightarrow> byte list \<Rightarrow> nat option \<Rightarrow> string \<Rightarrow> (byte list \<times> nat option \<times> string) option" where
  "v6_loop 0 acc ell s = Some (acc, ell, s)"
| "v6_loop (Suc k) acc ell s =
     (let ds = takeWhile is_hex s; rest = dropWhile is_hex s
      in if ds = [] \<or> 4 < length ds then None
         else if rest \<noteq> [] \<and> hd rest = CHR ''.'' then
           (if ell = None \<and> length acc \<noteq> 12 then None
            else if 16 < length acc + 4 then None
            else case v4_fields s 0 0 [] of
              None \<Rightarrow> None
            | Some q \<Rightarrow> Some (acc @ q, ell, []))
         else
           (let v = foldl (\<lambda>v c. 16 * v + the (hex_val c)) 0 ds;
                acc' = acc @ [of_nat (v div 256), of_nat v]
            in case rest of
                 [] \<Rightarrow> Some (acc', ell, [])
               | c # s1 \<Rightarrow>
                   if c \<noteq> CHR '':'' \<or> s1 = [] then None
                   else if hd s1 = CHR '':'' then
                     (if ell \<noteq> None then None
                      else if tl s1 = [] then Some (acc', Some (length acc'), [])
                      else v6_loop k acc' (Some (length acc')) (tl s1))
                   else v6_loop k acc' ell s1))"

definition v6_finish :: "(byte list \<times> nat option \<times> string) option \<Rightarrow> byte list option" where
  "v6_finish r =
     (case r of
        None \<Rightarrow> None
      | Some (acc, ell, s) \<Rightarrow>
          if s \<noteq> [] then None
          else if length acc < 16 then
            (case ell of
               None \<Rightarrow> None
             | Some e \<Rightarrow> Some (take e acc @ replicate (16 - length acc) 0 @ drop e acc))
          else if ell \<noteq> None then None
          else Some acc)"

definition parse_v6 :: "string \<Rightarrow> byte list option" where
  "parse_v6 s =
     (if index_of CHR ''%'' s \<noteq> None then None
      else if has_prefix s ''::'' then
        (if drop 2 s = [] then Some IPv6unspecified
         else v6_finish (v6_loop 8 [] (Some 0) (drop 2 s)))
      else v6_finish (v6_loop 8 [] None s))"

definition ParseIP :: "string \<Rightarrow> ip option" where
  "ParseIP s =
     (case find (\<lambda>c. c = CHR ''.'' \<or> c = CHR '':'' \<or> c = CHR ''%'') s of
        None \<Rightarrow> None
      | Some c \<Rightarrow>
          if c = CHR ''.'' then map_option (\<lambda>q. v4_prefix @ q) (v4_fields s 0 0 [])
          else if c = CHR '':'' then parse_v6 s
          else None)"

section \<open>Facts about searching and splitting\<close>

lemma index_of_None [simp]: "index_of c s = None \<longleftrightarrow> c \<notin> set s"
  by (induction s) auto

lemma index_of_append [simp]: "c \<notin> set xs \<Longrightarrow> index_of c (xs @ c # ys) = Some (length xs)"
  by (induction xs) auto

lemma last_index_None [simp]: "last_index c s = None \<longleftrightarrow> c \<notin> set s"
  by (induction s) (auto split: option.splits)

lemma last_index_append [simp]: "c \<notin> set ys \<Longrightarrow> last_index c (xs @ c # ys) = Some (length xs)"
proof (induction xs)
  case Nil
  then show ?case using last_index_None [of c ys] by (simp split: option.split)
qed simp

lemma cut_append [simp]: "c \<notin> set xs \<Longrightarrow> cut c (xs @ c # ys) = Some (xs, ys)"
  by (simp add: cut_def)

lemma cut_None [simp]: "cut c s = None \<longleftrightarrow> c \<notin> set s"
  using index_of_None [of c s] by (auto simp: cut_def simp del: index_of_None split: option.splits)

lemma split_on_ne [simp]: "split_on c s \<noteq> []"
  by (induction s) (auto split: list.splits)

lemma split_on_single [simp]: "c \<notin> set s \<Longrightarrow> split_on c s = [s]"
  by (induction s) auto

lemma split_on_append [simp]: "c \<notin> set xs \<Longrightarrow> split_on c (xs @ c # ys) = xs # split_on c ys"
  by (induction xs) auto

lemma contains_Nil [simp]: "contains s []"
  by (cases s) (simp_all add: has_prefix_def)

lemma contains_subset: "contains s p \<Longrightarrow> set p \<subseteq> set s"
proof (induction s)
  case (Cons c s)
  have "set p \<subseteq> set (c # s)" if "has_prefix (c # s) p"
    using that by (metis has_prefix_def set_take_subset)
  with Cons show ?case by auto
qed simp

lemma contains_single: "contains s [c] \<longleftrightarrow> c \<in> set s"
  by (induction s) (auto simp: has_prefix_def)

lemma has_prefix_single: "has_prefix s [c] \<longleftrightarrow> s \<noteq> [] \<and> hd s = c"
  by (cases s) (auto simp: has_prefix_def)

section \<open>Facts about numbers\<close>

lemma is_digit_digit_char [simp]: "d < 10 \<Longrightarrow> is_digit (digit_char d)"
  by (simp add: is_digit_def digit_char_def)

lemma digit_val_digit_char [simp]: "d < 10 \<Longrightarrow> digit_val (digit_char d) = d"
  by (simp add: digit_val_def digit_char_def)

lemma utoa_ne [simp]: "utoa n \<noteq> []"
  by (simp add: utoa.simps [of n])

lemma utoa_digits: "list_all is_digit (utoa n)"
  by (induction n rule: utoa.induct) (subst utoa.simps, simp)

lemma digits_val_snoc [simp]: "digits_val (ds @ [c]) = 10 * digits_val ds + int (digit_val c)"
  by (simp add: digits_val_def)

lemma digits_val_utoa [simp]: "digits_val (utoa n) = int n"
proof (induction n rule: utoa.induct)
  case (1 n)
  show ?case
  proof (cases "n < 10")
    case True
    then show ?thesis by (simp add: utoa.simps [of n] digits_val_def)
  next
    case False
    with 1 have "digits_val (utoa n) = 10 * int (n div 10) + int (n mod 10)"
      by (simp add: utoa.simps [of n])
    then show ?thesis by (metis of_nat_add of_nat_mult of_nat_numeral mult_div_mod_eq)
  qed
qed

lemma digit_not_sign: "is_digit c \<Longrightarrow> c \<noteq> CHR ''-'' \<and> c \<noteq> CHR ''+''"
  by (auto simp: is_digit_def)

lemma Itoa_chars: "c \<in> set (Itoa z) \<Longrightarrow> is_digit c \<or> c = CHR ''-''"
  using utoa_digits by (auto simp: Itoa_def list_all_iff split: if_splits)

lemma Itoa_ne [simp]: "Itoa z \<noteq> []"
  by (simp add: Itoa_def)

lemma Atoi_Itoa:
  assumes "- (2 ^ 63) \<le> z" and "z < 2 ^ 63"
  shows "Atoi (Itoa z) = Inr z"
proof (cases "z < 0")
  case True
  with assms show ?thesis
    using utoa_digits [of "nat (- z)"] by (simp add: Atoi_def Itoa_def)
next
  case False
  obtain c cs where c: "utoa (nat z) = c # cs" by (cases "utoa (nat z)") simp
  with utoa_digits [of "nat z"] have "is_digit c" "list_all is_digit (c # cs)" by simp_all
  with False assms c digits_val_utoa [of "nat z"] digit_not_sign [of c] show ?thesis
    by (simp add: Atoi_def Itoa_def)
qed

section \<open>Facts about host and port\<close>

lemma SplitHostPort_plain:
  assumes "CHR '':'' \<notin> set host" "CHR ''['' \<notin> set (host @ port)" "CHR '']'' \<notin> set (host @ port)"
    and "CHR '':'' \<notin> set port"
  shows "SplitHostPort (host @ CHR '':'' # port) = Inr (host, port)"
proof -
  have "(host @ CHR '':'' # port) ! 0 \<noteq> CHR ''[''" using assms(2) by (cases host) auto
  with assms show ?thesis by (simp add: SplitHostPort_def split_brackets_def)
qed

lemma SplitHostPort_brackets:
  assumes "CHR ''['' \<notin> set (host @ port)" "CHR '']'' \<notin> set (host @ port)" "CHR '':'' \<notin> set port"
  shows "SplitHostPort (CHR ''['' # host @ CHR '']'' # CHR '':'' # port) = Inr (host, port)"
proof -
  let ?hp = "CHR ''['' # host @ CHR '']'' # CHR '':'' # port"
  have "?hp = (CHR ''['' # host @ [CHR '']'']) @ CHR '':'' # port" by simp
  then have l: "last_index CHR '':'' ?hp = Some (length host + 2)"
    using last_index_append [OF assms(3), of "CHR ''['' # host @ [CHR '']'']"] by simp
  have "?hp = (CHR ''['' # host) @ CHR '']'' # CHR '':'' # port" by simp
  then have i: "index_of CHR '']'' ?hp = Some (Suc (length host))"
    using index_of_append [of "CHR '']''" "CHR ''['' # host"] assms(2) by simp
  show ?thesis
    unfolding SplitHostPort_def l option.case using assms
    by (simp add: i split_brackets_def)
qed

section \<open>Facts about trimming\<close>

lemma trim_left_id:
  assumes "\<And>sp. sp \<in> set sps \<Longrightarrow> sp \<noteq> [] \<Longrightarrow> hd sp \<noteq> c"
  shows "trim_left sps (c # cs) = c # cs"
proof -
  have "find (\<lambda>sp. sp \<noteq> [] \<and> has_prefix (c # cs) sp) sps = None"
    using assms by (auto simp: find_None_iff has_prefix_def) (metis list.sel(1) take_Cons' list.collapse length_greater_0_conv less_numeral_extra(3))
  then show ?thesis by (simp add: trim_left.simps [of sps "c # cs"])
qed

definition plain_char :: "char \<Rightarrow> bool" where
  "plain_char c \<longleftrightarrow> 33 \<le> (of_char c :: nat) \<and> (of_char c :: nat) \<le> 126"

lemma spaces_not_plain:
  "list_all (\<lambda>sp. \<not> plain_char (hd sp)) utf8_spaces"
  "list_all (\<lambda>sp. \<not> plain_char (hd sp)) (map rev utf8_spaces)"
  by code_simp+

lemma TrimSpace_id:
  assumes "s \<noteq> []" and "plain_char (hd s)" and "plain_char (last s)"
  shows "TrimSpace s = s"
proof -
  have keep: "trim_left sps t = t"
    if "t \<noteq> []" "plain_char (hd t)" "list_all (\<lambda>sp. \<not> plain_char (hd sp)) sps" for sps t
    using that trim_left_id [of sps "hd t" "tl t"] by (metis list.collapse list_all_iff)
  from assms have "trim_left utf8_spaces s = s" by (intro keep spaces_not_plain)
  moreover from assms have "trim_left (map rev utf8_spaces) (rev s) = rev s"
    by (intro keep spaces_not_plain) (simp_all add: hd_rev)
  ultimately show ?thesis by (simp add: TrimSpace_def)
qed

lemma plain_digit: "is_digit c \<Longrightarrow> plain_char c"
  by (simp add: is_digit_def plain_char_def)

lemma TrimSpace_Itoa [simp]: "TrimSpace (Itoa z) = Itoa z"
proof (rule TrimSpace_id)
  have "plain_char c" if "c \<in> set (Itoa z)" for c
    using Itoa_chars [OF that] by (auto simp: plain_digit) (simp add: plain_char_def)
  then show "plain_char (hd (Itoa z))" "plain_char (last (Itoa z))" by simp_all
qed simp

end
