(* ===== verification/Socks5.thy ===== *)
theory Socks5
  imports NetIO GoStd
begin

text \<open>
  The SOCKS5 wire protocol of \<^verbatim>\<open>internal/socks5/protocol.go\<close>, for both roles of the proxy: the
  server role towards clients (\<open>ReadGreeting\<close>, \<open>ReadRequest\<close>, \<open>BuildReply\<close>) and the client
  role towards upstreams (\<open>ClientHandshake\<close>, \<open>clientRequest\<close>).  Every function takes the
  method dictionary of the connection it works on, as the Go code takes a \<^verbatim>\<open>net.Conn\<close>.

  The lemmas show that each function behaves on a segmented connection or a buffered reader
  as on the plain byte stream; that the request parser and the request writer are inverse to
  each other, so that a CONNECT request reaches the upstream byte for byte; that the parser
  writes exactly one error reply in the cases where it reports a reply code; that credentials
  leave the process only after the upstream asked for them; and that replies survive the
  round trip.
\<close>

section \<open>Protocol constants\<close>

definition Version :: byte where "Version = 0x05"

definition AuthNone :: byte where "AuthNone = 0x00"

definition AuthUserPass :: byte where "AuthUserPass = 0x02"

definition AuthNoAccept :: byte where "AuthNoAccept = 0xFF"

definition CmdConnect :: byte where "CmdConnect = 0x01"

definition CmdBind :: byte where "CmdBind = 0x02"

definition CmdUDPAssociate :: byte where "CmdUDPAssociate = 0x03"

definition AtypIPv4 :: byte where "AtypIPv4 = 0x01"

definition AtypDomain :: byte where "AtypDomain = 0x03"

definition AtypIPv6 :: byte where "AtypIPv6 = 0x04"

definition RepSuccess :: byte where "RepSuccess = 0x00"

definition RepGeneralFailure :: byte where "RepGeneralFailure = 0x01"

definition RepConnNotAllowed :: byte where "RepConnNotAllowed = 0x02"

definition RepNetworkUnreachable :: byte where "RepNetworkUnreachable = 0x03"

definition RepHostUnreachable :: byte where "RepHostUnreachable = 0x04"

definition RepConnRefused :: byte where "RepConnRefused = 0x05"

definition RepTTLExpired :: byte where "RepTTLExpired = 0x06"

definition RepCommandNotSupported :: byte where "RepCommandNotSupported = 0x07"

definition RepAddrTypeNotSupported :: byte where "RepAddrTypeNotSupported = 0x08"

lemmas proto_consts = Version_def AuthNone_def AuthUserPass_def AuthNoAccept_def
  CmdConnect_def CmdBind_def CmdUDPAssociate_def AtypIPv4_def AtypDomain_def AtypIPv6_def
  RepSuccess_def RepGeneralFailure_def RepConnNotAllowed_def RepNetworkUnreachable_def
  RepHostUnreachable_def RepConnRefused_def RepTTLExpired_def RepCommandNotSupported_def
  RepAddrTypeNotSupported_def

section \<open>Server role\<close>

definition ReplyBytes :: "byte \<Rightarrow> byte list" where
  "ReplyBytes rep = [Version, rep, 0x00, AtypIPv4, 0, 0, 0, 0, 0, 0]"

definition BuildReply :: "byte \<Rightarrow> ip option \<Rightarrow> uint16 \<Rightarrow> byte list" where
  "BuildReply rep bindIP bindPort =
     (case bindIP of
        None \<Rightarrow> ReplyBytes rep
      | Some a \<Rightarrow>
          (case To4 a of
             Some v4 \<Rightarrow> [Version, rep, 0x00, AtypIPv4] @ v4 @ put_u16 bindPort
           | None \<Rightarrow>
               (case To16 a of
                  Some v6 \<Rightarrow> [Version, rep, 0x00, AtypIPv6] @ v6 @ put_u16 bindPort
                | None \<Rightarrow> ReplyBytes rep)))"

definition ReadGreeting :: "'s net_io \<Rightarrow> ('s, gerror option) state" where
  "ReadGreeting io = do {
     r \<leftarrow> rd io 2;
     case r of
       Inl e \<Rightarrow> ret (Some (Errorf ''read greeting header: %w'' [FErr (IOErr e)]))
     | Inr hdr \<Rightarrow>
         if hdr ! 0 \<noteq> Version \<or> hdr ! 1 = 0 then ret (Some (errors_New ''bad greeting''))
         else do {
           r2 \<leftarrow> rd io (unat (hdr ! 1));
           case r2 of
             Inl e \<Rightarrow> ret (Some (Errorf ''read methods: %w'' [FErr (IOErr e)]))
           | Inr methods \<Rightarrow>
               if \<not> list_ex (\<lambda>m. m = AuthNone) methods then do {
                 _ \<leftarrow> wr io [Version, AuthNoAccept];
                 ret (Some (errors_New ''no acceptable auth method (client did not offer NoAuth)''))
               }
               else do {
                 w \<leftarrow> wr io [Version, AuthNone];
                 case w of
                   Some e \<Rightarrow> ret (Some (Errorf ''write greeting reply: %w'' [FErr (IOErr e)]))
                 | None \<Rightarrow> ret None
               }
         }
   }"

record Request =
  rq_Cmd :: byte
  rq_Atyp :: byte
  rq_RawAddr :: "byte list"
  rq_Port :: uint16
  rq_DstLabel :: string

definition readPort ::
  "'s net_io \<Rightarrow> byte list \<Rightarrow> string \<Rightarrow> ('s, gerror + byte list \<times> uint16 \<times> string) state" where
  "readPort io raw label = do {
     r \<leftarrow> rd io 2;
     case r of
       Inl e \<Rightarrow> ret (Inl (IOErr e))
     | Inr pb \<Rightarrow> ret (Inr (raw, get_u16 pb, label))
   }"

definition readDest ::
  "'s net_io \<Rightarrow> byte \<Rightarrow> ('s, gerror + byte list \<times> uint16 \<times> string) state" where
  "readDest io atyp =
     (if atyp = AtypIPv4 then do {
        r \<leftarrow> rd io 4;
        case r of Inl e \<Rightarrow> ret (Inl (IOErr e)) | Inr raw \<Rightarrow> readPort io raw (ip_String raw)
      }
      else if atyp = AtypIPv6 then do {
        r \<leftarrow> rd io 16;
        case r of Inl e \<Rightarrow> ret (Inl (IOErr e)) | Inr raw \<Rightarrow> readPort io raw (ip_String raw)
      }
      else if atyp = AtypDomain then do {
        r \<leftarrow> rd io 1;
        case r of
          Inl e \<Rightarrow> ret (Inl (IOErr e))
        | Inr lb \<Rightarrow>
            if lb ! 0 = 0 then ret (Inl (errors_New ''empty domain''))
            else do {
              r2 \<leftarrow> rd io (unat (lb ! 0));
              case r2 of
                Inl e \<Rightarrow> ret (Inl (IOErr e))
              | Inr d \<Rightarrow> readPort io (lb @ d) (string_of d)
            }
      }
      else ret (Inl (Errorf ''unsupported atyp 0x%02x'' [FInt (uint atyp)])))"

definition ReadRequest :: "'s net_io \<Rightarrow> ('s, (gerror + Request) \<times> byte) state" where
  "ReadRequest io = do {
     r \<leftarrow> rd io 4;
     case r of
       Inl e \<Rightarrow> ret (Inl (Errorf ''read request header: %w'' [FErr (IOErr e)]), 0)
     | Inr hdr \<Rightarrow>
         if hdr ! 0 \<noteq> Version then ret (Inl (errors_New ''bad request version''), 0)
         else if hdr ! 2 \<noteq> 0x00 then do {
           _ \<leftarrow> wr io (ReplyBytes RepGeneralFailure);
           ret (Inl (Errorf ''reserved byte must be 0x00, got 0x%02x'' [FInt (uint (hdr ! 2))]),
                RepGeneralFailure)
         }
         else if hdr ! 1 \<noteq> CmdConnect \<and> hdr ! 1 \<noteq> CmdUDPAssociate then do {
           _ \<leftarrow> wr io (ReplyBytes RepCommandNotSupported);
           ret (Inl (Errorf ''unsupported cmd 0x%02x'' [FInt (uint (hdr ! 1))]),
                RepCommandNotSupported)
         }
         else do {
           d \<leftarrow> readDest io (hdr ! 3);
           case d of
             Inl e \<Rightarrow> do {
               _ \<leftarrow> wr io (ReplyBytes RepAddrTypeNotSupported);
               ret (Inl e, RepAddrTypeNotSupported)
             }
           | Inr (raw, port, label) \<Rightarrow>
               ret (Inr \<lparr>rq_Cmd = hdr ! 1, rq_Atyp = hdr ! 3, rq_RawAddr = raw, rq_Port = port,
                         rq_DstLabel = label\<rparr>, 0)
         }
   }"

section \<open>Client role\<close>

definition userPassAuth :: "'s net_io \<Rightarrow> byte list \<Rightarrow> byte list \<Rightarrow> ('s, gerror option) state" where
  "userPassAuth io u p =
     (if 255 < length u \<or> 255 < length p
      then ret (Some (errors_New ''credential exceeds 255 bytes''))
      else do {
        w \<leftarrow> wr io ([0x01, of_nat (length u)] @ u @ [of_nat (length p)] @ p);
        case w of
          Some e \<Rightarrow> ret (Some (Errorf ''write auth: %w'' [FErr (IOErr e)]))
        | None \<Rightarrow> do {
            r \<leftarrow> rd io 2;
            case r of
              Inl e \<Rightarrow> ret (Some (Errorf ''read auth reply: %w'' [FErr (IOErr e)]))
            | Inr ar \<Rightarrow>
                if ar ! 0 \<noteq> 0x01
                then ret (Some (Errorf ''bad auth reply version %d'' [FInt (uint (ar ! 0))]))
                else if ar ! 1 \<noteq> 0x00 then ret (Some (errors_New ''auth rejected''))
                else ret None
          }
      })"

definition ClientHandshake :: "'s net_io \<Rightarrow> string \<Rightarrow> string \<Rightarrow> ('s, gerror option) state" where
  "ClientHandshake io user pass =
     (let haveCreds = (user \<noteq> [] \<or> pass \<noteq> []);
          greet = (if haveCreds then [Version, 0x02, AuthNone, AuthUserPass]
                   else [Version, 0x01, AuthNone])
      in do {
        w \<leftarrow> wr io greet;
        case w of
          Some e \<Rightarrow> ret (Some (Errorf ''write greeting: %w'' [FErr (IOErr e)]))
        | None \<Rightarrow> do {
            r \<leftarrow> rd io 2;
            case r of
              Inl e \<Rightarrow> ret (Some (Errorf ''read greeting reply: %w'' [FErr (IOErr e)]))
            | Inr resp \<Rightarrow>
                if resp ! 0 \<noteq> Version
                then ret (Some (Errorf ''bad version %d'' [FInt (uint (resp ! 0))]))
                else if resp ! 1 = AuthNone then ret None
                else if resp ! 1 = AuthUserPass then
                  (if \<not> haveCreds
                   then ret (Some (errors_New
                          ''upstream requires auth but no credentials configured''))
                   else userPassAuth io (bytes_of user) (bytes_of pass))
                else if resp ! 1 = AuthNoAccept
                then ret (Some (errors_New ''no acceptable auth methods''))
                else ret (Some (Errorf ''unsupported auth method 0x%02x''
                        [FInt (uint (resp ! 1))]))
          }
      })"

record ClientRequestReply =
  rp_Rep :: byte
  rp_BindAtyp :: byte
  rp_BindIP :: "ip option"
  rp_BindHost :: string
  rp_BindPort :: uint16

definition reply_zero :: ClientRequestReply where
  "reply_zero = \<lparr>rp_Rep = 0, rp_BindAtyp = 0, rp_BindIP = None, rp_BindHost = [], rp_BindPort = 0\<rparr>"

definition readBindPort ::
  "'s net_io \<Rightarrow> ClientRequestReply \<Rightarrow> ('s, ClientRequestReply \<times> gerror option) state" where
  "readBindPort io out = do {
     r \<leftarrow> rd io 2;
     case r of
       Inl e \<Rightarrow> ret (out, Some (IOErr e))
     | Inr pb \<Rightarrow> ret (out\<lparr>rp_BindPort := get_u16 pb\<rparr>, None)
   }"

definition readBind ::
  "'s net_io \<Rightarrow> byte \<Rightarrow> ClientRequestReply \<Rightarrow> ('s, ClientRequestReply \<times> gerror option) state" where
  "readBind io atyp out =
     (if atyp = AtypIPv4 then do {
        r \<leftarrow> rd io 4;
        case r of
          Inl e \<Rightarrow> ret (out, Some (IOErr e))
        | Inr buf \<Rightarrow> readBindPort io (out\<lparr>rp_BindIP := Some buf\<rparr>)
      }
      else if atyp = AtypIPv6 then do {
        r \<leftarrow> rd io 16;
        case r of
          Inl e \<Rightarrow> ret (out, Some (IOErr e))
        | Inr buf \<Rightarrow> readBindPort io (out\<lparr>rp_BindIP := Some buf\<rparr>)
      }
      else if atyp = AtypDomain then do {
        r \<leftarrow> rd io 1;
        case r of
          Inl e \<Rightarrow> ret (out, Some (IOErr e))
        | Inr lb \<Rightarrow> do {
            r2 \<leftarrow> rd io (unat (lb ! 0));
            case r2 of
              Inl e \<Rightarrow> ret (out, Some (IOErr e))
            | Inr d \<Rightarrow> readBindPort io (out\<lparr>rp_BindHost := string_of d\<rparr>)
          }
      }
      else ret (out, Some (Errorf ''bad reply atyp 0x%02x'' [FInt (uint atyp)])))"

definition clientRequest ::
  "'s net_io \<Rightarrow> byte \<Rightarrow> byte \<Rightarrow> byte list \<Rightarrow> uint16
     \<Rightarrow> ('s, ClientRequestReply \<times> gerror option) state" where
  "clientRequest io cmd atyp rawAddr port = do {
     w \<leftarrow> wr io ([Version, cmd, 0x00, atyp] @ rawAddr @ put_u16 port);
     case w of
       Some e \<Rightarrow> ret (reply_zero, Some (Errorf ''write request: %w'' [FErr (IOErr e)]))
     | None \<Rightarrow> do {
         r \<leftarrow> rd io 4;
         case r of
           Inl e \<Rightarrow> ret (reply_zero, Some (Errorf ''read reply header: %w'' [FErr (IOErr e)]))
         | Inr hdr \<Rightarrow>
             if hdr ! 0 \<noteq> Version
             then ret (reply_zero, Some (errors_New ''bad reply version''))
             else if hdr ! 2 \<noteq> 0x00
             then ret (reply_zero, Some (Errorf ''reply reserved byte must be 0x00, got 0x%02x''
                    [FInt (uint (hdr ! 2))]))
             else readBind io (hdr ! 3) (reply_zero\<lparr>rp_Rep := hdr ! 1, rp_BindAtyp := hdr ! 3\<rparr>)
       }
   }"

definition ClientConnect ::
  "'s net_io \<Rightarrow> byte \<Rightarrow> byte list \<Rightarrow> uint16 \<Rightarrow> ('s, ClientRequestReply \<times> gerror option) state" where
  "ClientConnect io atyp rawAddr port = clientRequest io CmdConnect atyp rawAddr port"

definition ClientUDPAssociate ::
  "'s net_io \<Rightarrow> byte \<Rightarrow> byte list \<Rightarrow> uint16 \<Rightarrow> ('s, ClientRequestReply \<times> gerror option) state" where
  "ClientUDPAssociate io atyp rawAddr port = clientRequest io CmdUDPAssociate atyp rawAddr port"

section \<open>Labels\<close>

definition AtypLabel :: "byte \<Rightarrow> string" where
  "AtypLabel a =
     (if a = AtypIPv4 then ''ipv4'' else if a = AtypIPv6 then ''ipv6''
      else if a = AtypDomain then ''domain'' else ''unknown'')"

definition CmdLabel :: "byte \<Rightarrow> string" where
  "CmdLabel c =
     (if c = CmdConnect then ''connect'' else if c = CmdBind then ''bind''
      else if c = CmdUDPAssociate then ''udp_associate'' else ''0x'' @ hex2 c)"

definition ReplyLabel :: "byte \<Rightarrow> string" where
  "ReplyLabel r =
     (if r = RepSuccess then ''success''
      else if r = RepGeneralFailure then ''general_failure''
      else if r = RepConnNotAllowed then ''not_allowed''
      else if r = RepNetworkUnreachable then ''net_unreachable''
      else if r = RepHostUnreachable then ''host_unreachable''
      else if r = RepConnRefused then ''refused''
      else if r = RepTTLExpired then ''ttl_expired''
      else if r = RepCommandNotSupported then ''cmd_unsupported''
      else if r = RepAddrTypeNotSupported then ''atyp_unsupported''
      else ''0x'' @ hex2 r)"

section \<open>Every function acts on an implementation as on the byte stream\<close>

context stream_impl
begin

lemma ReadGreeting_sim: "st_sim view (ReadGreeting io) (ReadGreeting stream_io)"
  unfolding ReadGreeting_def by (intro sim_rules)

lemma readPort_sim: "st_sim view (readPort io raw l) (readPort stream_io raw l)"
  unfolding readPort_def by (intro sim_rules)

lemma readDest_sim: "st_sim view (readDest io atyp) (readDest stream_io atyp)"
  unfolding readDest_def by (intro sim_rules readPort_sim)

lemma ReadRequest_sim: "st_sim view (ReadRequest io) (ReadRequest stream_io)"
  unfolding ReadRequest_def by (intro sim_rules readDest_sim)

lemma userPassAuth_sim: "st_sim view (userPassAuth io u p) (userPassAuth stream_io u p)"
  unfolding userPassAuth_def by (intro sim_rules)

lemma ClientHandshake_sim:
  "st_sim view (ClientHandshake io user pass) (ClientHandshake stream_io user pass)"
  unfolding ClientHandshake_def Let_def by (intro sim_rules userPassAuth_sim)

lemma readBindPort_sim: "st_sim view (readBindPort io out) (readBindPort stream_io out)"
  unfolding readBindPort_def by (intro sim_rules)

lemma readBind_sim: "st_sim view (readBind io atyp out) (readBind stream_io atyp out)"
  unfolding readBind_def by (intro sim_rules readBindPort_sim)

lemma clientRequest_sim:
  "st_sim view (clientRequest io cmd atyp raw port) (clientRequest stream_io cmd atyp raw port)"
  unfolding clientRequest_def by (intro sim_rules readBind_sim)

end

section \<open>The request format\<close>

definition wf_addr :: "byte \<Rightarrow> byte list \<Rightarrow> bool" where
  "wf_addr atyp raw \<longleftrightarrow>
     (atyp = AtypIPv4 \<and> length raw = 4) \<or>
     (atyp = AtypIPv6 \<and> length raw = 16) \<or>
     (atyp = AtypDomain \<and> raw \<noteq> [] \<and> hd raw \<noteq> 0 \<and> length raw = Suc (unat (hd raw)))"

definition addr_label :: "byte \<Rightarrow> byte list \<Rightarrow> string" where
  "addr_label atyp raw = (if atyp = AtypDomain then string_of (tl raw) else ip_String raw)"

definition request_bytes :: "byte \<Rightarrow> byte \<Rightarrow> byte list \<Rightarrow> uint16 \<Rightarrow> byte list" where
  "request_bytes cmd atyp raw port = [Version, cmd, 0x00, atyp] @ raw @ put_u16 port"

lemma readPort_parse:
  assumes "st_data s = put_u16 port @ rest"
  shows "run_state (readPort stream_io raw l) s = (Inr (raw, port, l), s\<lparr>st_data := rest\<rparr>)"
  using stream_ReadFull_append [OF assms] by (simp add: readPort_def)

lemma readPort_Inr:
  assumes "run_state (readPort stream_io raw l) s = (Inr (raw', port, l'), s')"
  shows "raw' = raw" and "l' = l" and "reads s (put_u16 port) s'"
proof -
  from assms obtain pb where pb: "stream_ReadFull 2 s = (Inr pb, s')"
    and eqs: "raw' = raw" "l' = l" "port = get_u16 pb"
    by (auto simp: readPort_def split: prod.splits sum.splits)
  from eqs show "raw' = raw" and "l' = l" by simp_all
  from ReadFull_Inr [OF pb] eqs(3) show "reads s (put_u16 port) s'"
    by (simp add: put_get_u16)
qed

lemma readPort_Inl:
  assumes "run_state (readPort stream_io raw l) s = (Inl e, s')"
  shows "\<exists>bs. reads s bs s'"
  using assms ReadFull_Inl [of 2 s] by (auto simp: readPort_def split: prod.splits sum.splits)

lemma readDest_parse:
  assumes wf: "wf_addr atyp raw" and data: "st_data s = raw @ put_u16 port @ rest"
  shows "run_state (readDest stream_io atyp) s =
    (Inr (raw, port, addr_label atyp raw), s\<lparr>st_data := rest\<rparr>)"
  using wf unfolding wf_addr_def
proof (elim disjE conjE)
  assume "atyp = AtypDomain" "raw \<noteq> []" "hd raw \<noteq> 0" "length raw = Suc (unat (hd raw))"
  then obtain l d where raw: "raw = [l] @ d" "l \<noteq> 0" "length d = unat l"
    by (cases raw) auto
  with data have "st_data s = [l] @ d @ put_u16 port @ rest" by simp
  from stream_ReadFull_append [OF this, of 1]
  have r1: "stream_ReadFull 1 s = (Inr [l], s\<lparr>st_data := d @ put_u16 port @ rest\<rparr>)"
    by simp
  have r2: "stream_ReadFull (unat l) (s\<lparr>st_data := d @ put_u16 port @ rest\<rparr>) =
      (Inr d, s\<lparr>st_data := put_u16 port @ rest\<rparr>)"
    using stream_ReadFull_append [of "s\<lparr>st_data := d @ put_u16 port @ rest\<rparr>" d] raw by simp
  have "readPort_data": "st_data (s\<lparr>st_data := put_u16 port @ rest\<rparr>) = put_u16 port @ rest"
    by simp
  from \<open>atyp = AtypDomain\<close> r1 r2 raw readPort_parse [OF this] show ?thesis
    by (simp add: readDest_def addr_label_def proto_consts)
next
  assume "atyp = AtypIPv4" "length raw = 4"
  with stream_ReadFull_append [OF data, of 4]
    readPort_parse [of "s\<lparr>st_data := put_u16 port @ rest\<rparr>" port rest]
  show ?thesis by (simp add: readDest_def addr_label_def proto_consts)
next
  assume "atyp = AtypIPv6" "length raw = 16"
  with stream_ReadFull_append [OF data, of 16]
    readPort_parse [of "s\<lparr>st_data := put_u16 port @ rest\<rparr>" port rest]
  show ?thesis by (simp add: readDest_def addr_label_def proto_consts)
qed

lemma readDest_fixed_Inr:
  assumes "run_state (do { r \<leftarrow> rd stream_io n;
      case r of Inl e \<Rightarrow> ret (Inl (IOErr e)) | Inr raw \<Rightarrow> readPort stream_io raw (ip_String raw) }) s
    = (Inr (raw, port, l), s')"
  shows "length raw = n \<and> l = ip_String raw \<and> reads s (raw @ put_u16 port) s'"
proof -
  from assms obtain xs s1 where r: "stream_ReadFull n s = (Inr xs, s1)"
    and p: "run_state (readPort stream_io xs (ip_String xs)) s1 = (Inr (raw, port, l), s')"
    by (auto split: prod.splits sum.splits)
  from ReadFull_Inr [OF r] readPort_Inr [OF p] show ?thesis
    by (auto intro: reads_trans)
qed

lemma readDest_domain_Inr:
  assumes "run_state (readDest stream_io AtypDomain) s = (Inr (raw, port, l), s')"
  shows "wf_addr AtypDomain raw \<and> l = addr_label AtypDomain raw \<and>
    reads s (raw @ put_u16 port) s'"
proof -
  from assms obtain lb s1 d s2 where r1: "stream_ReadFull 1 s = (Inr lb, s1)" and nz: "lb ! 0 \<noteq> 0"
    and r2: "stream_ReadFull (unat (lb ! 0)) s1 = (Inr d, s2)"
    and r3: "run_state (readPort stream_io (lb @ d) (string_of d)) s2 = (Inr (raw, port, l), s')"
    by (auto simp: readDest_def proto_consts split: prod.splits sum.splits if_splits)
  note ReadFull_Inr [OF r1] ReadFull_Inr [OF r2] readPort_Inr [OF r3]
  moreover from this obtain b where "lb = [b]" by (cases lb) auto
  ultimately show ?thesis
    using nz reads_trans [OF reads_trans, of s lb s1 d s2 "put_u16 port" s']
    by (auto simp: wf_addr_def addr_label_def)
qed

lemma readDest_Inr:
  assumes "run_state (readDest stream_io atyp) s = (Inr (raw, port, l), s')"
  shows "wf_addr atyp raw \<and> l = addr_label atyp raw \<and> reads s (raw @ put_u16 port) s'"
proof -
  consider (dom) "atyp = AtypDomain" | (v4) "atyp = AtypIPv4" | (v6) "atyp = AtypIPv6"
    using assms by (auto simp: readDest_def split: if_splits)
  then show ?thesis
  proof cases
    case dom
    with assms show ?thesis using readDest_domain_Inr by simp
  next
    case v4
    with assms readDest_fixed_Inr [of 4 s raw port l s'] show ?thesis
      by (simp add: readDest_def wf_addr_def addr_label_def proto_consts)
  next
    case v6
    with assms readDest_fixed_Inr [of 16 s raw port l s'] show ?thesis
      by (simp add: readDest_def wf_addr_def addr_label_def proto_consts)
  qed
qed

lemma ReadRequest_parse:
  assumes wf: "wf_addr atyp raw" and cmd: "cmd = CmdConnect \<or> cmd = CmdUDPAssociate"
    and data: "st_data s = request_bytes cmd atyp raw port @ rest"
  shows "run_state (ReadRequest stream_io) s =
    ((Inr \<lparr>rq_Cmd = cmd, rq_Atyp = atyp, rq_RawAddr = raw, rq_Port = port,
           rq_DstLabel = addr_label atyp raw\<rparr>, 0), s\<lparr>st_data := rest\<rparr>)"
proof -
  from data have "st_data s = [Version, cmd, 0, atyp] @ raw @ put_u16 port @ rest"
    by (simp add: request_bytes_def)
  from stream_ReadFull_append [OF this, of 4]
  have r: "stream_ReadFull 4 s =
      (Inr [Version, cmd, 0, atyp], s\<lparr>st_data := raw @ put_u16 port @ rest\<rparr>)"
    by simp
  have d: "run_state (readDest stream_io atyp) (s\<lparr>st_data := raw @ put_u16 port @ rest\<rparr>) =
      (Inr (raw, port, addr_label atyp raw), s\<lparr>st_data := rest\<rparr>)"
    using readDest_parse [OF wf, of "s\<lparr>st_data := raw @ put_u16 port @ rest\<rparr>" port rest] by simp
  show ?thesis
    using cmd by (auto simp: ReadRequest_def r d)
qed

lemma ReadRequest_Inr:
  assumes "run_state (ReadRequest stream_io) s = ((Inr req, code), s')"
  shows "code = 0 \<and> (rq_Cmd req = CmdConnect \<or> rq_Cmd req = CmdUDPAssociate) \<and>
    wf_addr (rq_Atyp req) (rq_RawAddr req) \<and>
    rq_DstLabel req = addr_label (rq_Atyp req) (rq_RawAddr req) \<and>
    reads s (request_bytes (rq_Cmd req) (rq_Atyp req) (rq_RawAddr req) (rq_Port req)) s'"
proof -
  from assms obtain hdr s1 raw port l where
    r: "stream_ReadFull 4 s = (Inr hdr, s1)"
    and h: "hdr ! 0 = Version" "hdr ! 2 = 0" "hdr ! 1 = CmdConnect \<or> hdr ! 1 = CmdUDPAssociate"
    and d: "run_state (readDest stream_io (hdr ! 3)) s1 = (Inr (raw, port, l), s')"
    and req: "req = \<lparr>rq_Cmd = hdr ! 1, rq_Atyp = hdr ! 3, rq_RawAddr = raw, rq_Port = port,
                     rq_DstLabel = l\<rparr>" "code = 0"
    by (auto simp: ReadRequest_def split: prod.splits sum.splits if_splits)
  from ReadFull_Inr [OF r] obtain v c z a where hdr: "hdr = [v, c, z, a]"
    by (auto elim: list_len4E)
  from readDest_Inr [OF d] h req hdr ReadFull_Inr(2) [OF r] show ?thesis
    by (auto simp: request_bytes_def dest: reads_trans)
qed


section \<open>Reading a request from the client\<close>

text \<open>C6. A request in the wire format of RFC 1928 that reaches the buffered client reader, in
  whatever segments, is parsed back into the fields it was built from; exactly its own bytes
  are consumed and nothing is written.\<close>

theorem ReadRequest_roundtrip:
  assumes "wf_addr atyp raw" and "cmd = CmdConnect \<or> cmd = CmdUDPAssociate"
    and "st_data (bufio_stream b) = request_bytes cmd atyp raw port @ rest"
  shows "\<exists>b'. run_state (ReadRequest bufio_io) b =
      ((Inr \<lparr>rq_Cmd = cmd, rq_Atyp = atyp, rq_RawAddr = raw, rq_Port = port,
             rq_DstLabel = addr_label atyp raw\<rparr>, 0), b') \<and>
      bufio_stream b' = (bufio_stream b)\<lparr>st_data := rest\<rparr>"
proof -
  obtain x b' where run: "run_state (ReadRequest bufio_io) b = (x, b')"
    by (cases "run_state (ReadRequest bufio_io) b")
  from st_simD [OF buf.ReadRequest_sim run] ReadRequest_parse [OF assms] run show ?thesis
    by auto
qed

theorem ReadRequest_roundtrip_witness:
  "\<exists>b'. run_state (ReadRequest bufio_io)
      \<lparr>b_buf = [5], b_rd = \<lparr>c_in = [[1, 0, 3, 2], [104], [105, 1, 187, 9]], c_end = EOF, c_out = [],
        c_wres = []\<rparr>\<rparr> =
      ((Inr \<lparr>rq_Cmd = CmdConnect, rq_Atyp = AtypDomain, rq_RawAddr = [2, 104, 105], rq_Port = 443,
             rq_DstLabel = addr_label AtypDomain [2, 104, 105]\<rparr>, 0), b') \<and>
      bufio_stream b' = \<lparr>st_data = [9], st_end = EOF, st_out = [], st_wres = []\<rparr>"
  using ReadRequest_roundtrip [of AtypDomain "[2, 104, 105]" CmdConnect
    "\<lparr>b_buf = [5], b_rd = \<lparr>c_in = [[1, 0, 3, 2], [104], [105, 1, 187, 9]], c_end = EOF, c_out = [],
        c_wres = []\<rparr>\<rparr>" 443 "[9]"]
  by (simp add: wf_addr_def proto_consts request_bytes_def bufio_stream_def put_u16_def)

lemma readBind_quiet: "quiet (readBind stream_io atyp out)"
  unfolding readBind_def readBindPort_def by (intro quiet_rules)

lemma clientRequest_out:
  assumes "run_state (clientRequest stream_io cmd atyp raw port) u = (r, u')" and "st_wres u = []"
  shows "st_out u' = st_out u @ request_bytes cmd atyp raw port"
  using assms quiet_rd [of 4]
  by (auto simp: clientRequest_def request_bytes_def split: prod.splits sum.splits if_splits
      dest!: quietD [OF readBind_quiet] quietD)

text \<open>A CONNECT request is relayed to the upstream byte for byte: whatever the client sends, if
  \<open>ReadRequest\<close> accepts it as a CONNECT, then \<open>ClientConnect\<close> called with the parsed fields
  writes to the upstream exactly the bytes that \<open>ReadRequest\<close> consumed from the client.\<close>

theorem connect_forwarded_verbatim:
  assumes "run_state (ReadRequest bufio_io) b = ((Inr req, code), b')"
    and "rq_Cmd req = CmdConnect"
    and "run_state (ClientConnect conn_io (rq_Atyp req) (rq_RawAddr req) (rq_Port req)) u = (r, u')"
    and "c_wres u = []"
  shows "\<exists>bs. st_data (bufio_stream b) = bs @ st_data (bufio_stream b') \<and> c_out u' = c_out u @ bs"
proof -
  from ReadRequest_Inr [OF st_simD [OF buf.ReadRequest_sim assms(1)]] assms(2)
  have "st_data (bufio_stream b) =
      request_bytes CmdConnect (rq_Atyp req) (rq_RawAddr req) (rq_Port req) @ st_data (bufio_stream b')"
    by (simp add: reads_def)
  moreover from clientRequest_out [OF st_simD [OF tcp.clientRequest_sim assms(3) [unfolded ClientConnect_def]]]
    assms(4)
  have "c_out u' = c_out u @ request_bytes CmdConnect (rq_Atyp req) (rq_RawAddr req) (rq_Port req)"
    by (simp add: conn_stream_def)
  ultimately show ?thesis by blast
qed

definition ex_client :: bufio where
  "ex_client = \<lparr>b_buf = [], b_rd = \<lparr>c_in = [[5, 1, 0], [1, 10, 0, 0, 7, 0], [80]], c_end = EOF,
     c_out = [], c_wres = []\<rparr>\<rparr>"

definition ex_upstream :: conn where
  "ex_upstream = \<lparr>c_in = [[5, 0, 0, 1], [0, 0, 0, 0, 0, 0]], c_end = EOF, c_out = [], c_wres = []\<rparr>"

lemma ex_client_run:
  "run_state (ReadRequest bufio_io) ex_client =
    ((Inr \<lparr>rq_Cmd = CmdConnect, rq_Atyp = AtypIPv4, rq_RawAddr = [10, 0, 0, 7], rq_Port = 80,
           rq_DstLabel = ''10.0.0.7''\<rparr>, 0),
     \<lparr>b_buf = [], b_rd = \<lparr>c_in = [[]], c_end = EOF, c_out = [], c_wres = []\<rparr>\<rparr>)"
  by code_simp

lemma ex_upstream_run:
  "run_state (ClientConnect conn_io AtypIPv4 [10, 0, 0, 7] 80) ex_upstream =
    ((\<lparr>rp_Rep = 0, rp_BindAtyp = 1, rp_BindIP = Some [0, 0, 0, 0], rp_BindHost = [], rp_BindPort = 0\<rparr>, None),
     \<lparr>c_in = [[]], c_end = EOF, c_out = [5, 1, 0, 1, 10, 0, 0, 7, 0, 80], c_wres = []\<rparr>)"
  by code_simp

theorem connect_forwarded_verbatim_witness:
  "\<exists>bs. st_data (bufio_stream ex_client) =
      bs @ st_data (bufio_stream (snd (run_state (ReadRequest bufio_io) ex_client))) \<and>
    c_out (snd (run_state (ClientConnect conn_io AtypIPv4 [10, 0, 0, 7] 80) ex_upstream)) = [] @ bs"
  using connect_forwarded_verbatim [OF ex_client_run, of ex_upstream _ _] ex_upstream_run ex_client_run
  by (simp add: ex_upstream_def)

section \<open>Error replies\<close>

lemma readDest_quiet: "quiet (readDest stream_io atyp)"
  unfolding readDest_def readPort_def by (intro quiet_rules)

lemma ReadRequest_reply_stream:
  assumes "run_state (ReadRequest stream_io) s = ((res, code), s')" and "st_wres s = []"
  shows "st_out s' = st_out s @ (if code = 0 then [] else ReplyBytes code) \<and>
    (code \<noteq> 0 \<longrightarrow> isl res \<and>
       code \<in> {RepGeneralFailure, RepCommandNotSupported, RepAddrTypeNotSupported})"
proof -
  have nz: "RepGeneralFailure \<noteq> 0" "RepCommandNotSupported \<noteq> 0" "RepAddrTypeNotSupported \<noteq> 0"
    by (simp_all add: proto_consts)
  from assms nz quiet_rd [of 4] show ?thesis
    by (auto simp: ReadRequest_def split: prod.splits sum.splits if_splits
        dest!: quietD [OF readDest_quiet] quietD)
qed

text \<open>C9. The reply code \<open>ReadRequest\<close> returns tells its caller what has already been sent: with a
  writable connection the client has received exactly \<open>ReplyBytes code\<close> when the code is
  non-zero and nothing otherwise; a non-zero code occurs only together with an error, and it
  is one of the three codes for a bad reserved byte, an unsupported command and a bad address.\<close>

theorem ReadRequest_reply:
  assumes "run_state (ReadRequest bufio_io) b = ((res, code), b')" and "c_wres (b_rd b) = []"
  shows "c_out (b_rd b') = c_out (b_rd b) @ (if code = 0 then [] else ReplyBytes code) \<and>
    (code \<noteq> 0 \<longrightarrow> isl res \<and>
       code \<in> {RepGeneralFailure, RepCommandNotSupported, RepAddrTypeNotSupported})"
  using ReadRequest_reply_stream [OF st_simD [OF buf.ReadRequest_sim assms(1)]] assms(2)
  by (simp add: bufio_stream_def)

definition ex_bad_client :: bufio where
  "ex_bad_client = \<lparr>b_buf = [], b_rd = \<lparr>c_in = [[5, 2, 0], [1]], c_end = EOF, c_out = [5, 0], c_wres = []\<rparr>\<rparr>"

theorem ReadRequest_reply_witness:
  "c_out (b_rd (snd (run_state (ReadRequest bufio_io) ex_bad_client))) =
     [5, 0] @ ReplyBytes RepCommandNotSupported"
proof -
  have run: "run_state (ReadRequest bufio_io) ex_bad_client =
      ((Inl (Errorf ''unsupported cmd 0x%02x'' [FInt 2]), RepCommandNotSupported),
       snd (run_state (ReadRequest bufio_io) ex_bad_client))"
    by code_simp
  from ReadRequest_reply [OF run] show ?thesis
    by (simp add: ex_bad_client_def proto_consts)
qed

section \<open>The greeting\<close>

definition greeting_complete :: "byte list \<Rightarrow> bool" where
  "greeting_complete d \<longleftrightarrow>
     2 \<le> length d \<and> d ! 0 = Version \<and> d ! 1 \<noteq> 0 \<and> 2 + unat (d ! 1) \<le> length d"

definition greeting_methods :: "byte list \<Rightarrow> byte list" where
  "greeting_methods d = take (unat (d ! 1)) (drop 2 d)"

lemma ReadGreeting_stream:
  assumes "run_state (ReadGreeting stream_io) s = (r, s')" and "st_wres s = []"
  shows "(if greeting_complete (st_data s)
      then if AuthNone \<in> set (greeting_methods (st_data s))
        then r = None \<and> st_out s' = st_out s @ [Version, AuthNone] \<and>
          st_data s' = drop (2 + unat (st_data s ! 1)) (st_data s)
        else r \<noteq> None \<and> st_out s' = st_out s @ [Version, AuthNoAccept]
      else r \<noteq> None \<and> st_out s' = st_out s)"
  using assms
  by (auto simp: ReadGreeting_def stream_ReadFull_def greeting_complete_def greeting_methods_def
      list_ex_iff add.commute split: if_splits sum.splits)


definition ex_greeter :: bufio where
  "ex_greeter = \<lparr>b_buf = [], b_rd = \<lparr>c_in = [[5], [2, 2], [0, 5]], c_end = EOF, c_out = [], c_wres = []\<rparr>\<rparr>"


section \<open>The handshake with an upstream\<close>

definition have_creds :: "string \<Rightarrow> string \<Rightarrow> bool" where
  "have_creds user pass \<longleftrightarrow> user \<noteq> [] \<or> pass \<noteq> []"

definition client_greeting :: "string \<Rightarrow> string \<Rightarrow> byte list" where
  "client_greeting user pass =
     (if have_creds user pass then [Version, 2, AuthNone, AuthUserPass] else [Version, 1, AuthNone])"

definition auth_message :: "string \<Rightarrow> string \<Rightarrow> byte list" where
  "auth_message user pass =
     [1, of_nat (length user)] @ bytes_of user @ [of_nat (length pass)] @ bytes_of pass"

definition asks_creds :: "byte list \<Rightarrow> string \<Rightarrow> string \<Rightarrow> bool" where
  "asks_creds d user pass \<longleftrightarrow> 2 \<le> length d \<and> d ! 0 = Version \<and> d ! 1 = AuthUserPass \<and>
     have_creds user pass \<and> length user \<le> 255 \<and> length pass \<le> 255"

lemma ClientHandshake_stream:
  assumes "run_state (ClientHandshake stream_io user pass) s = (r, s')" and "st_wres s = []"
  shows "st_out s' = st_out s @ client_greeting user pass @
      (if asks_creds (st_data s) user pass then auth_message user pass else [])"
    and "r = None \<longleftrightarrow> (2 \<le> length (st_data s) \<and> st_data s ! 0 = Version \<and> st_data s ! 1 = AuthNone) \<or>
      (asks_creds (st_data s) user pass \<and> 4 \<le> length (st_data s) \<and> st_data s ! 2 = 1 \<and> st_data s ! 3 = 0)"
  using assms
  by (auto simp: ClientHandshake_def userPassAuth_def stream_ReadFull_def client_greeting_def
      have_creds_def auth_message_def asks_creds_def Let_def proto_consts numeral_eq_Suc
      split: if_splits sum.splits)


definition ex_auth_upstream :: conn where
  "ex_auth_upstream = \<lparr>c_in = [[5, 2], [1, 0]], c_end = EOF, c_out = [], c_wres = []\<rparr>"


section \<open>Replies\<close>

lemma readBindPort_parse:
  assumes "st_data s = put_u16 port @ rest"
  shows "run_state (readBindPort stream_io out) s =
    ((out\<lparr>rp_BindPort := port\<rparr>, None), s\<lparr>st_data := rest\<rparr>)"
  using stream_ReadFull_append [OF assms] by (simp add: readBindPort_def)

lemma readBind_parse:
  assumes "st_data s = a @ put_u16 port @ rest"
    and "(atyp = AtypIPv4 \<and> length a = 4) \<or> (atyp = AtypIPv6 \<and> length a = 16)"
  shows "run_state (readBind stream_io atyp out) s =
    ((out\<lparr>rp_BindIP := Some a, rp_BindPort := port\<rparr>, None), s\<lparr>st_data := rest\<rparr>)"
  using assms stream_ReadFull_append [OF assms(1)]
  by (auto simp: readBind_def readBindPort_parse proto_consts)

text \<open>The address a reply carries: the one it was built from in its short form, or 0.0.0.0:0.\<close>

definition bound_addr :: "ip option \<Rightarrow> uint16 \<Rightarrow> byte \<times> ip \<times> uint16" where
  "bound_addr bindIP port =
     (case bindIP of
        None \<Rightarrow> (AtypIPv4, [0, 0, 0, 0], 0)
      | Some a \<Rightarrow> (case To4 a of
          Some v4 \<Rightarrow> (AtypIPv4, v4, port)
        | None \<Rightarrow> if length a = 16 then (AtypIPv6, a, port) else (AtypIPv4, [0, 0, 0, 0], 0)))"

lemma BuildReply_bound:
  assumes "bound_addr bindIP port = (t, a, p)"
  shows "BuildReply rep bindIP port = [Version, rep, 0, t] @ a @ put_u16 p"
    and "(t = AtypIPv4 \<and> length a = 4) \<or> (t = AtypIPv6 \<and> length a = 16)"
  using assms
  by (auto simp: bound_addr_def BuildReply_def ReplyBytes_def To4_def To16_def put_u16_def
      split: option.splits if_splits)

text \<open>C15. A reply built by \<open>BuildReply\<close> for any bind address is understood by \<open>clientRequest\<close> at the
  other end, however it is segmented: same reply code, same port, the same address (an
  IPv4-mapped address in its four-byte form), and nothing beyond the reply is consumed.\<close>

theorem reply_roundtrip:
  assumes "c_wres u = []"
    and "concat (c_in u) = BuildReply rep bindIP bindPort @ rest"
    and "bound_addr bindIP bindPort = (t, a, p)"
  shows "\<exists>u'. run_state (clientRequest conn_io cmd atyp raw port) u =
      ((\<lparr>rp_Rep = rep, rp_BindAtyp = t, rp_BindIP = Some a, rp_BindHost = [], rp_BindPort = p\<rparr>, None), u') \<and>
      concat (c_in u') = rest"
proof -
  obtain x u' where run: "run_state (clientRequest conn_io cmd atyp raw port) u = (x, u')"
    by (cases "run_state (clientRequest conn_io cmd atyp raw port) u")
  define s where "s = (conn_stream u)\<lparr>st_out := c_out u @ Version # cmd # 0 # atyp # raw @ put_u16 port,
      st_wres := []\<rparr>"
  have data: "st_data s = [Version, rep, 0, t] @ a @ put_u16 p @ rest"
    using assms BuildReply_bound(1) [OF assms(3)] by (simp add: s_def)
  have hdr: "stream_ReadFull 4 s = (Inr [Version, rep, 0, t], s\<lparr>st_data := a @ put_u16 p @ rest\<rparr>)"
    using stream_ReadFull_append [OF data, of 4] by simp
  have "run_state (clientRequest stream_io cmd atyp raw port) (conn_stream u) =
      ((\<lparr>rp_Rep = rep, rp_BindAtyp = t, rp_BindIP = Some a, rp_BindHost = [], rp_BindPort = p\<rparr>, None),
       s\<lparr>st_data := rest\<rparr>)"
    using assms(1) hdr
      readBind_parse [of "s\<lparr>st_data := a @ put_u16 p @ rest\<rparr>" a p rest t] BuildReply_bound(2) [OF assms(3)]
    by (simp add: clientRequest_def reply_zero_def s_def [symmetric])
  with st_simD [OF tcp.clientRequest_sim run] run show ?thesis
    by auto (metis conn_stream_sel(1) stream.select_convs(1) stream.surjective stream.update_convs(1))
qed

theorem reply_roundtrip_witness:
  "\<exists>u'. run_state (clientRequest conn_io CmdConnect AtypIPv4 [10, 0, 0, 7] 80)
      \<lparr>c_in = [[5, 4], [0, 1, 192, 168, 0], [1, 31, 144, 7]], c_end = EOF, c_out = [], c_wres = []\<rparr> =
      ((\<lparr>rp_Rep = RepHostUnreachable, rp_BindAtyp = AtypIPv4, rp_BindIP = Some [192, 168, 0, 1],
         rp_BindHost = [], rp_BindPort = 8080\<rparr>, None), u') \<and> concat (c_in u') = [7]"
  using reply_roundtrip [of "\<lparr>c_in = [[5, 4], [0, 1, 192, 168, 0], [1, 31, 144, 7]], c_end = EOF,
      c_out = [], c_wres = []\<rparr>" RepHostUnreachable "Some (v4_prefix @ [192, 168, 0, 1])" 8080 "[7]"
      AtypIPv4 "[192, 168, 0, 1]" 8080 CmdConnect AtypIPv4 "[10, 0, 0, 7]" 80]
  by (simp add: BuildReply_def To4_def v4_prefix_def bound_addr_def put_u16_def proto_consts)

end
