(* ===== verification/Socks5_UDP.thy ===== *)
theory Socks5_UDP
  imports Socks5
begin

text \<open>
  The SOCKS5 UDP header codec of \<^verbatim>\<open>internal/socks5/udp.go\<close>.  Decoding indexes and slices the
  packet, which panics in Go when it is out of range: the decoder returns an \<^typ>\<open>'a option\<close>
  with \<^const>\<open>None\<close> for a panic, and it is shown never to be reached.  The remaining lemmas
  characterise the accepted packets and relate decoder and encoder.
\<close>

section \<open>The codec\<close>

record UDPDatagram =
  ud_Frag :: byte
  ud_Atyp :: byte
  ud_DstHost :: string
  ud_DstIP :: "ip option"
  ud_DstPort :: uint16
  ud_Data :: "byte list"
  ud_HeaderLen :: nat

definition udp_port_data :: "byte list \<Rightarrow> UDPDatagram \<Rightarrow> nat \<Rightarrow> (gerror + UDPDatagram) option" where
  "udp_port_data pkt dg off = do {
     pb \<leftarrow> go_slice pkt off (off + 2);
     rest \<leftarrow> go_slice pkt (off + 2) (length pkt);
     Some (Inr (dg\<lparr>ud_DstPort := get_u16 pb, ud_HeaderLen := off + 2, ud_Data := rest\<rparr>))
   }"

definition DecodeUDPDatagram :: "byte list \<Rightarrow> (gerror + UDPDatagram) option" where
  "DecodeUDPDatagram pkt =
     (if length pkt < 10 then Some (Inl (errors_New ''udp datagram too short''))
      else do {
        r0 \<leftarrow> go_index pkt 0;
        r1 \<leftarrow> go_index pkt 1;
        if r0 \<noteq> 0x00 \<or> r1 \<noteq> 0x00 then Some (Inl (errors_New ''udp rsv nonzero''))
        else do {
          frag \<leftarrow> go_index pkt 2;
          atyp \<leftarrow> go_index pkt 3;
          let dg = \<lparr>ud_Frag = frag, ud_Atyp = atyp, ud_DstHost = [], ud_DstIP = None,
                    ud_DstPort = 0, ud_Data = [], ud_HeaderLen = 0\<rparr>;
          if frag \<noteq> 0
          then Some (Inl (Errorf ''udp fragmentation not supported (frag=%d)'' [FInt (uint frag)]))
          else if atyp = AtypIPv4 then
            (if length pkt < 4 + 4 + 2 then Some (Inl (errors_New ''udp ipv4 truncated''))
             else do {
               a \<leftarrow> go_slice pkt 4 8;
               udp_port_data pkt (dg\<lparr>ud_DstIP := Some a, ud_DstHost := ip_String a\<rparr>) 8
             })
          else if atyp = AtypIPv6 then
            (if length pkt < 4 + 16 + 2 then Some (Inl (errors_New ''udp ipv6 truncated''))
             else do {
               a \<leftarrow> go_slice pkt 4 20;
               udp_port_data pkt (dg\<lparr>ud_DstIP := Some a, ud_DstHost := ip_String a\<rparr>) 20
             })
          else if atyp = AtypDomain then
            (if length pkt < 4 + 1 then Some (Inl (errors_New ''udp domain length truncated''))
             else do {
               l \<leftarrow> go_index pkt 4;
               let dl = unat l;
               if dl = 0 then Some (Inl (errors_New ''udp empty domain''))
               else if length pkt < 5 + dl + 2 then Some (Inl (errors_New ''udp domain truncated''))
               else do {
                 d \<leftarrow> go_slice pkt 5 (5 + dl);
                 udp_port_data pkt (dg\<lparr>ud_DstHost := string_of d\<rparr>) (5 + dl)
               }
             })
          else Some (Inl (Errorf ''udp bad atyp 0x%02x'' [FInt (uint atyp)]))
        }
      })"

definition EncodeUDPDatagram ::
  "ip option \<Rightarrow> string \<Rightarrow> uint16 \<Rightarrow> byte list \<Rightarrow> gerror + byte list" where
  "EncodeUDPDatagram dstIP dstHost dstPort data =
     (let out = (\<lambda>atyp addrBytes. Inr ([0x00, 0x00, 0x00, atyp] @ addrBytes @ put_u16 dstPort @ data))
      in case dstIP of
        Some a \<Rightarrow>
          (case To4 a of
             Some v4 \<Rightarrow> out AtypIPv4 v4
           | None \<Rightarrow>
               (case To16 a of
                  Some v6 \<Rightarrow> out AtypIPv6 v6
                | None \<Rightarrow> Inl (errors_New ''udp encode: invalid destination IP'')))
      | None \<Rightarrow>
          (if dstHost \<noteq> [] then
             (if 255 < length dstHost then Inl (errors_New ''udp domain too long'')
              else out AtypDomain (of_nat (length dstHost) # bytes_of dstHost))
           else Inl (errors_New ''udp encode: no destination'')))"

section \<open>The datagram format\<close>

definition udp_bytes :: "byte \<Rightarrow> byte list \<Rightarrow> uint16 \<Rightarrow> byte list \<Rightarrow> byte list" where
  "udp_bytes atyp raw port data = [0, 0, 0, atyp] @ raw @ put_u16 port @ data"

definition udp_datagram :: "byte \<Rightarrow> byte list \<Rightarrow> uint16 \<Rightarrow> byte list \<Rightarrow> UDPDatagram" where
  "udp_datagram atyp raw port data =
     \<lparr>ud_Frag = 0, ud_Atyp = atyp, ud_DstHost = addr_label atyp raw,
      ud_DstIP = (if atyp = AtypDomain then None else Some raw), ud_DstPort = port, ud_Data = data,
      ud_HeaderLen = 4 + length raw + 2\<rparr>"

lemma atyp_distinct [simp]:
  "AtypIPv4 \<noteq> AtypDomain" "AtypIPv6 \<noteq> AtypDomain" "AtypIPv4 \<noteq> AtypIPv6"
  "AtypDomain \<noteq> AtypIPv4" "AtypDomain \<noteq> AtypIPv6" "AtypIPv6 \<noteq> AtypIPv4"
  by (simp_all add: proto_consts)

lemma udp_port_data_parse:
  assumes "pkt = pre @ put_u16 port @ data" and "length pre = off"
  shows "udp_port_data pkt dg off =
    Some (Inr (dg\<lparr>ud_DstPort := port, ud_HeaderLen := off + 2, ud_Data := data\<rparr>))"
  using assms by (simp add: udp_port_data_def go_slice_def)

lemma DecodeUDP_parse:
  assumes wf: "wf_addr atyp raw" and len: "10 \<le> length (udp_bytes atyp raw port data)"
  shows "DecodeUDPDatagram (udp_bytes atyp raw port data) = Some (Inr (udp_datagram atyp raw port data))"
proof -
  note defs = DecodeUDPDatagram_def udp_bytes_def udp_datagram_def go_index_def go_slice_def
    udp_port_data_parse [of _ "[0, 0, 0, atyp] @ raw" port data] addr_label_def
  consider "atyp = AtypIPv4" "length raw = 4" | "atyp = AtypIPv6" "length raw = 16"
    | d where "atyp = AtypDomain" "raw = hd raw # d" "hd raw \<noteq> 0" "length d = unat (hd raw)"
    using wf by (cases raw) (auto simp: wf_addr_def)
  then show ?thesis
  proof cases
    case (3 d)
    then obtain l where "raw = l # d" "l \<noteq> 0" "length d = unat l" by metis
    with 3(1) len show ?thesis by (simp add: defs unat_eq_zero)
  qed (use len in \<open>simp_all add: defs\<close>)
qed

lemma udp_port_data_Inr:
  assumes "udp_port_data pkt dg off = Some (Inr dg')"
  obtains port data where "pkt = take off pkt @ put_u16 port @ data"
    and "dg' = dg\<lparr>ud_DstPort := port, ud_HeaderLen := off + 2, ud_Data := data\<rparr>"
proof
  from assms have len: "off + 2 \<le> length pkt"
    by (auto simp: udp_port_data_def go_slice_def split: if_splits)
  have "put_u16 (get_u16 (take 2 (drop off pkt))) = take 2 (drop off pkt)"
    using len by (intro put_get_u16) simp
  moreover have "pkt = take off pkt @ take 2 (drop off pkt) @ drop (off + 2) pkt"
    by (metis append_take_drop_id drop_drop add.commute)
  ultimately show "pkt = take off pkt @ put_u16 (get_u16 (take 2 (drop off pkt))) @ drop (off + 2) pkt"
    by simp
  from assms show "dg' = dg\<lparr>ud_DstPort := get_u16 (take 2 (drop off pkt)), ud_HeaderLen := off + 2,
      ud_Data := drop (off + 2) pkt\<rparr>"
    by (auto simp: udp_port_data_def go_slice_def split: if_splits)
qed

lemma take4_header:
  assumes "10 \<le> length pkt" "pkt ! 0 = 0" "pkt ! 1 = 0" "pkt ! 2 = 0" "pkt ! 3 = atyp"
  shows "take (4 + n) pkt = [0, 0, 0, atyp] @ take n (drop 4 pkt)"
proof -
  have "take 4 pkt = [pkt ! 0, pkt ! 1, pkt ! 2, pkt ! 3]"
    using assms(1) by (intro nth_equalityI) (auto simp: less_Suc_eq numeral_eq_Suc)
  with assms show ?thesis by (simp add: take_add)
qed

lemma domain_raw:
  assumes "n < length xs"
  shows "take (Suc m) (drop n xs) = xs ! n # take m (drop (Suc n) xs)"
  using assms by (simp add: Cons_nth_drop_Suc [symmetric])

lemma DecodeUDP_Inr:
  assumes "DecodeUDPDatagram pkt = Some (Inr dg)"
  shows "10 \<le> length pkt \<and> (\<exists>atyp raw port data. wf_addr atyp raw \<and>
    pkt = udp_bytes atyp raw port data \<and> dg = udp_datagram atyp raw port data)"
proof -
  from assms have hdr: "10 \<le> length pkt" "pkt ! 0 = 0" "pkt ! 1 = 0" "pkt ! 2 = 0"
    by (auto simp: DecodeUDPDatagram_def go_index_def Let_def split: if_splits)
  define dg0 where "dg0 = \<lparr>ud_Frag = 0, ud_Atyp = pkt ! 3, ud_DstHost = [], ud_DstIP = None,
      ud_DstPort = 0, ud_Data = [], ud_HeaderLen = 0\<rparr>"
  let ?a = "\<lambda>n. take n (drop 4 pkt)"
  from assms hdr consider
      (fixed) n where "pkt ! 3 = AtypIPv4 \<and> n = 4 \<or> pkt ! 3 = AtypIPv6 \<and> n = 16" "4 + n \<le> length pkt"
        "udp_port_data pkt (dg0\<lparr>ud_DstIP := Some (?a n), ud_DstHost := ip_String (?a n)\<rparr>) (4 + n) = Some (Inr dg)"
    | (dom) "pkt ! 3 = AtypDomain" "unat (pkt ! 4) \<noteq> 0" "5 + unat (pkt ! 4) \<le> length pkt"
        "udp_port_data pkt (dg0\<lparr>ud_DstHost := string_of (take (unat (pkt ! 4)) (drop 5 pkt))\<rparr>)
           (5 + unat (pkt ! 4)) = Some (Inr dg)"
    by (auto simp: DecodeUDPDatagram_def go_index_def go_slice_def Let_def dg0_def split: if_splits)
  then show ?thesis
  proof cases
    case (fixed n)
    from udp_port_data_Inr [OF fixed(3)] obtain port data where
      pkt: "pkt = [0, 0, 0, pkt ! 3] @ ?a n @ put_u16 port @ data"
      and dg: "dg = dg0\<lparr>ud_DstIP := Some (?a n), ud_DstHost := ip_String (?a n), ud_DstPort := port,
        ud_HeaderLen := 4 + n + 2, ud_Data := data\<rparr>"
      unfolding take4_header [OF hdr refl, of n] by auto
    have "wf_addr (pkt ! 3) (?a n)" "dg = udp_datagram (pkt ! 3) (?a n) port data"
      using fixed(1,2) dg by (auto simp: wf_addr_def udp_datagram_def addr_label_def dg0_def)
    with pkt hdr(1) show ?thesis unfolding udp_bytes_def by blast
  next
    case dom
    let ?l = "unat (pkt ! 4)"
    have raw: "?a (Suc ?l) = pkt ! 4 # take ?l (drop 5 pkt)"
      using domain_raw [of 4 pkt ?l] hdr(1) by simp
    have off: "5 + ?l = 4 + Suc ?l" by simp
    from udp_port_data_Inr [OF dom(4)] obtain port data where
      pkt: "pkt = [0, 0, 0, pkt ! 3] @ ?a (Suc ?l) @ put_u16 port @ data"
      and dg: "dg = dg0\<lparr>ud_DstHost := string_of (take ?l (drop 5 pkt)), ud_DstPort := port,
        ud_HeaderLen := 5 + ?l + 2, ud_Data := data\<rparr>"
      unfolding off take4_header [OF hdr refl, of "Suc ?l"] by auto
    have "wf_addr (pkt ! 3) (?a (Suc ?l))" "dg = udp_datagram (pkt ! 3) (?a (Suc ?l)) port data"
      using dom(1-3) dg unfolding raw
      by (auto simp: wf_addr_def udp_datagram_def addr_label_def dg0_def)
    with pkt hdr(1) show ?thesis unfolding udp_bytes_def by blast
  qed
qed

lemma Decode_total: "DecodeUDPDatagram pkt \<noteq> None"
  by (auto simp: DecodeUDPDatagram_def go_index_def go_slice_def udp_port_data_def Let_def)

text \<open>C18. Decoding a datagram never indexes out of range, and it succeeds exactly on the packets of at
  least ten bytes that consist of a zero reserved field, a zero fragment byte, a complete
  address, a port and the payload; the decoded fields are the ones the packet spells out.\<close>

theorem DecodeUDPDatagram_exact:
  "DecodeUDPDatagram pkt \<noteq> None \<and>
   (DecodeUDPDatagram pkt = Some (Inr dg) \<longleftrightarrow>
     10 \<le> length pkt \<and> (\<exists>atyp raw port data. wf_addr atyp raw \<and>
       pkt = udp_bytes atyp raw port data \<and> dg = udp_datagram atyp raw port data))"
  using Decode_total DecodeUDP_Inr [of pkt dg] by (intro conjI iffI) (auto simp: DecodeUDP_parse)

section \<open>Encoding and decoding\<close>

definition udp_target :: "ip option \<Rightarrow> string \<Rightarrow> byte \<times> byte list" where
  "udp_target dstIP dstHost =
     (case dstIP of
        Some a \<Rightarrow> (case To4 a of Some v4 \<Rightarrow> (AtypIPv4, v4) | None \<Rightarrow> (AtypIPv6, a))
      | None \<Rightarrow> (AtypDomain, of_nat (length dstHost) # bytes_of dstHost))"

lemma unat_of_nat_byte: "n \<le> 255 \<Longrightarrow> unat (of_nat n :: byte) = n"
  by (simp add: unat_of_nat take_bit_nat_eq_self)

lemma byte_length_nz: "0 < n \<Longrightarrow> n \<le> 255 \<Longrightarrow> (of_nat n :: byte) \<noteq> 0"
  using unat_of_nat_byte [of n] by auto

lemma Encode_Inr:
  assumes "EncodeUDPDatagram dstIP dstHost port data = Inr pkt"
    and "udp_target dstIP dstHost = (atyp, raw)"
  shows "wf_addr atyp raw" and "pkt = udp_bytes atyp raw port data"
  using assms byte_length_nz [of "length dstHost"]
  by (auto simp: EncodeUDPDatagram_def udp_target_def udp_bytes_def wf_addr_def To4_def To16_def
      unat_of_nat_byte Let_def split: option.splits if_splits)

text \<open>C20. What \<open>EncodeUDPDatagram\<close> produces is decoded again into the same destination, port and
  payload, provided the packet has the ten bytes the decoder insists on.  That minimum is the
  size of an empty IPv4 datagram; a datagram for a very short domain name can be smaller, and
  then the decoder rejects what the encoder built.\<close>

theorem udp_roundtrip:
  assumes "EncodeUDPDatagram dstIP dstHost port data = Inr pkt"
    and "udp_target dstIP dstHost = (atyp, raw)"
  shows "DecodeUDPDatagram pkt =
    Some (if 10 \<le> length pkt then Inr (udp_datagram atyp raw port data)
          else Inl (errors_New ''udp datagram too short''))"
  using DecodeUDP_parse [OF Encode_Inr(1) [OF assms], of port data] Encode_Inr(2) [OF assms]
  by (auto simp: DecodeUDPDatagram_def)

theorem udp_roundtrip_witness:
  "DecodeUDPDatagram [0, 0, 0, 3, 1, 120, 0, 53, 7] = Some (Inl (errors_New ''udp datagram too short'')) \<and>
   DecodeUDPDatagram [0, 0, 0, 1, 10, 0, 0, 1, 0, 53, 7] =
     Some (Inr (udp_datagram AtypIPv4 [10, 0, 0, 1] 53 [7]))"
proof -
  have "EncodeUDPDatagram None ''x'' 53 [7] = Inr [0, 0, 0, 3, 1, 120, 0, 53, 7]"
    "udp_target None ''x'' = (AtypDomain, [1, 120])"
    "EncodeUDPDatagram (Some [10, 0, 0, 1]) [] 53 [7] = Inr [0, 0, 0, 1, 10, 0, 0, 1, 0, 53, 7]"
    "udp_target (Some [10, 0, 0, 1]) [] = (AtypIPv4, [10, 0, 0, 1])"
    by code_simp+
  from udp_roundtrip [OF this(1,2)] udp_roundtrip [OF this(3,4)] show ?thesis by simp
qed

end
