(* ===== verification/Pipe.thy ===== *)
theory Pipe
  imports Socks5
begin

text \<open>
  The bidirectional byte pump of \<^verbatim>\<open>internal/socks5/pipe.go\<close>: \<open>copyDir\<close>, one direction, and
  \<open>Pipe\<close>, which runs both directions as goroutines and half-closes the peer of the one that
  ends first.

  \<open>copy_iter\<close> is one round of the copy loop.  \<open>copyDir\<close> iterates it; a loop that never
  ended would be \<^const>\<open>None\<close>, and on connections it is shown to return.  \<open>pipe_step\<close>
  interleaves the rounds of the two directions with the \<^verbatim>\<open>select\<close> of the main goroutine.  The
  read deadline set before each round is the environment's: a connection whose peer stays
  silent ends with \<^const>\<open>ErrTimeout\<close>.
\<close>

section \<open>One direction\<close>

function writeAll ::
  "'d net_io \<Rightarrow> byte list \<Rightarrow> nat \<Rightarrow> 'd \<Rightarrow> nat \<times> io_error option \<times> 'd" where
  "writeAll dio bs tot d =
     (if bs = [] then (tot, None, d)
      else case io_Write dio bs d of
        (nw, Some werr, d') \<Rightarrow> (tot + nw, Some werr, d')
      | (nw, None, d') \<Rightarrow>
          (if nw = 0 then (tot + nw, Some ErrShortWrite, d')
           else writeAll dio (drop nw bs) (tot + nw) d'))"
  by pat_completeness auto
termination by (relation "measure (\<lambda>(dio, bs, tot, d). length bs)") auto

declare writeAll.simps [simp del]

text \<open>\<^verbatim>\<open>io.Copy\<close> writes each chunk once and reports an incomplete write.\<close>

definition copy_chunk ::
  "'d net_io \<Rightarrow> byte list \<Rightarrow> nat \<Rightarrow> 'd \<Rightarrow> nat \<times> io_error option \<times> 'd" where
  "copy_chunk dio bs tot d =
     (if bs = [] then (tot, None, d)
      else case io_Write dio bs d of
        (nw, Some ew, d') \<Rightarrow> (tot + nw, Some ew, d')
      | (nw, None, d') \<Rightarrow>
          (tot + nw, if nw \<noteq> length bs then Some ErrShortWrite else None, d'))"

definition copy_buf_size :: nat where
  "copy_buf_size = 32 * 1024"

text \<open>
  The last component is \<^const>\<open>None\<close> when the loop goes on and \<open>Some r\<close> when it returns with
  error value \<open>r\<close>.
\<close>

definition copy_iter ::
  "int \<Rightarrow> 's net_io \<Rightarrow> 'd net_io \<Rightarrow> nat \<Rightarrow> 's \<Rightarrow> 'd \<Rightarrow> nat \<times> 's \<times> 'd \<times> io_error option option" where
  "copy_iter idle sio dio tot s d =
     (case io_Read sio copy_buf_size s of
        (bs, rerr, s') \<Rightarrow>
          (case (if idle \<le> 0 then copy_chunk else writeAll) dio bs tot d of
             (tot', Some werr, d') \<Rightarrow> (tot', s', d', Some (Some werr))
           | (tot', None, d') \<Rightarrow>
               (case rerr of
                  None \<Rightarrow> (tot', s', d', None)
                | Some e \<Rightarrow> (tot', s', d', Some (if e = EOF then None else Some e)))))"

partial_function (option) copy_loop ::
  "int \<Rightarrow> 's net_io \<Rightarrow> 'd net_io \<Rightarrow> nat \<Rightarrow> 's \<Rightarrow> 'd \<Rightarrow> (nat \<times> io_error option \<times> 's \<times> 'd) option" where
  "copy_loop idle sio dio tot s d =
     (case copy_iter idle sio dio tot s d of
        (tot', s', d', r) \<Rightarrow>
          (case r of
             Some err \<Rightarrow> Some (tot', err, s', d')
           | None \<Rightarrow> copy_loop idle sio dio tot' s' d'))"

declare copy_loop.simps [code]

definition copyDir ::
  "'d net_io \<Rightarrow> 's net_io \<Rightarrow> int \<Rightarrow> 'd \<Rightarrow> 's \<Rightarrow> (nat \<times> io_error option \<times> 's \<times> 'd) option" where
  "copyDir dio sio idle d s = copy_loop idle sio dio 0 s d"

section \<open>A round of copying between two implementations of the byte stream\<close>

lemma write_result_prefix:
  assumes "write_result ws bs = (w, e, ws')"
  shows "\<exists>j \<le> length bs. w = take j bs" and "e = None \<Longrightarrow> w = bs" and "ws = [] \<Longrightarrow> e = None \<and> ws' = []"
proof -
  have "\<exists>j \<le> length bs. take k bs = take j bs" for k
    by (rule exI [of _ "min k (length bs)"]) (simp add: min_def)
  with assms show "\<exists>j \<le> length bs. w = take j bs"
    by (cases "(ws, bs)" rule: write_result.cases) auto
  from assms show "e = None \<Longrightarrow> w = bs" and "ws = [] \<Longrightarrow> e = None \<and> ws' = []"
    by (cases "(ws, bs)" rule: write_result.cases; auto)+
qed

locale stream_copy =
  src: stream_impl sio sview + dst: stream_impl dio dview
  for sio :: "'s net_io" and sview :: "'s \<Rightarrow> stream"
    and dio :: "'d net_io" and dview :: "'d \<Rightarrow> stream"
begin

lemma write_view:
  assumes "io_Write dio bs d = (n, e, d')"
    and "write_result (st_wres (dview d)) bs = (w, e0, ws)"
  shows "n = length w \<and> e = e0 \<and> dview d' = (dview d)\<lparr>st_out := st_out (dview d) @ w, st_wres := ws\<rparr>"
  using dst.write_ok [OF assms(1)] assms(2) by (simp add: stream_Write_def)

lemma write_chunk:
  assumes "bs \<noteq> []" and "write_result (st_wres (dview d)) bs = (w, e, ws)"
    and "f = copy_chunk \<or> f = writeAll"
  shows "\<exists>d'. f dio bs tot d = (tot + length w, e, d') \<and>
    dview d' = (dview d)\<lparr>st_out := st_out (dview d) @ w, st_wres := ws\<rparr>"
proof -
  obtain n e' d' where io: "io_Write dio bs d = (n, e', d')" by (cases "io_Write dio bs d")
  note v = write_view [OF io assms(2)]
  show ?thesis
  proof (cases e)
    case None
    with write_result_prefix(2) [OF assms(2)] have "w = bs" by simp
    with None v io assms(1,3) show ?thesis
      by (auto simp: copy_chunk_def writeAll.simps [of dio bs] writeAll.simps [of dio "[]"])
  next
    case (Some x)
    with v io assms(1,3) show ?thesis
      by (auto simp: copy_chunk_def writeAll.simps [of dio bs])
  qed
qed

lemma iter_end:
  assumes "st_data (sview s) = []"
  shows "\<exists>s'. copy_iter idle sio dio tot s d =
      (tot, s', d, Some (if st_end (sview s) = EOF then None else Some (st_end (sview s)))) \<and>
    sview s' = sview s"
proof -
  have "0 < copy_buf_size" by (simp add: copy_buf_size_def)
  from src.read_end [OF this assms] show ?thesis
    by (auto simp: copy_iter_def copy_chunk_def writeAll.simps [of dio "[]"])
qed

lemma iter_data:
  assumes "st_data (sview s) \<noteq> []"
  shows "\<exists>k w e ws s' d'. 0 < k \<and> k \<le> length (st_data (sview s)) \<and>
    write_result (st_wres (dview d)) (take k (st_data (sview s))) = (w, e, ws) \<and>
    copy_iter idle sio dio tot s d = (tot + length w, s', d', map_option Some e) \<and>
    sview s' = (sview s)\<lparr>st_data := drop k (st_data (sview s))\<rparr> \<and>
    dview d' = (dview d)\<lparr>st_out := st_out (dview d) @ w, st_wres := ws\<rparr>"
proof -
  have "0 < copy_buf_size" by (simp add: copy_buf_size_def)
  from src.read_progress [OF this assms] obtain k s' where k: "0 < k" "k \<le> length (st_data (sview s))"
    and rd: "io_Read sio copy_buf_size s = (take k (st_data (sview s)), None, s')"
    and s': "sview s' = (sview s)\<lparr>st_data := drop k (st_data (sview s))\<rparr>" by auto
  obtain w e ws where wr: "write_result (st_wres (dview d)) (take k (st_data (sview s))) = (w, e, ws)"
    by (cases "write_result (st_wres (dview d)) (take k (st_data (sview s)))")
  let ?f = "if idle \<le> 0 then copy_chunk else writeAll"
  have "take k (st_data (sview s)) \<noteq> []" using k assms by simp
  from write_chunk [OF this wr, of ?f tot] obtain d' where
    "?f dio (take k (st_data (sview s))) tot d = (tot + length w, e, d')"
    "dview d' = (dview d)\<lparr>st_out := st_out (dview d) @ w, st_wres := ws\<rparr>" by (cases "idle \<le> 0") auto
  with rd have "copy_iter idle sio dio tot s d = (tot + length w, s', d', map_option Some e)"
    by (cases e) (auto simp: copy_iter_def)
  with k wr s' \<open>dview d' = _\<close> show ?thesis by blast
qed

end

interpretation tcp_copy: stream_copy conn_io conn_stream conn_io conn_stream
  by unfold_locales

section \<open>A direction of the pipe\<close>

text \<open>
  \<open>flow\<close> relates the source and destination of a direction to the data \<open>D\<close> (ending in \<open>E\<close>)
  that the source had at the start, and to what the destination had already received, \<open>B\<close>.
  \<open>ok\<close> says that writes do not fail and that the source is not closed underneath.
\<close>

definition flow ::
  "byte list \<Rightarrow> io_error \<Rightarrow> byte list \<Rightarrow> bool \<Rightarrow> nat \<Rightarrow> conn \<Rightarrow> conn \<Rightarrow> io_error option option \<Rightarrow> bool" where
  "flow D E B ok n src dst res \<longleftrightarrow>
     n \<le> length D \<and> c_out dst = B @ take n D \<and>
     (res = None \<longrightarrow> (concat (c_in src) = drop n D \<and> c_end src = E) \<or>
        (\<not> ok \<and> concat (c_in src) = [] \<and> c_end src = ErrClosed)) \<and>
     (res = Some None \<longrightarrow> n = length D \<and> E = EOF) \<and>
     (ok \<longrightarrow> c_wres dst = [] \<and>
        (\<forall>r. res = Some r \<longrightarrow> n = length D \<and> r = (if E = EOF then None else Some E)))"

lemma copy_iter_frame:
  assumes "copy_iter idle conn_io conn_io n src dst = (n', src', dst', res)"
  shows "c_out src' = c_out src" "c_wres src' = c_wres src" "c_end src' = c_end src"
    and "concat (c_in dst') = concat (c_in dst)" "c_end dst' = c_end dst"
    and "length (concat (c_in src')) + (if res = None then 1 else 0) \<le> length (concat (c_in src))"
proof -
  have "conn_stream src' = (conn_stream src)\<lparr>st_data := concat (c_in src')\<rparr> \<and>
    st_data (conn_stream dst') = st_data (conn_stream dst) \<and> st_end (conn_stream dst') = st_end (conn_stream dst) \<and>
    length (concat (c_in src')) + (if res = None then 1 else 0) \<le> length (concat (c_in src))"
  proof (cases "concat (c_in src) = []")
    case True
    then have d: "st_data (conn_stream src) = []" by simp
    from tcp_copy.iter_end [OF d, of idle n dst] obtain s' where
      it: "copy_iter idle conn_io conn_io n src dst =
        (n, s', dst, Some (if c_end src = EOF then None else Some (c_end src)))"
      and v: "conn_stream s' = conn_stream src" by auto
    from it assms have "src' = s'" "dst' = dst" "res \<noteq> None" by auto
    with v show ?thesis by (auto simp: conn_stream_def)
  next
    case False
    then have d: "st_data (conn_stream src) \<noteq> []" by (simp only: conn_stream_sel) simp
    from tcp_copy.iter_data [OF d, of dst idle n] assms show ?thesis
      by (auto simp: conn_stream_def)
  qed
  then show "c_out src' = c_out src" "c_wres src' = c_wres src" "c_end src' = c_end src"
    and "concat (c_in dst') = concat (c_in dst)" "c_end dst' = c_end dst"
    and "length (concat (c_in src')) + (if res = None then 1 else 0) \<le> length (concat (c_in src))"
    by (auto simp: conn_stream_def)
qed

lemma copy_iter_flow:
  assumes fl: "flow D E B ok n src dst None"
    and it: "copy_iter idle conn_io conn_io n src dst = (n', src', dst', res)"
  shows "flow D E B ok n' src' dst' res"
proof (cases "concat (c_in src) = []")
  case True
  then have "st_data (conn_stream src) = []" by simp
  from tcp_copy.iter_end [OF this, of idle n dst] it
  have "n' = n" "dst' = dst" "res = Some (if c_end src = EOF then None else Some (c_end src))" by auto
  with fl True show ?thesis by (auto simp: flow_def)
next
  case False
  then have d: "st_data (conn_stream src) \<noteq> []" by (simp only: conn_stream_sel) simp
  from fl False have rest: "concat (c_in src) = drop n D" "c_end src = E" by (auto simp: flow_def)
  from tcp_copy.iter_data [OF d, of dst idle n] it rest obtain k w e ws where
    k: "0 < k" "k \<le> length (drop n D)"
    and wr: "write_result (c_wres dst) (take k (drop n D)) = (w, e, ws)"
    and n': "n' = n + length w" and res: "res = map_option Some e"
    and s: "concat (c_in src') = drop k (drop n D)" "c_end src' = E"
    and o': "c_out dst' = c_out dst @ w" "c_wres dst' = ws"
    by (auto simp: conn_stream_def)
  from write_result_prefix(1) [OF wr] k obtain j where j: "w = take j (drop n D)" "j \<le> length (drop n D)"
    by (auto simp: min_def)
  have len: "n' \<le> length D" "c_out dst' = B @ take n' D"
    using fl j n' o' by (auto simp: flow_def take_add)
  show ?thesis
  proof (cases e)
    case None
    with write_result_prefix(2,3) [OF wr] have "w = take k (drop n D)" "c_wres dst = [] \<Longrightarrow> ws = []" by auto
    with None len s k n' res o' fl show ?thesis by (auto simp: flow_def add.commute)
  next
    case (Some x)
    with write_result_prefix(3) [OF wr] have "c_wres dst \<noteq> []" by auto
    with Some len res fl show ?thesis by (auto simp: flow_def)
  qed
qed

lemma copy_loop_flow:
  "flow D E B ok n src dst None \<Longrightarrow>
   \<exists>n' r src' dst'. copy_loop idle conn_io conn_io n src dst = Some (n', r, src', dst') \<and>
     flow D E B ok n' src' dst' (Some r)"
proof (induction "length (concat (c_in src))" arbitrary: n src dst rule: less_induct)
  case less
  obtain n1 src1 dst1 res where it: "copy_iter idle conn_io conn_io n src dst = (n1, src1, dst1, res)"
    by (metis prod_cases4)
  note fl = copy_iter_flow [OF less.prems it]
  show ?case
  proof (cases res)
    case (Some r)
    with it fl show ?thesis by (subst copy_loop.simps) simp
  next
    case None
    with copy_iter_frame(6) [OF it] have "length (concat (c_in src1)) < length (concat (c_in src))"
      by simp
    from less.hyps [OF this] fl None it show ?thesis by (subst copy_loop.simps) simp
  qed
qed

text \<open>\<open>copyDir\<close> always returns.  The destination has then received a prefix of what the source
  had to offer, of exactly the reported length; without write errors it is everything, and
  the error is nil exactly when the source ended with EOF.\<close>

theorem copyDir_delivers:
  "\<exists>n r src' dst'. copyDir conn_io conn_io idle dst src = Some (n, r, src', dst') \<and>
     n \<le> length (concat (c_in src)) \<and> c_out dst' = c_out dst @ take n (concat (c_in src)) \<and>
     (r = None \<longrightarrow> n = length (concat (c_in src)) \<and> c_end src = EOF) \<and>
     (c_wres dst = [] \<longrightarrow> n = length (concat (c_in src)) \<and>
        r = (if c_end src = EOF then None else Some (c_end src)))"
proof -
  have "flow (concat (c_in src)) (c_end src) (c_out dst) (c_wres dst = []) 0 src dst None"
    by (simp add: flow_def)
  from copy_loop_flow [OF this, of idle] show ?thesis
    by (auto simp: copyDir_def flow_def)
qed

theorem copyDir_delivers_witness:
  "\<exists>n r src' dst'. copyDir conn_io conn_io 30
       \<lparr>c_in = [], c_end = EOF, c_out = [9], c_wres = []\<rparr>
       \<lparr>c_in = [[1], [2, 3]], c_end = ErrTimeout, c_out = [], c_wres = []\<rparr> = Some (n, r, src', dst') \<and>
     n = 3 \<and> r = Some ErrTimeout \<and> c_out dst' = [9, 1, 2, 3]"
  using copyDir_delivers [of 30 "\<lparr>c_in = [], c_end = EOF, c_out = [9], c_wres = []\<rparr>"
      "\<lparr>c_in = [[1], [2, 3]], c_end = ErrTimeout, c_out = [], c_wres = []\<rparr>"]
  by fastforce

section \<open>Both directions\<close>

datatype pipe_main = Selecting | AwaitDown | AwaitUp | Returned

record pipe =
  pp_client :: conn
  pp_upstream :: conn
  pp_up :: nat
  pp_down :: nat
  pp_upCh :: "io_error option option"
  pp_downCh :: "io_error option option"
  pp_main :: pipe_main
  pp_closed_up :: bool
  pp_closed_down :: bool

definition pipe_start :: "conn \<Rightarrow> conn \<Rightarrow> pipe" where
  "pipe_start client upstream =
     \<lparr>pp_client = client, pp_upstream = upstream, pp_up = 0, pp_down = 0, pp_upCh = None, pp_downCh = None,
      pp_main = Selecting, pp_closed_up = False, pp_closed_down = False\<rparr>"

text \<open>\<open>Close\<close>, as the direction that still reads from the connection sees it.\<close>

definition conn_Close :: "conn \<Rightarrow> conn" where
  "conn_Close c = c\<lparr>c_in := [], c_end := ErrClosed\<rparr>"

text \<open>
  \<open>hc\<close> and \<open>hu\<close> tell whether client and upstream implement \<^verbatim>\<open>halfCloser\<close>.  \<open>pp_closed_up\<close>
  records that the write side of the upstream was closed, \<open>pp_closed_down\<close> the client's.
\<close>

inductive pipe_step :: "int \<Rightarrow> bool \<Rightarrow> bool \<Rightarrow> pipe \<Rightarrow> pipe \<Rightarrow> bool" for idle hc hu where
  copy_up:
    "\<lbrakk> pp_upCh p = None;
       copy_iter idle conn_io conn_io (pp_up p) (pp_client p) (pp_upstream p) = (n, c, u, r) \<rbrakk> \<Longrightarrow>
     pipe_step idle hc hu p (p\<lparr>pp_up := n, pp_client := c, pp_upstream := u, pp_upCh := r\<rparr>)"
| copy_down:
    "\<lbrakk> pp_downCh p = None;
       copy_iter idle conn_io conn_io (pp_down p) (pp_upstream p) (pp_client p) = (n, u, c, r) \<rbrakk> \<Longrightarrow>
     pipe_step idle hc hu p (p\<lparr>pp_down := n, pp_upstream := u, pp_client := c, pp_downCh := r\<rparr>)"
| select_up:
    "\<lbrakk> pp_main p = Selecting; pp_upCh p \<noteq> None \<rbrakk> \<Longrightarrow>
     pipe_step idle hc hu p
       (p\<lparr>pp_main := AwaitDown, pp_closed_up := True,
          pp_upstream := (if hu then pp_upstream p else conn_Close (pp_upstream p))\<rparr>)"
| select_down:
    "\<lbrakk> pp_main p = Selecting; pp_downCh p \<noteq> None \<rbrakk> \<Longrightarrow>
     pipe_step idle hc hu p
       (p\<lparr>pp_main := AwaitUp, pp_closed_down := True,
          pp_client := (if hc then pp_client p else conn_Close (pp_client p))\<rparr>)"
| await_down:
    "\<lbrakk> pp_main p = AwaitDown; pp_downCh p \<noteq> None \<rbrakk> \<Longrightarrow>
     pipe_step idle hc hu p (p\<lparr>pp_main := Returned\<rparr>)"
| await_up:
    "\<lbrakk> pp_main p = AwaitUp; pp_upCh p \<noteq> None \<rbrakk> \<Longrightarrow>
     pipe_step idle hc hu p (p\<lparr>pp_main := Returned\<rparr>)"

definition pipe_inv :: "bool \<Rightarrow> bool \<Rightarrow> conn \<Rightarrow> conn \<Rightarrow> pipe \<Rightarrow> bool" where
  "pipe_inv hc hu c0 u0 p \<longleftrightarrow>
     flow (concat (c_in c0)) (c_end c0) (c_out u0) (hc \<and> c_wres u0 = []) (pp_up p)
       (pp_client p) (pp_upstream p) (pp_upCh p) \<and>
     flow (concat (c_in u0)) (c_end u0) (c_out c0) (hu \<and> c_wres c0 = []) (pp_down p)
       (pp_upstream p) (pp_client p) (pp_downCh p) \<and>
     (pp_closed_up p \<longrightarrow> pp_upCh p \<noteq> None) \<and> (pp_closed_down p \<longrightarrow> pp_downCh p \<noteq> None) \<and>
     (pp_main p = AwaitDown \<longrightarrow> pp_upCh p \<noteq> None) \<and> (pp_main p = AwaitUp \<longrightarrow> pp_downCh p \<noteq> None) \<and>
     (pp_main p = Returned \<longrightarrow> pp_upCh p \<noteq> None \<and> pp_downCh p \<noteq> None)"

lemma flow_reverse:
  assumes "copy_iter idle conn_io conn_io n src dst = (n', src', dst', res)"
    and "flow D E B ok m dst src r"
  shows "flow D E B ok m dst' src' r"
  using assms(2) copy_iter_frame [OF assms(1)] by (simp add: flow_def)

lemma flow_close_src: "flow D E B False n src dst r \<Longrightarrow> flow D E B False n (conn_Close src) dst r"
  by (auto simp: flow_def conn_Close_def)

lemma flow_close_dst: "flow D E B ok n src dst r \<Longrightarrow> flow D E B ok n src (conn_Close dst) r"
  by (simp add: flow_def conn_Close_def)

lemma flow_prefix: "flow D E B ok n src dst r \<Longrightarrow> c_out dst = B @ take n D"
  by (simp add: flow_def)

lemma flow_complete:
  "flow D E B ok n src dst r \<Longrightarrow> ok \<Longrightarrow> r \<noteq> None \<Longrightarrow> c_out dst = B @ D \<and> n = length D"
  by (auto simp: flow_def)

lemma pipe_step_inv:
  assumes "pipe_step idle hc hu p p'" and "pipe_inv hc hu c0 u0 p"
  shows "pipe_inv hc hu c0 u0 p'"
  using assms
proof cases
  case (copy_up n c u r)
  with assms(2) show ?thesis
    using copy_iter_flow [OF _ copy_up(3)] flow_reverse [OF copy_up(3)]
    by (auto simp: pipe_inv_def)
next
  case (copy_down n u c r)
  with assms(2) show ?thesis
    using copy_iter_flow [OF _ copy_down(3)] flow_reverse [OF copy_down(3)]
    by (auto simp: pipe_inv_def)
next
  case select_up
  with assms(2) show ?thesis
    by (auto simp: pipe_inv_def intro: flow_close_src flow_close_dst)
next
  case select_down
  with assms(2) show ?thesis
    by (auto simp: pipe_inv_def intro: flow_close_src flow_close_dst)
qed (auto simp: pipe_inv_def)

lemma pipe_reach_inv:
  assumes "(pipe_step idle hc hu)\<^sup>*\<^sup>* (pipe_start c u) p"
  shows "pipe_inv hc hu c u p"
  using assms
proof induction
  case base
  show ?case by (simp add: pipe_inv_def pipe_start_def flow_def)
qed (rule pipe_step_inv)

lemma pipe_prefix:
  assumes "(pipe_step idle hc hu)\<^sup>*\<^sup>* (pipe_start c u) p"
  shows "c_out (pp_upstream p) = c_out u @ take (pp_up p) (concat (c_in c))"
    and "c_out (pp_client p) = c_out c @ take (pp_down p) (concat (c_in u))"
  using pipe_reach_inv [OF assms] flow_prefix unfolding pipe_inv_def by blast+

text \<open>C17. The pipe never mixes, reorders, duplicates or invents bytes: at every moment of every
  interleaving, what the upstream has received is a prefix of what the client sent, of the
  length counted for that direction, and the other way round.  When \<open>Pipe\<close> returns, both
  connections support half-close and no write failed, everything has been delivered in both
  directions, however they were interleaved.\<close>

theorem Pipe_delivers:
  assumes "(pipe_step idle hc hu)\<^sup>*\<^sup>* (pipe_start c u) p"
  shows "c_out (pp_upstream p) = c_out u @ take (pp_up p) (concat (c_in c)) \<and>
    c_out (pp_client p) = c_out c @ take (pp_down p) (concat (c_in u)) \<and>
    (pp_main p = Returned \<and> hc \<and> hu \<and> c_wres c = [] \<and> c_wres u = [] \<longrightarrow>
      c_out (pp_upstream p) = c_out u @ concat (c_in c) \<and> pp_up p = length (concat (c_in c)) \<and>
      c_out (pp_client p) = c_out c @ concat (c_in u) \<and> pp_down p = length (concat (c_in u)))"
proof -
  note inv = pipe_reach_inv [OF assms, unfolded pipe_inv_def]
  from inv have up: "flow (concat (c_in c)) (c_end c) (c_out u) (hc \<and> c_wres u = []) (pp_up p)
      (pp_client p) (pp_upstream p) (pp_upCh p)"
    and down: "flow (concat (c_in u)) (c_end u) (c_out c) (hu \<and> c_wres c = []) (pp_down p)
      (pp_upstream p) (pp_client p) (pp_downCh p)"
    and ret: "pp_main p = Returned \<Longrightarrow> pp_upCh p \<noteq> None" "pp_main p = Returned \<Longrightarrow> pp_downCh p \<noteq> None"
    by blast+
  from flow_complete [OF up] flow_complete [OF down] ret flow_prefix [OF up] flow_prefix [OF down]
  show ?thesis by blast
qed

definition ex_pipe :: pipe where
  "ex_pipe = pipe_start \<lparr>c_in = [[1], [2]], c_end = EOF, c_out = [], c_wres = []\<rparr>
     \<lparr>c_in = [], c_end = EOF, c_out = [], c_wres = []\<rparr>"

definition ex_pipe1 :: pipe where
  "ex_pipe1 = ex_pipe\<lparr>pp_up := 1, pp_client := \<lparr>c_in = [[], [2]], c_end = EOF, c_out = [], c_wres = []\<rparr>,
     pp_upstream := \<lparr>c_in = [], c_end = EOF, c_out = [1], c_wres = []\<rparr>, pp_upCh := None\<rparr>"

lemma ex_pipe_step: "(pipe_step 0 True True)\<^sup>*\<^sup>* ex_pipe ex_pipe1"
proof -
  have "copy_iter 0 conn_io conn_io (pp_up ex_pipe) (pp_client ex_pipe) (pp_upstream ex_pipe) =
      (1, \<lparr>c_in = [[], [2]], c_end = EOF, c_out = [], c_wres = []\<rparr>,
       \<lparr>c_in = [], c_end = EOF, c_out = [1], c_wres = []\<rparr>, None)" and "pp_upCh ex_pipe = None"
    by (simp_all add: ex_pipe_def pipe_start_def copy_iter_def copy_chunk_def copy_buf_size_def conn_io_def
        conn_Read_def conn_Write_def)
  from pipe_step.copy_up [OF this(2,1)] show ?thesis
    unfolding ex_pipe1_def by (rule r_into_rtranclp)
qed

theorem Pipe_delivers_witness:
  "c_out (pp_upstream ex_pipe1) = [] @ take (pp_up ex_pipe1) [1, 2]"
  using Pipe_delivers [OF ex_pipe_step [unfolded ex_pipe_def]] by simp

section \<open>The pipe returns\<close>

definition pipe_work :: "pipe \<Rightarrow> nat" where
  "pipe_work p = length (concat (c_in (pp_client p))) + length (concat (c_in (pp_upstream p))) +
     (if pp_upCh p = None then 1 else 0) + (if pp_downCh p = None then 1 else 0) +
     (case pp_main p of Selecting \<Rightarrow> 2 | AwaitDown \<Rightarrow> 1 | AwaitUp \<Rightarrow> 1 | Returned \<Rightarrow> 0)"

lemma pipe_step_work:
  assumes "pipe_step idle hc hu p p'"
  shows "pipe_work p' < pipe_work p"
  using assms
proof cases
  case (copy_up n c u r)
  with copy_iter_frame [OF copy_up(3)] show ?thesis
    by (cases r) (auto simp: pipe_work_def)
next
  case (copy_down n u c r)
  with copy_iter_frame [OF copy_down(3)] show ?thesis
    by (cases r) (auto simp: pipe_work_def)
qed (auto simp: pipe_work_def conn_Close_def)

lemma pipe_step_possible:
  assumes "pp_main p \<noteq> Returned"
  shows "\<exists>p'. pipe_step idle hc hu p p'"
proof (cases "pp_upCh p = None")
  case True
  obtain n c u r where "copy_iter idle conn_io conn_io (pp_up p) (pp_client p) (pp_upstream p) = (n, c, u, r)"
    by (rule prod_cases4)
  with True show ?thesis by (blast intro: pipe_step.copy_up)
next
  case up: False
  show ?thesis
  proof (cases "pp_downCh p = None")
    case True
    obtain n u c r where "copy_iter idle conn_io conn_io (pp_down p) (pp_upstream p) (pp_client p) = (n, u, c, r)"
      by (rule prod_cases4)
    with True show ?thesis by (blast intro: pipe_step.copy_down)
  next
    case False
    with up assms show ?thesis
      by (cases "pp_main p") (blast intro: pipe_step.intros)+
  qed
qed



end
