(* ===== verification/Hashes.thy ===== *)
theory Hashes
  imports S5_Prelude
begin

text \<open>
  The two hash functions of the Go standard library the program uses: SHA-1
  (\<^verbatim>\<open>crypto/sha1\<close>, FIPS 180-4), which derives upstream IDs, and 64-bit FNV-1a
  (\<^verbatim>\<open>hash/fnv\<close>), which ranks upstreams in the consistent-hash strategy.
\<close>

type_synonym uint32 = "32 word"

section \<open>SHA-1\<close>

definition be_word :: "byte list \<Rightarrow> uint32" where
  "be_word bs = foldl (\<lambda>acc b. push_bit 8 acc OR ucast b) 0 bs"

definition word_bytes :: "uint32 \<Rightarrow> byte list" where
  "word_bytes w = map (\<lambda>k. ucast (drop_bit k w)) [24, 16, 8, 0]"

definition be64_bytes :: "uint64 \<Rightarrow> byte list" where
  "be64_bytes w = map (\<lambda>k. ucast (drop_bit k w)) [56, 48, 40, 32, 24, 16, 8, 0]"

fun chunks :: "nat \<Rightarrow> 'a list \<Rightarrow> 'a list list" where
  "chunks n xs = (if n = 0 \<or> xs = [] then [] else take n xs # chunks n (drop n xs))"

declare chunks.simps [simp del]

definition sha1_pad :: "byte list \<Rightarrow> byte list" where
  "sha1_pad msg =
     msg @ [0x80] @ replicate ((64 - (length msg + 9) mod 64) mod 64) 0 @
     be64_bytes (of_nat (8 * length msg))"

fun sha1_schedule :: "nat \<Rightarrow> uint32 list \<Rightarrow> uint32 list" where
  "sha1_schedule 0 ws = ws"
| "sha1_schedule (Suc n) ws =
     sha1_schedule n (ws @ [word_rotl 1
       (ws ! (length ws - 3) XOR ws ! (length ws - 8) XOR ws ! (length ws - 14) XOR ws ! (length ws - 16))])"

type_synonym sha1_state = "uint32 \<times> uint32 \<times> uint32 \<times> uint32 \<times> uint32"

definition sha1_round :: "sha1_state \<Rightarrow> nat \<times> uint32 \<Rightarrow> sha1_state" where
  "sha1_round st tw =
     (case (st, tw) of
        ((a, b, c, d, e), (t, w)) \<Rightarrow>
          let f = (if t < 20 then (b AND c) OR (NOT b AND d)
                   else if t < 40 then b XOR c XOR d
                   else if t < 60 then (b AND c) OR (b AND d) OR (c AND d)
                   else b XOR c XOR d);
              k = (if t < 20 then 0x5A827999 else if t < 40 then 0x6ED9EBA1
                   else if t < 60 then 0x8F1BBCDC else 0xCA62C1D6)
          in (word_rotl 5 a + f + e + k + w, a, word_rotl 30 b, c, d))"

definition sha1_block :: "sha1_state \<Rightarrow> byte list \<Rightarrow> sha1_state" where
  "sha1_block st blk =
     (let ws = sha1_schedule 64 (map be_word (chunks 4 blk))
      in case (st, foldl sha1_round st (zip [0..<80] ws)) of
           ((a, b, c, d, e), (a', b', c', d', e')) \<Rightarrow> (a + a', b + b', c + c', d + d', e + e'))"

definition sha1_Sum :: "byte list \<Rightarrow> byte list" where
  "sha1_Sum msg =
     (case foldl sha1_block (0x67452301, 0xEFCDAB89, 0x98BADCFE, 0x10325476, 0xC3D2E1F0)
             (chunks 64 (sha1_pad msg)) of
        (a, b, c, d, e) \<Rightarrow> concat (map word_bytes [a, b, c, d, e]))"

lemma length_sha1_Sum [simp]: "length (sha1_Sum msg) = 20"
  by (simp add: sha1_Sum_def word_bytes_def split: prod.splits)

section \<open>FNV-1a\<close>

definition fnv64a_step :: "uint64 \<Rightarrow> byte \<Rightarrow> uint64" where
  "fnv64a_step h b = (h XOR ucast b) * 1099511628211"

definition fnv64a_Write :: "uint64 \<Rightarrow> byte list \<Rightarrow> uint64" where
  "fnv64a_Write h bs = foldl fnv64a_step h bs"

definition fnv64a_New :: uint64 where
  "fnv64a_New = 14695981039346656037"

end
