(* ===== verification/Upstream.thy ===== *)
theory Upstream
  imports GoStd Hashes "HOL-Library.Monad_Syntax" Complex_Main
begin

text \<open>
  Upstream proxies and their run-time state: \<^verbatim>\<open>internal/upstream/upstream.go\<close> and
  \<^verbatim>\<open>internal/upstream/state.go\<close>.

  Every method of \<^verbatim>\<open>State\<close> runs under the state's mutex, so it is one atomic function on the
  record \<open>UState\<close>.  Times are nanoseconds; methods that read the clock take the reading as
  an argument.  Go's \<^verbatim>\<open>int\<close> counters are integers, the two atomic totals are 64-bit words.
  The latency average is kept as an exact rational where Go rounds to \<^verbatim>\<open>float64\<close>.

  The lemmas show the counter invariant, when slots are granted, that the circuit breaker
  opens exactly at the threshold, the bounds of the latency average, and that the
  compare-and-swap loop of \<open>ObserveLatency\<close> makes concurrent observations appear one after
  the other.
\<close>

section \<open>Time\<close>

definition zero_time :: int where
  "zero_time = - 62135596800 * 10 ^ 9"

text \<open>\<^verbatim>\<open>Time.Sub\<close> saturates at the range of a 64-bit \<^verbatim>\<open>Duration\<close>.\<close>

definition time_Sub :: "int \<Rightarrow> int \<Rightarrow> int" where
  "time_Sub t u = max (- (2 ^ 63)) (min (2 ^ 63 - 1) (t - u))"

definition Seconds :: "int \<Rightarrow> rat" where
  "Seconds d = of_int d / 10 ^ 9"

section \<open>Upstreams and their state\<close>

record UState =
  us_active :: int
  us_healthy :: bool
  us_draining :: bool
  us_lastFailureTS :: int
  us_firstFailureTS :: int
  us_consecutiveFailures :: int
  us_totalSessions :: uint64
  us_totalFailures :: uint64
  us_ewma :: rat

definition NewState :: UState where
  "NewState = \<lparr>us_active = 0, us_healthy = True, us_draining = False, us_lastFailureTS = zero_time,
     us_firstFailureTS = zero_time, us_consecutiveFailures = 0, us_totalSessions = 0,
     us_totalFailures = 0, us_ewma = 0\<rparr>"

record Upstream =
  up_ID :: string
  up_Host :: string
  up_Port :: int
  up_Username :: string
  up_Password :: string
  up_Weight :: int
  up_Priority :: int
  up_State :: UState

definition Addr :: "Upstream \<Rightarrow> string" where
  "Addr u =
     (if contains (up_Host u) '':'' \<and> \<not> has_prefix (up_Host u) ''[''
      then ''['' @ up_Host u @ '']:'' @ Itoa (up_Port u)
      else up_Host u @ '':'' @ Itoa (up_Port u))"

definition Label :: "Upstream \<Rightarrow> string" where
  "Label u = Addr u"

definition NormalizeID :: "Upstream \<Rightarrow> Upstream" where
  "NormalizeID u =
     (if up_ID u \<noteq> [] then u
      else u\<lparr>up_ID := hex_EncodeToString (take 8 (sha1_Sum (bytes_of (Addr u))))\<rparr>)"

definition upstream_New :: "string \<Rightarrow> int \<Rightarrow> string \<Rightarrow> string \<Rightarrow> int \<Rightarrow> int \<Rightarrow> Upstream" where
  "upstream_New host port user pass weight priority =
     NormalizeID \<lparr>up_ID = [], up_Host = host, up_Port = port, up_Username = user, up_Password = pass,
       up_Weight = weight, up_Priority = priority, up_State = NewState\<rparr>"

record Snapshot =
  sn_ID :: string
  sn_Addr :: string
  sn_Weight :: int
  sn_Priority :: int
  sn_Active :: int
  sn_Healthy :: bool
  sn_Draining :: bool
  sn_ConsecutiveFailures :: int
  sn_EWMALatency :: rat
  sn_TotalSessions :: uint64
  sn_TotalFailures :: uint64

definition EWMALatency :: "Upstream \<Rightarrow> rat" where
  "EWMALatency u = us_ewma (up_State u)"

definition snapshot :: "Upstream \<Rightarrow> Snapshot" where
  "snapshot u =
     (let s = up_State u in
      \<lparr>sn_ID = up_ID u, sn_Addr = Addr u, sn_Weight = up_Weight u, sn_Priority = up_Priority u,
       sn_Active = us_active s, sn_Healthy = us_healthy s, sn_Draining = us_draining s,
       sn_ConsecutiveFailures = us_consecutiveFailures s, sn_EWMALatency = EWMALatency u,
       sn_TotalSessions = us_totalSessions s, sn_TotalFailures = us_totalFailures s\<rparr>)"

section \<open>Slots\<close>

definition IncActive :: "int \<Rightarrow> UState \<Rightarrow> bool \<times> UState" where
  "IncActive mx s =
     (if \<not> us_healthy s \<or> us_draining s then (False, s)
      else if mx \<le> us_active s then (False, s)
      else (True, s\<lparr>us_active := us_active s + 1, us_totalSessions := us_totalSessions s + 1\<rparr>))"

definition DecActive :: "UState \<Rightarrow> UState" where
  "DecActive s = (if 0 < us_active s then s\<lparr>us_active := us_active s - 1\<rparr> else s)"

section \<open>Health\<close>

definition MarkHealthy :: "UState \<Rightarrow> bool \<times> UState" where
  "MarkHealthy s =
     (if us_healthy s then (False, s)
      else (True, s\<lparr>us_healthy := True, us_consecutiveFailures := 0, us_firstFailureTS := zero_time\<rparr>))"

definition MarkUnhealthy :: "int \<Rightarrow> UState \<Rightarrow> bool \<times> UState" where
  "MarkUnhealthy now s =
     (if \<not> us_healthy s then (False, s)
      else (True, s\<lparr>us_healthy := False, us_lastFailureTS := now\<rparr>))"

definition RecordSuccess :: "UState \<Rightarrow> UState" where
  "RecordSuccess s =
     (if 0 < us_consecutiveFailures s
      then s\<lparr>us_consecutiveFailures := 0, us_firstFailureTS := zero_time\<rparr> else s)"

definition RecordFailure :: "int \<Rightarrow> int \<Rightarrow> int \<Rightarrow> UState \<Rightarrow> (int \<times> bool) \<times> UState" where
  "RecordFailure threshold window now s0 =
     (let s1 = s0\<lparr>us_totalFailures := us_totalFailures s0 + 1\<rparr>;
          s2 = (if 0 < us_consecutiveFailures s1 \<and> window < time_Sub now (us_firstFailureTS s1)
                then s1\<lparr>us_consecutiveFailures := 0\<rparr> else s1);
          s3 = (if us_consecutiveFailures s2 = 0 then s2\<lparr>us_firstFailureTS := now\<rparr> else s2);
          s4 = s3\<lparr>us_consecutiveFailures := us_consecutiveFailures s3 + 1, us_lastFailureTS := now\<rparr>;
          tripped = (us_healthy s4 \<and> threshold \<le> us_consecutiveFailures s4);
          s5 = (if tripped then s4\<lparr>us_healthy := False\<rparr> else s4)
      in ((us_consecutiveFailures s5, tripped), s5))"

definition SetDrain :: "bool \<Rightarrow> UState \<Rightarrow> UState" where
  "SetDrain drain s = s\<lparr>us_draining := drain\<rparr>"

section \<open>Latency\<close>

definition ewmaAlpha :: rat where
  "ewmaAlpha = 1 / 5"

definition ewma_next :: "rat \<Rightarrow> rat \<Rightarrow> rat" where
  "ewma_next cur sample = (if cur = 0 then sample else ewmaAlpha * sample + (1 - ewmaAlpha) * cur)"

definition ObserveLatency :: "int \<Rightarrow> Upstream \<Rightarrow> Upstream" where
  "ObserveLatency d u =
     u\<lparr>up_State := (up_State u)\<lparr>us_ewma := ewma_next (us_ewma (up_State u)) (Seconds d)\<rparr>\<rparr>"

text \<open>
  The loop of \<open>ObserveLatency\<close> as several goroutines run it: each loads the average, computes
  the next value and installs it by compare-and-swap, starting over when another goroutine
  was faster.  \<open>samples t\<close> is what goroutine \<open>t\<close> observed; the log records the order in which
  the swaps succeeded.
\<close>

datatype obs_pc = Load | CompareAndSwap rat | Stored

type_synonym obs_state = "rat \<times> (nat \<Rightarrow> obs_pc) \<times> nat list"

inductive obs_step :: "(nat \<Rightarrow> rat) \<Rightarrow> obs_state \<Rightarrow> obs_state \<Rightarrow> bool" for samples where
  obs_load: "pcs t = Load \<Longrightarrow>
    obs_step samples (cur, pcs, lg) (cur, pcs(t := CompareAndSwap cur), lg)"
| obs_swap: "pcs t = CompareAndSwap prev \<Longrightarrow> prev = cur \<Longrightarrow>
    obs_step samples (cur, pcs, lg) (ewma_next prev (samples t), pcs(t := Stored), lg @ [t])"
| obs_retry: "pcs t = CompareAndSwap prev \<Longrightarrow> prev \<noteq> cur \<Longrightarrow>
    obs_step samples (cur, pcs, lg) (cur, pcs(t := Load), lg)"

section \<open>Invariant of the counters\<close>

datatype us_op = OpInc int | OpDec | OpMarkHealthy | OpMarkUnhealthy int | OpSuccess
  | OpFailure int int int | OpDrain bool

fun us_apply :: "us_op \<Rightarrow> UState \<Rightarrow> UState" where
  "us_apply (OpInc mx) s = snd (IncActive mx s)"
| "us_apply OpDec s = DecActive s"
| "us_apply OpMarkHealthy s = snd (MarkHealthy s)"
| "us_apply (OpMarkUnhealthy now) s = snd (MarkUnhealthy now s)"
| "us_apply OpSuccess s = RecordSuccess s"
| "us_apply (OpFailure thr win now) s = snd (RecordFailure thr win now s)"
| "us_apply (OpDrain b) s = SetDrain b s"

lemmas us_defs = IncActive_def DecActive_def MarkHealthy_def MarkUnhealthy_def RecordSuccess_def
  RecordFailure_def SetDrain_def Let_def

fun caps_within :: "int \<Rightarrow> us_op \<Rightarrow> bool" where
  "caps_within mx (OpInc m) \<longleftrightarrow> m \<le> mx"
| "caps_within mx _ \<longleftrightarrow> True"

definition us_inv :: "int \<Rightarrow> UState \<Rightarrow> bool" where
  "us_inv mx s \<longleftrightarrow> 0 \<le> us_active s \<and> us_active s \<le> mx \<and> 0 \<le> us_consecutiveFailures s \<and>
     (us_consecutiveFailures s = 0 \<or> us_firstFailureTS s \<le> us_lastFailureTS s)"

text \<open>Clock readings do not go backwards.\<close>

fun op_time :: "us_op \<Rightarrow> int option" where
  "op_time (OpMarkUnhealthy now) = Some now"
| "op_time (OpFailure thr win now) = Some now"
| "op_time _ = None"

fun clock_ok :: "int \<Rightarrow> us_op list \<Rightarrow> bool" where
  "clock_ok t [] \<longleftrightarrow> True"
| "clock_ok t (op # ops) \<longleftrightarrow>
     (case op_time op of None \<Rightarrow> clock_ok t ops | Some now \<Rightarrow> t \<le> now \<and> clock_ok now ops)"

lemma us_apply_inv:
  assumes "us_inv mx s" and "caps_within mx op" and "us_firstFailureTS s \<le> t \<and> us_lastFailureTS s \<le> t"
    and "\<forall>now. op_time op = Some now \<longrightarrow> t \<le> now" and "zero_time \<le> t" and "0 \<le> mx"
  shows "us_inv mx (us_apply op s) \<and>
    us_firstFailureTS (us_apply op s) \<le> (case op_time op of None \<Rightarrow> t | Some now \<Rightarrow> now) \<and>
    us_lastFailureTS (us_apply op s) \<le> (case op_time op of None \<Rightarrow> t | Some now \<Rightarrow> now)"
  using assms by (cases op) (auto simp: us_inv_def us_defs)

lemma us_run_inv:
  assumes "us_inv mx s" and "list_all (caps_within mx) ops" and "clock_ok t ops"
    and "us_firstFailureTS s \<le> t \<and> us_lastFailureTS s \<le> t" and "zero_time \<le> t" and "0 \<le> mx"
  shows "us_inv mx (fold us_apply ops s)"
  using assms
proof (induction ops arbitrary: s t)
  case (Cons op ops)
  let ?t = "case op_time op of None \<Rightarrow> t | Some now \<Rightarrow> now"
  have le: "\<forall>now. op_time op = Some now \<longrightarrow> t \<le> now" "clock_ok ?t ops" "zero_time \<le> ?t"
    using Cons.prems by (auto split: option.splits)
  from us_apply_inv [of mx s op t] Cons.prems le show ?case
    using Cons.IH [of "us_apply op s" ?t] by simp
qed simp



section \<open>The circuit breaker\<close>

definition fail_run :: "int \<Rightarrow> int \<Rightarrow> int list \<Rightarrow> UState \<Rightarrow> UState" where
  "fail_run threshold window ts s = foldl (\<lambda>s t. snd (RecordFailure threshold window t s)) s ts"

lemma fail_run_snoc [simp]:
  "fail_run threshold window (ts @ [t]) s = snd (RecordFailure threshold window t (fail_run threshold window ts s))"
  by (simp add: fail_run_def)

lemma fail_run_within:
  assumes "us_healthy s" and "us_consecutiveFailures s = 0" and "1 \<le> threshold"
    and "ts \<noteq> []" and "\<forall>t\<in>set ts. time_Sub t (hd ts) \<le> window"
  shows "us_consecutiveFailures (fail_run threshold window ts s) = int (length ts) \<and>
    us_firstFailureTS (fail_run threshold window ts s) = hd ts \<and>
    (us_healthy (fail_run threshold window ts s) \<longleftrightarrow> int (length ts) < threshold)"
  using assms(4,5)
proof (induction ts rule: rev_induct)
  case (snoc t ts)
  show ?case
  proof (cases "ts = []")
    case True
    with assms show ?thesis by (auto simp: fail_run_def RecordFailure_def Let_def)
  next
    case False
    with snoc show ?thesis by (auto simp: RecordFailure_def Let_def)
  qed
qed simp

text \<open>C27. The circuit breaker opens exactly at the threshold: starting from a healthy upstream without
  counted failures, a series of failures that stays within the window of its first one is
  counted in full; the upstream is still healthy as long as the series is shorter than the
  threshold, and the call that reports "tripped" is the one that reaches it.\<close>

theorem breaker_trips_at_threshold:
  assumes "us_healthy s" and "us_consecutiveFailures s = 0" and "1 \<le> threshold"
    and "\<forall>t\<in>set (ts @ [now]). time_Sub t (hd (ts @ [now])) \<le> window"
  shows "RecordFailure threshold window now (fail_run threshold window ts s) =
    ((int (length ts) + 1, int (length ts) + 1 = threshold), fail_run threshold window (ts @ [now]) s) \<and>
    (us_healthy (fail_run threshold window (ts @ [now]) s) \<longleftrightarrow> int (length ts) + 1 < threshold)"
proof (cases "ts = []")
  case True
  with assms show ?thesis by (auto simp: fail_run_def RecordFailure_def Let_def)
next
  case False
  have "\<forall>t\<in>set ts. time_Sub t (hd ts) \<le> window" "time_Sub now (hd ts) \<le> window"
    using assms(4) False by auto
  with fail_run_within [OF assms(1-3) False] show ?thesis
    by (auto simp: RecordFailure_def Let_def)
qed

theorem breaker_trips_at_threshold_witness:
  "fst (RecordFailure 3 10 8 (fail_run 3 10 [0, 4] NewState)) = (3, True)"
proof -
  have "\<forall>t\<in>set ([0, 4] @ [8]). time_Sub t (hd ([0, 4] @ [8])) \<le> 10"
    by (simp add: time_Sub_def)
  from breaker_trips_at_threshold [OF _ _ _ this, of NewState 3] show ?thesis
    by (simp add: NewState_def)
qed

text \<open>The failure window is anchored at the first counted failure and does not slide: the first
  failure after it has elapsed starts a new count at one, whatever was counted before.
  (The comment on \<open>RecordFailure\<close> speaks of a sliding window.)\<close>

theorem breaker_window_restarts:
  assumes "0 < us_consecutiveFailures s" and "window < time_Sub now (us_firstFailureTS s)" and "1 < threshold"
  shows "RecordFailure threshold window now s =
    ((1, False), s\<lparr>us_totalFailures := us_totalFailures s + 1, us_consecutiveFailures := 1,
       us_firstFailureTS := now, us_lastFailureTS := now\<rparr>)"
  using assms by (simp add: RecordFailure_def Let_def)

theorem breaker_window_restarts_witness:
  "fst (RecordFailure 3 10 11 (fail_run 3 10 [0, 9] NewState)) = (1, False) \<and>
   us_healthy (fail_run 3 10 [0, 9, 11, 12] NewState)"
proof -
  have "0 < us_consecutiveFailures (fail_run 3 10 [0, 9] NewState)"
    "10 < time_Sub 11 (us_firstFailureTS (fail_run 3 10 [0, 9] NewState))"
    "us_healthy (fail_run 3 10 [0, 9, 11, 12] NewState)"
    by (simp_all add: fail_run_def RecordFailure_def NewState_def time_Sub_def Let_def)
  with breaker_window_restarts [OF this(1,2), of 3] show ?thesis by simp
qed

section \<open>The latency average\<close>

lemma ewma_next_bounds:
  assumes "0 < lo" and "lo \<le> x" "x \<le> hi" and "cur = 0 \<or> lo \<le> cur \<and> cur \<le> hi"
  shows "lo \<le> ewma_next cur x \<and> ewma_next cur x \<le> hi"
proof (cases "cur = 0")
  case False
  with assms have "lo \<le> cur" "cur \<le> hi" by auto
  with assms(2,3) False show ?thesis
    by (auto simp: ewma_next_def ewmaAlpha_def field_simps)
qed (use assms in \<open>simp add: ewma_next_def\<close>)

lemma EWMALatency_ObserveLatency:
  "EWMALatency (ObserveLatency d u) = ewma_next (EWMALatency u) (Seconds d)"
  by (simp add: EWMALatency_def ObserveLatency_def)


definition ex_upstream0 :: Upstream where
  "ex_upstream0 = \<lparr>up_ID = ''a'', up_Host = ''10.0.0.1'', up_Port = 1080, up_Username = [], up_Password = [],
     up_Weight = 1, up_Priority = 0, up_State = NewState\<rparr>"


text \<open>C28. Concurrent latency observations are linearisable: in every interleaving of the
  compare-and-swap loops of any number of goroutines, the average equals the observations of
  the goroutines that have finished, applied one after the other in the order in which their
  swaps succeeded, each exactly once; no observation is lost.\<close>

theorem ObserveLatency_linearizable:
  assumes "(obs_step samples)\<^sup>*\<^sup>* (cur0, \<lambda>_. Load, []) (cur, pcs, lg)"
  shows "cur = foldl ewma_next cur0 (map samples lg) \<and> distinct lg \<and> set lg = {t. pcs t = Stored}"
  using assms
proof (induction "(cur, pcs, lg)" arbitrary: cur pcs lg rule: rtranclp_induct)
  case base
  show ?case by simp
next
  case (step y)
  obtain cur1 pcs1 lg1 where y: "y = (cur1, pcs1, lg1)" by (cases y)
  from step.hyps(3) [OF y] have IH: "cur1 = foldl ewma_next cur0 (map samples lg1)" "distinct lg1"
    "set lg1 = {t. pcs1 t = Stored}" by blast+
  from step.hyps(2) [unfolded y] show ?case
    using IH by cases auto
qed

theorem ObserveLatency_linearizable_witness:
  "ewma_next 0 3 = foldl ewma_next 0 (map (\<lambda>t. if t = (0::nat) then 3 else 5) [0])"
proof -
  let ?s = "\<lambda>t. if t = (0::nat) then 3 else (5 :: rat)"
  have "(obs_step ?s)\<^sup>*\<^sup>* (0, \<lambda>_. Load, []) (0, (\<lambda>_. Load)(0 := CompareAndSwap 0), [])"
    by (rule r_into_rtranclp, rule obs_load) simp
  also have "(obs_step ?s)\<^sup>*\<^sup>* (0, (\<lambda>_. Load)(0 := CompareAndSwap 0), [])
      (ewma_next 0 (?s 0), (\<lambda>_. Load)(0 := CompareAndSwap 0, 0 := Stored), [] @ [0])"
    by (rule r_into_rtranclp, rule obs_swap) simp_all
  finally show ?thesis
    using ObserveLatency_linearizable by fastforce
qed

section \<open>Identifiers\<close>

lemma length_hex: "length (hex_EncodeToString bs) = 2 * length bs"
  by (induction bs) (simp_all add: hex_EncodeToString_def hex2_def)

lemma NormalizeID_nonempty: "up_ID (NormalizeID u) \<noteq> []"
  using length_hex [of "take 8 (sha1_Sum (bytes_of (Addr u)))"] by (auto simp: NormalizeID_def)

lemma NormalizeID_State [simp]: "up_State (NormalizeID u) = up_State u"
  by (simp add: NormalizeID_def)

text \<open>Every upstream gets a non-empty identifier: an explicit one is kept, a missing one becomes
  sixteen characters that depend on host and port only, so that credentials, weight and
  priority can change without the upstream losing its identity.\<close>

theorem NormalizeID_stable:
  "up_ID (NormalizeID u) \<noteq> [] \<and> NormalizeID (NormalizeID u) = NormalizeID u \<and>
   up_ID (upstream_New host port user pass weight prio) = up_ID (upstream_New host port user' pass' weight' prio') \<and>
   length (up_ID (upstream_New host port user pass weight prio)) = 16"
proof -
  have "NormalizeID (NormalizeID u) = NormalizeID u"
    using NormalizeID_nonempty [of u] by (subst NormalizeID_def) simp
  moreover have "up_ID (upstream_New host port user pass weight prio) =
      up_ID (upstream_New host port user' pass' weight' prio')"
    "length (up_ID (upstream_New host port user pass weight prio)) = 16"
    by (simp_all add: upstream_New_def NormalizeID_def Addr_def length_hex)
  ultimately show ?thesis using NormalizeID_nonempty by blast
qed

end
