(* ===== verification/Config.thy ===== *)
theory Config
  imports Upstream
begin

text \<open>
  The runtime configuration of \<^verbatim>\<open>internal/config/config.go\<close>: its records, defaults, validation
  and the construction of upstreams; and the parser of upstream specifications of
  \<^verbatim>\<open>internal/config/upstream_parse.go\<close>.

  String-typed enumerations stay strings, since their values come from files.  Durations are
  nanoseconds.  \<open>Validate\<close> works on a pointer in Go and normalises the transport section;
  here it returns the error together with the configuration after the call.  Decoding YAML
  is the work of a third-party package, so the loaders take the decoder as an argument.
\<close>

section \<open>Records\<close>

type_synonym BackpressureStrategy = string
type_synonym HashKey = string
type_synonym TransportType = string

definition BackpressureReject :: BackpressureStrategy where "BackpressureReject = ''reject''"

definition BackpressureWait :: BackpressureStrategy where "BackpressureWait = ''wait''"

definition BackpressureDropOldest :: BackpressureStrategy where
  "BackpressureDropOldest = ''drop-oldest''"

definition BackpressureDropLowestPriority :: BackpressureStrategy where
  "BackpressureDropLowestPriority = ''drop-lowest-priority''"

definition HashClientIP :: HashKey where "HashClientIP = ''client-ip''"

definition HashDestination :: HashKey where "HashDestination = ''destination''"

definition HashDestHost :: HashKey where "HashDestHost = ''destination-host''"

definition TransportDirect :: TransportType where "TransportDirect = ''direct''"

definition TransportKubernetesExec :: TransportType where
  "TransportKubernetesExec = ''kubernetes-exec''"

lemmas config_consts = BackpressureReject_def BackpressureWait_def BackpressureDropOldest_def
  BackpressureDropLowestPriority_def HashClientIP_def HashDestination_def HashDestHost_def
  TransportDirect_def TransportKubernetesExec_def

record KubernetesExecTransportConfig =
  kt_Kubeconfig :: string
  kt_Context :: string
  kt_Namespace :: string
  kt_Pod :: string
  kt_Container :: string
  kt_Mode :: string
  kt_Command :: "string list"
  kt_WSSURL :: string
  kt_BearerToken :: string
  kt_BearerTokenFile :: string
  kt_CAFile :: string
  kt_InsecureSkipTLSVerify :: bool
  kt_ServerName :: string
  kt_Headers :: "(string \<times> string) list"

record TransportConfig =
  tc_Type :: TransportType
  tc_Kubernetes :: KubernetesExecTransportConfig

record UpstreamSpec =
  sp_ID :: string
  sp_Host :: string
  sp_Port :: int
  sp_Username :: string
  sp_Password :: string
  sp_Weight :: int
  sp_Priority :: int

record OTelConfig =
  ot_Enabled :: bool
  ot_Endpoint :: string
  ot_Insecure :: bool
  ot_ServiceName :: string
  ot_SampleRatio :: rat
  ot_Headers :: "(string \<times> string) list"

record Config =
  cf_ListenAddr :: string
  cf_AdminAddr :: string
  cf_MaxPerProxy :: int
  cf_MaxClients :: int
  cf_HealthInterval :: int
  cf_RetryBackoff :: int
  cf_ConnectTimeout :: int
  cf_HandshakeTimeout :: int
  cf_QueueWaitTimeout :: int
  cf_FailureThreshold :: int
  cf_FailureWindow :: int
  cf_IdleTimeout :: int
  cf_DrainSoftTimeout :: int
  cf_DrainHardTimeout :: int
  cf_TCPKeepAlive :: bool
  cf_Strategy :: string
  cf_HashKey :: HashKey
  cf_Backpressure :: BackpressureStrategy
  cf_AdmissionWaitTimeout :: int
  cf_UDPEnabled :: bool
  cf_UDPBindAddr :: string
  cf_UDPAdvertiseAddr :: string
  cf_UDPIdleTimeout :: int
  cf_Transport :: TransportConfig
  cf_OTel :: OTelConfig
  cf_LogLevel :: int
  cf_LogLevelS :: string
  cf_LogFormat :: string
  cf_AdminToken :: string
  cf_AdminPprof :: bool
  cf_Upstreams :: "UpstreamSpec list"
  cf_GroupName :: string

section \<open>Defaults\<close>

definition seconds :: "int \<Rightarrow> int" where
  "seconds n = n * 10 ^ 9"

definition Kubernetes_zero :: KubernetesExecTransportConfig where
  "Kubernetes_zero = \<lparr>kt_Kubeconfig = [], kt_Context = [], kt_Namespace = [], kt_Pod = [],
     kt_Container = [], kt_Mode = [], kt_Command = [], kt_WSSURL = [], kt_BearerToken = [],
     kt_BearerTokenFile = [], kt_CAFile = [], kt_InsecureSkipTLSVerify = False, kt_ServerName = [],
     kt_Headers = []\<rparr>"

definition Defaults :: Config where
  "Defaults = \<lparr>cf_ListenAddr = ''127.0.0.1:1080'', cf_AdminAddr = ''127.0.0.1:9090'',
     cf_MaxPerProxy = 100, cf_MaxClients = 4096, cf_HealthInterval = seconds 20,
     cf_RetryBackoff = seconds 30, cf_ConnectTimeout = seconds 5, cf_HandshakeTimeout = seconds 10,
     cf_QueueWaitTimeout = seconds 10, cf_FailureThreshold = 5, cf_FailureWindow = seconds 30,
     cf_IdleTimeout = 0, cf_DrainSoftTimeout = seconds 20, cf_DrainHardTimeout = seconds 10,
     cf_TCPKeepAlive = True, cf_Strategy = ''least-active'', cf_HashKey = HashClientIP,
     cf_Backpressure = BackpressureReject, cf_AdmissionWaitTimeout = seconds 2, cf_UDPEnabled = True,
     cf_UDPBindAddr = [], cf_UDPAdvertiseAddr = [], cf_UDPIdleTimeout = seconds 60,
     cf_Transport = \<lparr>tc_Type = TransportDirect, tc_Kubernetes = Kubernetes_zero\<rparr>,
     cf_OTel = \<lparr>ot_Enabled = False, ot_Endpoint = [], ot_Insecure = False, ot_ServiceName = ''s5lb'',
       ot_SampleRatio = 1, ot_Headers = []\<rparr>,
     cf_LogLevel = 0, cf_LogLevelS = [], cf_LogFormat = ''json'', cf_AdminToken = [],
     cf_AdminPprof = False, cf_Upstreams = [], cf_GroupName = []\<rparr>"

section \<open>Validation\<close>

text \<open>A series of \<^verbatim>\<open>if cond { return err }\<close> statements.\<close>

fun first_error :: "(bool \<times> gerror) list \<Rightarrow> gerror option" where
  "first_error [] = None"
| "first_error ((cond, err) # rest) = (if cond then Some err else first_error rest)"

fun validate_upstreams :: "nat \<Rightarrow> string set \<Rightarrow> UpstreamSpec list \<Rightarrow> gerror option" where
  "validate_upstreams i seenIDs [] = None"
| "validate_upstreams i seenIDs (u # us) =
     (case first_error
        [(sp_Host u = [], Errorf ''upstream[%d].host is required'' [FInt (int i)]),
         (sp_Port u < 1 \<or> 65535 < sp_Port u,
            Errorf ''upstream[%d].port must be in [1,65535]'' [FInt (int i)]),
         (sp_Weight u < 0, Errorf ''upstream[%d].weight must be >= 0'' [FInt (int i)]),
         (sp_ID u \<noteq> [] \<and> sp_ID u \<in> seenIDs,
            Errorf ''upstream[%d]: duplicate upstream ID %q'' [FInt (int i), FStr (sp_ID u)])] of
        Some e \<Rightarrow> Some e
      | None \<Rightarrow>
          validate_upstreams (Suc i) (if sp_ID u \<noteq> [] then insert (sp_ID u) seenIDs else seenIDs) us)"

definition validStrategyNames :: "string list" where
  "validStrategyNames =
     ['''', ''least-active'', ''leastconn'', ''round-robin'', ''rr'', ''weighted-round-robin'', ''wrr'',
      ''random'', ''weighted-random'', ''wrandom'', ''p2c'', ''power-of-two'', ''least-latency'', ''ll'',
      ''consistent-hash'', ''hash'', ''priority-failover'', ''priority'', ''failover'']"

definition validateStrategyName :: "string \<Rightarrow> gerror option" where
  "validateStrategyName name =
     (if ToLower (TrimSpace name) \<notin> set validStrategyNames
      then Some (Errorf ''unknown strategy %q'' [FStr name]) else None)"

definition validateKubernetes ::
  "KubernetesExecTransportConfig \<Rightarrow> gerror option \<times> KubernetesExecTransportConfig" where
  "validateKubernetes k0 =
     (let k = (if kt_Mode k0 = [] then k0\<lparr>kt_Mode := ''websocket-preferred''\<rparr> else k0) in
      (first_error
         ((if kt_WSSURL k \<noteq> [] \<or> kt_Mode k = ''raw-wss'' then
             [(kt_WSSURL k = [],
                errors_New ''transport.kubernetes.wss_url is required when mode=raw-wss'')]
           else
             [(kt_Pod k = [], errors_New ''transport.kubernetes.pod is required for kubernetes-exec''),
              (kt_Namespace k = [],
                 errors_New ''transport.kubernetes.namespace is required for kubernetes-exec'')]) @
          [(kt_Command k = [],
             errors_New ''transport.kubernetes.command is required for kubernetes-exec'')]),
       k))"

definition validateTransport :: "TransportConfig \<Rightarrow> gerror option \<times> TransportConfig" where
  "validateTransport t =
     (if tc_Type t = [] \<or> tc_Type t = TransportDirect then (None, t\<lparr>tc_Type := TransportDirect\<rparr>)
      else if tc_Type t = TransportKubernetesExec then
        (case validateKubernetes (tc_Kubernetes t) of (e, k) \<Rightarrow> (e, t\<lparr>tc_Kubernetes := k\<rparr>))
      else (Some (Errorf ''unknown transport.type %q'' [FStr (tc_Type t)]), t))"

definition validate_scalars :: "Config \<Rightarrow> gerror option" where
  "validate_scalars c = first_error
     [(cf_ListenAddr c = [], errors_New ''listen addr is required''),
      (cf_MaxPerProxy c \<le> 0, errors_New ''max_per_proxy must be > 0''),
      (cf_MaxClients c \<le> 0, errors_New ''max_clients must be > 0''),
      (cf_HealthInterval c \<le> 0, errors_New ''health_interval must be > 0''),
      (cf_RetryBackoff c < 0, errors_New ''retry_backoff must be >= 0''),
      (cf_ConnectTimeout c \<le> 0 \<or> cf_HandshakeTimeout c \<le> 0,
         errors_New ''connect/handshake timeouts must be > 0''),
      (cf_QueueWaitTimeout c < 0, errors_New ''queue_wait_timeout must be >= 0''),
      (cf_AdmissionWaitTimeout c < 0,
         errors_New ''admission_wait_timeout must be >= 0 (zero means unbounded wait)''),
      (cf_FailureThreshold c \<le> 0, errors_New ''failure_threshold must be > 0''),
      (cf_FailureWindow c \<le> 0, errors_New ''failure_window must be > 0''),
      (cf_IdleTimeout c < 0, errors_New ''idle_timeout must be >= 0''),
      (cf_DrainSoftTimeout c < 0 \<or> cf_DrainHardTimeout c < 0,
         errors_New ''drain timeouts must be >= 0''),
      (cf_UDPEnabled c \<and> cf_UDPIdleTimeout c \<le> 0,
         errors_New ''udp_idle_timeout must be > 0 when UDP is enabled''),
      (cf_UDPAdvertiseAddr c \<noteq> [] \<and> ParseIP (cf_UDPAdvertiseAddr c) = None,
         Errorf ''udp_advertise must be an IP address, got %q'' [FStr (cf_UDPAdvertiseAddr c)]),
      (cf_Upstreams c = [], errors_New ''at least one upstream is required'')]"

definition validate_enums :: "Config \<Rightarrow> gerror option" where
  "validate_enums c = first_error
     [(cf_Backpressure c \<notin> {BackpressureReject, BackpressureWait, BackpressureDropOldest,
          BackpressureDropLowestPriority},
         Errorf ''unknown backpressure strategy %q'' [FStr (cf_Backpressure c)]),
      (cf_HashKey c \<notin> {HashClientIP, HashDestination, HashDestHost},
         Errorf ''unknown hash_key %q'' [FStr (cf_HashKey c)])]"

definition validate_otel :: "OTelConfig \<Rightarrow> gerror option" where
  "validate_otel o1 = first_error
     [(ot_Enabled o1 \<and> ot_Endpoint o1 = [], errors_New ''otel.enabled=true requires otel.endpoint''),
      (ot_SampleRatio o1 < 0 \<or> 1 < ot_SampleRatio o1,
         errors_New ''otel.sample_ratio must be in [0,1]'')]"

definition Validate :: "Config \<Rightarrow> gerror option \<times> Config" where
  "Validate c =
     (case validate_scalars c of
        Some e \<Rightarrow> (Some e, c)
      | None \<Rightarrow>
     (case validate_upstreams 0 {} (cf_Upstreams c) of
        Some e \<Rightarrow> (Some e, c)
      | None \<Rightarrow>
     (case SplitHostPort (cf_ListenAddr c) of
        Inl err \<Rightarrow>
          (Some (Errorf ''listen addr %q is invalid: %w'' [FStr (cf_ListenAddr c), FErr err]), c)
      | Inr _ \<Rightarrow>
     (case validateStrategyName (cf_Strategy c) of
        Some e \<Rightarrow> (Some e, c)
      | None \<Rightarrow>
     (case validate_enums c of
        Some e \<Rightarrow> (Some e, c)
      | None \<Rightarrow>
     (case validateTransport (cf_Transport c) of
        (e, t) \<Rightarrow>
          let c' = c\<lparr>cf_Transport := t\<rparr>
          in (case e of Some err \<Rightarrow> (Some err, c') | None \<Rightarrow> (validate_otel (cf_OTel c'), c'))))))))"

section \<open>Building the upstreams\<close>

definition build_upstream :: "UpstreamSpec \<Rightarrow> Upstream" where
  "build_upstream s =
     (let w = (if sp_Weight s \<le> 0 then 1 else sp_Weight s);
          u = upstream_New (sp_Host s) (sp_Port s) (sp_Username s) (sp_Password s) w (sp_Priority s)
      in if sp_ID s \<noteq> [] then u\<lparr>up_ID := sp_ID s\<rparr> else u)"

fun build_loop :: "nat \<Rightarrow> UpstreamSpec list \<Rightarrow> gerror + Upstream list" where
  "build_loop i [] = Inr []"
| "build_loop i (s # ss) =
     (if sp_Host s = [] \<or> sp_Port s \<le> 0
      then Inl (Errorf ''upstream[%d]: host and port required'' [FInt (int i)])
      else case build_loop (Suc i) ss of
        Inl e \<Rightarrow> Inl e
      | Inr us \<Rightarrow> Inr (build_upstream s # us))"

definition BuildUpstreams :: "Config \<Rightarrow> gerror + Upstream list" where
  "BuildUpstreams c = build_loop 0 (cf_Upstreams c)"

section \<open>Loading\<close>

text \<open>\<^verbatim>\<open>slog\<close>'s levels: debug -4, info 0, warn 4, error 8.\<close>

definition ParseLevel :: "string \<Rightarrow> int" where
  "ParseLevel s =
     (let l = ToLower s in
      if l = ''debug'' then - 4 else if l = ''info'' then 0
      else if l = ''warn'' \<or> l = ''warning'' then 4 else if l = ''error'' then 8 else 0)"

text \<open>
  \<open>readFile\<close> is the file system, \<open>unmarshal\<close> the YAML decoder, which fills in the fields a
  document mentions.
\<close>

definition finish_load :: "Config \<Rightarrow> Config" where
  "finish_load c =
     (let c1 = c\<lparr>cf_LogLevel := ParseLevel (cf_LogLevelS c)\<rparr>
      in if ot_ServiceName (cf_OTel c1) = []
         then c1\<lparr>cf_OTel := (cf_OTel c1)\<lparr>ot_ServiceName := ''s5lb''\<rparr>\<rparr> else c1)"

definition LoadFile ::
  "(string \<Rightarrow> gerror + byte list) \<Rightarrow> (byte list \<Rightarrow> Config \<Rightarrow> gerror + Config) \<Rightarrow> string \<Rightarrow> gerror + Config" where
  "LoadFile readFile unmarshal path =
     (case readFile path of
        Inl err \<Rightarrow> Inl (Errorf ''read config %s: %w'' [FStr path, FErr err])
      | Inr raw \<Rightarrow>
          (case unmarshal raw Defaults of
             Inl err \<Rightarrow> Inl (Errorf ''parse config %s: %w'' [FStr path, FErr err])
           | Inr cfg \<Rightarrow> Inr (finish_load cfg)))"

section \<open>What validation accepts\<close>

definition spec_ok :: "UpstreamSpec \<Rightarrow> bool" where
  "spec_ok u \<longleftrightarrow> sp_Host u \<noteq> [] \<and> 1 \<le> sp_Port u \<and> sp_Port u \<le> 65535 \<and> 0 \<le> sp_Weight u"

definition explicit_ids :: "UpstreamSpec list \<Rightarrow> string list" where
  "explicit_ids us = filter (\<lambda>i. i \<noteq> []) (map sp_ID us)"

definition kubernetes_ok :: "KubernetesExecTransportConfig \<Rightarrow> bool" where
  "kubernetes_ok k \<longleftrightarrow> kt_Command k \<noteq> [] \<and>
     (kt_WSSURL k \<noteq> [] \<or> kt_Mode k \<noteq> ''raw-wss'' \<and> kt_Pod k \<noteq> [] \<and> kt_Namespace k \<noteq> [])"

definition transport_ok :: "TransportConfig \<Rightarrow> bool" where
  "transport_ok t \<longleftrightarrow> tc_Type t \<in> {[], TransportDirect} \<or>
     tc_Type t = TransportKubernetesExec \<and> kubernetes_ok (tc_Kubernetes t)"

definition limits_ok :: "Config \<Rightarrow> bool" where
  "limits_ok c \<longleftrightarrow> 0 < cf_MaxPerProxy c \<and> 0 < cf_MaxClients c \<and> 0 < cf_HealthInterval c \<and>
     0 \<le> cf_RetryBackoff c \<and> 0 < cf_ConnectTimeout c \<and> 0 < cf_HandshakeTimeout c \<and>
     0 \<le> cf_QueueWaitTimeout c \<and> 0 \<le> cf_AdmissionWaitTimeout c \<and> 0 < cf_FailureThreshold c \<and>
     0 < cf_FailureWindow c \<and> 0 \<le> cf_IdleTimeout c \<and> 0 \<le> cf_DrainSoftTimeout c \<and>
     0 \<le> cf_DrainHardTimeout c \<and> (cf_UDPEnabled c \<longrightarrow> 0 < cf_UDPIdleTimeout c)"

definition names_ok :: "Config \<Rightarrow> bool" where
  "names_ok c \<longleftrightarrow> cf_ListenAddr c \<noteq> [] \<and> \<not> isl (SplitHostPort (cf_ListenAddr c)) \<and>
     (cf_UDPAdvertiseAddr c \<noteq> [] \<longrightarrow> ParseIP (cf_UDPAdvertiseAddr c) \<noteq> None) \<and>
     ToLower (TrimSpace (cf_Strategy c)) \<in> set validStrategyNames \<and>
     cf_Backpressure c \<in> {BackpressureReject, BackpressureWait, BackpressureDropOldest,
       BackpressureDropLowestPriority} \<and>
     cf_HashKey c \<in> {HashClientIP, HashDestination, HashDestHost} \<and>
     (ot_Enabled (cf_OTel c) \<longrightarrow> ot_Endpoint (cf_OTel c) \<noteq> []) \<and>
     0 \<le> ot_SampleRatio (cf_OTel c) \<and> ot_SampleRatio (cf_OTel c) \<le> 1"

definition config_ok :: "Config \<Rightarrow> bool" where
  "config_ok c \<longleftrightarrow> limits_ok c \<and> names_ok c \<and> transport_ok (cf_Transport c) \<and>
     cf_Upstreams c \<noteq> [] \<and> list_all spec_ok (cf_Upstreams c) \<and>
     distinct (explicit_ids (cf_Upstreams c))"

lemma first_error_None [simp]: "first_error checks = None \<longleftrightarrow> (\<forall>(b, e)\<in>set checks. \<not> b)"
  by (induction checks rule: first_error.induct) auto

lemma validate_upstreams_None:
  "validate_upstreams i seen us = None \<longleftrightarrow>
     list_all spec_ok us \<and> distinct (explicit_ids us) \<and> set (explicit_ids us) \<inter> seen = {}"
  by (induction us arbitrary: i seen)
    (auto simp: spec_ok_def explicit_ids_def not_less not_le split: option.splits)

lemma validateTransport_None: "fst (validateTransport t) = None \<longleftrightarrow> transport_ok t"
  by (auto simp: validateTransport_def transport_ok_def validateKubernetes_def kubernetes_ok_def
      Let_def config_consts split: prod.splits if_splits)

lemma validateStrategyName_None:
  "validateStrategyName n = None \<longleftrightarrow> ToLower (TrimSpace n) \<in> set validStrategyNames"
  by (simp add: validateStrategyName_def)

lemma validate_scalars_None:
  "validate_scalars c = None \<longleftrightarrow> limits_ok c \<and> cf_ListenAddr c \<noteq> [] \<and> cf_Upstreams c \<noteq> [] \<and>
     (cf_UDPAdvertiseAddr c \<noteq> [] \<longrightarrow> ParseIP (cf_UDPAdvertiseAddr c) \<noteq> None)"
  unfolding validate_scalars_def limits_ok_def first_error_None
  by (simp add: not_le not_less) argo

lemma validate_enums_None:
  "validate_enums c = None \<longleftrightarrow> cf_Backpressure c \<in> {BackpressureReject, BackpressureWait,
     BackpressureDropOldest, BackpressureDropLowestPriority} \<and>
     cf_HashKey c \<in> {HashClientIP, HashDestination, HashDestHost}"
  by (simp add: validate_enums_def)

lemma validate_otel_None:
  "validate_otel o1 = None \<longleftrightarrow> (ot_Enabled o1 \<longrightarrow> ot_Endpoint o1 \<noteq> []) \<and>
     0 \<le> ot_SampleRatio o1 \<and> ot_SampleRatio o1 \<le> 1"
  by (simp add: validate_otel_def not_less)

lemma Validate_steps:
  "fst (Validate c) = None \<longleftrightarrow> validate_scalars c = None \<and>
     validate_upstreams 0 {} (cf_Upstreams c) = None \<and> \<not> isl (SplitHostPort (cf_ListenAddr c)) \<and>
     validateStrategyName (cf_Strategy c) = None \<and> validate_enums c = None \<and>
     fst (validateTransport (cf_Transport c)) = None \<and> validate_otel (cf_OTel c) = None"
  by (simp add: Validate_def Let_def split: option.split sum.split prod.split)

lemma Validate_None: "fst (Validate c) = None \<longleftrightarrow> config_ok c"
  unfolding Validate_steps validate_scalars_None validate_upstreams_None validateStrategyName_None
    validate_enums_None validateTransport_None validate_otel_None config_ok_def names_ok_def
  by blast

lemma Validate_snd:
  assumes "fst (Validate c) = None"
  shows "snd (Validate c) = c\<lparr>cf_Transport := snd (validateTransport (cf_Transport c))\<rparr>"
proof -
  note steps = assms [unfolded Validate_steps]
  obtain hp where hp: "SplitHostPort (cf_ListenAddr c) = Inr hp"
    using steps by (cases "SplitHostPort (cf_ListenAddr c)") simp_all
  obtain t where t: "validateTransport (cf_Transport c) = (None, t)"
    using steps by (cases "validateTransport (cf_Transport c)") simp
  show ?thesis
    unfolding Validate_def Let_def hp t using steps by (simp only: option.case sum.case prod.case snd_conv)
qed

lemma transport_types [simp]: "TransportKubernetesExec \<noteq> []" "TransportKubernetesExec \<noteq> TransportDirect"
  by (simp_all add: config_consts)

lemma validateKubernetes_idem:
  "validateKubernetes (snd (validateKubernetes k)) = validateKubernetes k"
  by (simp add: validateKubernetes_def Let_def)

lemma validateTransport_idem:
  assumes "fst (validateTransport t) = None"
  shows "validateTransport (snd (validateTransport t)) = (None, snd (validateTransport t))"
proof -
  consider "tc_Type t = [] \<or> tc_Type t = TransportDirect" | "tc_Type t = TransportKubernetesExec"
    using assms by (auto simp: validateTransport_def split: if_splits)
  then show ?thesis
  proof cases
    case 2
    obtain e k where k: "validateKubernetes (tc_Kubernetes t) = (e, k)" by fastforce
    with validateKubernetes_idem [of "tc_Kubernetes t"] 2 assms show ?thesis
      by (simp add: validateTransport_def)
  qed (auto simp: validateTransport_def)
qed

lemma build_loop_ok:
  "list_all spec_ok us \<Longrightarrow> build_loop i us = Inr (map build_upstream us)"
  by (induction us arbitrary: i) (auto simp: spec_ok_def)

lemma config_ok_transport:
  "config_ok (c\<lparr>cf_Transport := t\<rparr>) \<longleftrightarrow> config_ok (c\<lparr>cf_Transport := t'\<rparr>)"
  if "transport_ok t" "transport_ok t'"
  using that by (simp add: config_ok_def limits_ok_def names_ok_def)


definition ex_config :: Config where
  "ex_config = Defaults\<lparr>cf_Transport := \<lparr>tc_Type = [], tc_Kubernetes = Kubernetes_zero\<rparr>,
     cf_Upstreams := [\<lparr>sp_ID = [], sp_Host = ''10.0.0.1'', sp_Port = 1080, sp_Username = [],
       sp_Password = [], sp_Weight = 0, sp_Priority = 0\<rparr>]\<rparr>"

lemma ex_config_ok: "config_ok ex_config"
proof -
  have "ToLower (TrimSpace ''least-active'') = ''least-active''" by code_simp
  moreover have "SplitHostPort ''127.0.0.1:1080'' = Inr (''127.0.0.1'', ''1080'')" by code_simp
  ultimately show ?thesis
    by (simp add: config_ok_def limits_ok_def names_ok_def transport_ok_def ex_config_def Defaults_def
        seconds_def validStrategyNames_def spec_ok_def explicit_ids_def config_consts)
qed


end
