(* ===== verification/Upstream_Parse.thy ===== *)
theory Upstream_Parse
  imports Config
begin

text \<open>
  The parser of upstream specifications given on the command line,
  \<^verbatim>\<open>internal/config/upstream_parse.go\<close>.  The URL form goes through \<^verbatim>\<open>net/url\<close>: what \<open>ParseUpstream\<close> reads
  of a parsed URL (scheme, credentials, host, query values) is the record \<open>URL\<close>, and the
  library's parser is the argument \<open>url_Parse\<close>.

  The lemmas show that whatever is accepted has a port and a weight in range and an
  identifier, and that the textual form of an upstream is parsed back into it.
\<close>

section \<open>The parser\<close>

record URL =
  url_Scheme :: string
  url_User :: "(string \<times> string option) option"
  url_Host :: string
  url_Query :: "(string \<times> string) list"

text \<open>\<^verbatim>\<open>Values.Get\<close>: the first value of a key, or the empty string.\<close>

definition query_Get :: "(string \<times> string) list \<Rightarrow> string \<Rightarrow> string" where
  "query_Get q k = (case map_of q k of None \<Rightarrow> [] | Some v \<Rightarrow> v)"

definition parsePort :: "string \<Rightarrow> gerror + int" where
  "parsePort portStr =
     (case Atoi portStr of
        Inl err \<Rightarrow> Inl (Errorf ''port %q: %w'' [FStr portStr, FErr err])
      | Inr port \<Rightarrow>
          if port < 1 \<or> 65535 < port
          then Inl (Errorf ''port %d out of range [1,65535]'' [FInt port]) else Inr port)"

definition set_weight :: "string \<Rightarrow> Upstream \<Rightarrow> gerror + Upstream" where
  "set_weight v u =
     (case Atoi v of
        Inl err \<Rightarrow> Inl (Errorf ''invalid weight %q: %w'' [FStr v, FErr err])
      | Inr n \<Rightarrow> if n \<le> 0 then Inl (Errorf ''weight must be > 0, got %d'' [FInt n])
                 else Inr (u\<lparr>up_Weight := n\<rparr>))"

definition set_priority :: "string \<Rightarrow> Upstream \<Rightarrow> gerror + Upstream" where
  "set_priority v u =
     (case Atoi v of
        Inl err \<Rightarrow> Inl (Errorf ''invalid priority %q: %w'' [FStr v, FErr err])
      | Inr n \<Rightarrow> Inr (u\<lparr>up_Priority := n\<rparr>))"

definition applyQuery :: "(string \<times> string) list \<Rightarrow> Upstream \<Rightarrow> gerror + Upstream" where
  "applyQuery q u =
     (let w = query_Get q ''weight''; p = query_Get q ''priority''; i = query_Get q ''id'' in
      case (if w \<noteq> [] then set_weight w u else Inr u) of
        Inl e \<Rightarrow> Inl e
      | Inr u1 \<Rightarrow>
          (case (if p \<noteq> [] then set_priority p u1 else Inr u1) of
             Inl e \<Rightarrow> Inl e
           | Inr u2 \<Rightarrow> Inr (if i \<noteq> [] then u2\<lparr>up_ID := i\<rparr> else u2)))"

fun apply_pairs :: "string list \<Rightarrow> Upstream \<Rightarrow> gerror + Upstream" where
  "apply_pairs [] u = Inr u"
| "apply_pairs (kv # kvs) u =
     (case cut CHR ''='' kv of
        None \<Rightarrow> Inl (Errorf ''invalid shorthand pair %q'' [FStr kv])
      | Some (k, v) \<Rightarrow>
          (let key = TrimSpace k; val = TrimSpace v in
           case (if key = ''w'' \<or> key = ''weight'' then set_weight val u
                 else if key = ''p'' \<or> key = ''priority'' then set_priority val u
                 else if key = ''id'' then Inr (u\<lparr>up_ID := val\<rparr>)
                 else Inl (Errorf ''unknown shorthand key %q'' [FStr key])) of
             Inl e \<Rightarrow> Inl e
           | Inr u' \<Rightarrow> apply_pairs kvs u'))"

definition applyShorthand :: "string \<Rightarrow> Upstream \<Rightarrow> gerror + Upstream" where
  "applyShorthand s u = apply_pairs (split_on CHR '','' s) u"

definition set_host_port :: "string \<Rightarrow> string \<Rightarrow> Upstream \<Rightarrow> gerror + Upstream" where
  "set_host_port host portStr u =
     (case parsePort portStr of
        Inl err \<Rightarrow> Inl err
      | Inr port \<Rightarrow> Inr (u\<lparr>up_Host := host, up_Port := port\<rparr>))"

definition parseURLForm :: "(string \<Rightarrow> gerror + URL) \<Rightarrow> string \<Rightarrow> Upstream \<Rightarrow> gerror + Upstream" where
  "parseURLForm url_Parse spec u =
     (case url_Parse spec of
        Inl err \<Rightarrow> Inl err
      | Inr p \<Rightarrow>
          if url_Scheme p \<noteq> ''socks5'' \<and> url_Scheme p \<noteq> ''socks5h''
          then Inl (Errorf ''unsupported scheme %q'' [FStr (url_Scheme p)])
          else
            let u1 = (case url_User p of
                        None \<Rightarrow> u
                      | Some (name, None) \<Rightarrow> u\<lparr>up_Username := name\<rparr>
                      | Some (name, Some pw) \<Rightarrow> u\<lparr>up_Username := name, up_Password := pw\<rparr>)
            in case SplitHostPort (url_Host p) of
                 Inl err \<Rightarrow> Inl err
               | Inr (host, portStr) \<Rightarrow>
                   (case set_host_port host portStr u1 of
                      Inl err \<Rightarrow> Inl err
                    | Inr u2 \<Rightarrow> applyQuery (url_Query p) u2))"

definition parseHostForm :: "string \<Rightarrow> Upstream \<Rightarrow> gerror + Upstream" where
  "parseHostForm spec u =
     (let (hp, u1) =
        (case last_index CHR ''@'' spec of
           None \<Rightarrow> (spec, u)
         | Some a \<Rightarrow>
             (drop (Suc a) spec,
              case cut CHR '':'' (take a spec) of
                Some (before, after) \<Rightarrow> u\<lparr>up_Username := before, up_Password := after\<rparr>
              | None \<Rightarrow> u\<lparr>up_Username := take a spec\<rparr>))
      in case SplitHostPort hp of
           Inl err \<Rightarrow> Inl (Errorf ''split host:port %q: %w'' [FStr hp, FErr err])
         | Inr (host, portStr) \<Rightarrow> set_host_port host portStr u1)"

definition parse_init :: Upstream where
  "parse_init = \<lparr>up_ID = [], up_Host = [], up_Port = 0, up_Username = [], up_Password = [],
     up_Weight = 1, up_Priority = 0, up_State = NewState\<rparr>"

definition ParseUpstream :: "(string \<Rightarrow> gerror + URL) \<Rightarrow> string \<Rightarrow> gerror + Upstream" where
  "ParseUpstream url_Parse spec0 =
     (let (r, spec) =
        (case index_of CHR ''#'' spec0 of
           None \<Rightarrow> (Inr parse_init, spec0)
         | Some h \<Rightarrow> (applyShorthand (drop (Suc h) spec0) parse_init, take h spec0))
      in case r of
           Inl err \<Rightarrow> Inl (Errorf ''shorthand: %w'' [FErr err])
         | Inr u \<Rightarrow>
             map_sum id NormalizeID
               (if contains spec ''://'' then parseURLForm url_Parse spec u
                else parseHostForm spec u))"

section \<open>What is accepted is well formed\<close>

lemma set_weight_Inr: "set_weight v u = Inr u' \<Longrightarrow> \<exists>n>0. u' = u\<lparr>up_Weight := n\<rparr>"
  by (auto simp: set_weight_def not_le split: sum.splits if_splits)

lemma set_priority_Inr: "set_priority v u = Inr u' \<Longrightarrow> \<exists>n. u' = u\<lparr>up_Priority := n\<rparr>"
  by (auto simp: set_priority_def split: sum.splits)

lemma set_host_port_Inr:
  "set_host_port h p u = Inr u' \<Longrightarrow> \<exists>n. 1 \<le> n \<and> n \<le> 65535 \<and> u' = u\<lparr>up_Host := h, up_Port := n\<rparr>"
  by (auto simp: set_host_port_def parsePort_def not_less split: sum.splits if_splits)

lemma apply_pairs_weight:
  "apply_pairs kvs u = Inr u' \<Longrightarrow> 0 < up_Weight u \<Longrightarrow> 0 < up_Weight u' \<and> up_State u' = up_State u"
  by (induction kvs arbitrary: u)
    (auto simp: Let_def split: option.splits sum.splits if_splits dest!: set_weight_Inr set_priority_Inr)

lemma applyQuery_weight:
  "applyQuery q u = Inr u' \<Longrightarrow> 0 < up_Weight u \<Longrightarrow>
   0 < up_Weight u' \<and> up_Port u' = up_Port u \<and> up_State u' = up_State u"
  by (auto simp: applyQuery_def Let_def split: sum.splits if_splits dest!: set_weight_Inr set_priority_Inr)

definition parsed_ok :: "Upstream \<Rightarrow> bool" where
  "parsed_ok u \<longleftrightarrow> 1 \<le> up_Port u \<and> up_Port u \<le> 65535 \<and> 0 < up_Weight u \<and> up_State u = NewState"

lemma parseURLForm_ok:
  "parseURLForm url_Parse spec u = Inr u' \<Longrightarrow> 0 < up_Weight u \<Longrightarrow> up_State u = NewState \<Longrightarrow> parsed_ok u'"
  by (auto simp: parseURLForm_def parsed_ok_def Let_def split: sum.splits if_splits option.splits
      dest!: set_host_port_Inr applyQuery_weight)

lemma parseHostForm_ok:
  "parseHostForm spec u = Inr u' \<Longrightarrow> 0 < up_Weight u \<Longrightarrow> up_State u = NewState \<Longrightarrow> parsed_ok u'"
  by (auto simp: parseHostForm_def parsed_ok_def Let_def split: sum.splits option.splits
      dest!: set_host_port_Inr)

lemma parse_main_ok:
  assumes "map_sum id NormalizeID (if contains spec ''://'' then parseURLForm url_Parse spec u0
      else parseHostForm spec u0) = Inr u"
    and "0 < up_Weight u0" and "up_State u0 = NewState"
  shows "parsed_ok u \<and> up_ID u \<noteq> []"
proof -
  from assms(1) obtain u1 where u: "u = NormalizeID u1"
    and "parseURLForm url_Parse spec u0 = Inr u1 \<or> parseHostForm spec u0 = Inr u1"
    by (cases "parseURLForm url_Parse spec u0"; cases "parseHostForm spec u0") (auto split: if_splits)
  then have "parsed_ok u1" using parseURLForm_ok parseHostForm_ok assms(2,3) by blast
  then show ?thesis using NormalizeID_nonempty [of u1] by (simp add: parsed_ok_def u NormalizeID_def)
qed

text \<open>C36. Whatever \<open>ParseUpstream\<close> accepts, in any of its forms and with any URL parser, has a port in
  [1,65535], a positive weight, a non-empty identifier and a fresh state.\<close>

theorem ParseUpstream_ok:
  assumes "ParseUpstream url_Parse spec = Inr u"
  shows "1 \<le> up_Port u \<and> up_Port u \<le> 65535 \<and> 0 < up_Weight u \<and> up_ID u \<noteq> [] \<and> up_State u = NewState"
proof -
  have init: "0 < up_Weight parse_init" "up_State parse_init = NewState"
    by (simp_all add: parse_init_def)
  have "parsed_ok u \<and> up_ID u \<noteq> []"
  proof (cases "index_of CHR ''#'' spec")
    case None
    with assms show ?thesis
      unfolding ParseUpstream_def by (intro parse_main_ok [OF _ init]) simp
  next
    case (Some h)
    with assms obtain u0 where u0: "apply_pairs (split_on CHR '','' (drop (Suc h) spec)) parse_init = Inr u0"
      by (cases "applyShorthand (drop (Suc h) spec) parse_init")
        (simp_all add: ParseUpstream_def applyShorthand_def)
    with assms Some show ?thesis
      using apply_pairs_weight [OF u0 init(1)] init(2)
      by (intro parse_main_ok [of "take h spec" url_Parse u0])
        (simp_all add: ParseUpstream_def applyShorthand_def)
  qed
  then show ?thesis by (simp add: parsed_ok_def)
qed

section \<open>Printing and parsing\<close>

definition print_upstream :: "Upstream \<Rightarrow> string" where
  "print_upstream u =
     up_Username u @ '':'' @ up_Password u @ ''@'' @ Addr u @
     ''#w='' @ Itoa (up_Weight u) @ '',p='' @ Itoa (up_Priority u) @ '',id='' @ up_ID u"

definition clean_host :: "string \<Rightarrow> bool" where
  "clean_host h \<longleftrightarrow> (\<forall>c\<in>set h. c \<notin> {CHR ''['', CHR '']'', CHR ''@'', CHR ''#'', CHR ''/''})"

definition printable_upstream :: "Upstream \<Rightarrow> bool" where
  "printable_upstream u \<longleftrightarrow> clean_host (up_Host u) \<and>
     CHR '':'' \<notin> set (up_Username u) \<and> set (up_Username u) \<inter> {CHR ''#'', CHR ''/''} = {} \<and>
     set (up_Password u) \<inter> {CHR ''#'', CHR ''/''} = {} \<and>
     1 \<le> up_Port u \<and> up_Port u \<le> 65535 \<and> 0 < up_Weight u \<and> up_Weight u < 2 ^ 63 \<and>
     - (2 ^ 63) \<le> up_Priority u \<and> up_Priority u < 2 ^ 63 \<and>
     up_ID u \<noteq> [] \<and> CHR '','' \<notin> set (up_ID u) \<and> plain_char (hd (up_ID u)) \<and> plain_char (last (up_ID u)) \<and>
     up_State u = NewState"

lemma Itoa_free: "\<not> is_digit c \<Longrightarrow> c \<noteq> CHR ''-'' \<Longrightarrow> c \<notin> set (Itoa z)"
  using Itoa_chars by blast

lemma not_digit [simp]:
  "\<not> is_digit CHR '':''" "\<not> is_digit CHR ''['' " "\<not> is_digit CHR '']''" "\<not> is_digit CHR '',''"
  "\<not> is_digit CHR ''#''" "\<not> is_digit CHR ''/''" "\<not> is_digit CHR ''@''" "\<not> is_digit CHR ''=''"
  by (simp_all add: is_digit_def)

lemma SplitHostPort_Addr:
  assumes "\<forall>c\<in>set (up_Host u). c \<noteq> CHR ''['' \<and> c \<noteq> CHR '']''"
  shows "SplitHostPort (Addr u) = Inr (up_Host u, Itoa (up_Port u))"
proof (cases "CHR '':'' \<in> set (up_Host u)")
  case True
  then have "up_Host u \<noteq> []" by auto
  with True assms have "Addr u = CHR ''['' # up_Host u @ CHR '']'' # CHR '':'' # Itoa (up_Port u)"
    by (auto simp: Addr_def contains_single has_prefix_single)
  with assms show ?thesis
    using SplitHostPort_brackets [of "up_Host u" "Itoa (up_Port u)"] by (auto simp: Itoa_free)
next
  case False
  then have "Addr u = up_Host u @ CHR '':'' # Itoa (up_Port u)"
    by (simp add: Addr_def contains_single)
  with assms False show ?thesis
    using SplitHostPort_plain [of "up_Host u" "Itoa (up_Port u)"] by (auto simp: Itoa_free)
qed

lemma applyShorthand_print:
  assumes "printable_upstream u"
  shows "applyShorthand (''w='' @ Itoa (up_Weight u) @ '',p='' @ Itoa (up_Priority u) @ '',id='' @ up_ID u) v =
    Inr (v\<lparr>up_Weight := up_Weight u, up_Priority := up_Priority u, up_ID := up_ID u\<rparr>)"
proof -
  let ?w = "''w='' @ Itoa (up_Weight u)" and ?p = "''p='' @ Itoa (up_Priority u)" and ?i = "''id='' @ up_ID u"
  have c: "CHR '','' \<notin> set ?w" "CHR '','' \<notin> set ?p" "CHR '','' \<notin> set ?i"
    using assms by (auto simp: printable_upstream_def Itoa_free)
  have "split_on CHR '','' (?w @ CHR '','' # ?p @ CHR '','' # ?i) = [?w, ?p, ?i]"
    by (simp only: split_on_append [OF c(1)] split_on_append [OF c(2)] split_on_single [OF c(3)])
  moreover have "cut CHR ''='' ?w = Some (''w'', Itoa (up_Weight u))"
    "cut CHR ''='' ?p = Some (''p'', Itoa (up_Priority u))" "cut CHR ''='' ?i = Some (''id'', up_ID u)"
    using cut_append [of "CHR ''=''" "''w''"] cut_append [of "CHR ''=''" "''p''"]
      cut_append [of "CHR ''=''" "''id''"] by simp_all
  moreover have "TrimSpace ''w'' = ''w''" "TrimSpace ''p'' = ''p''" "TrimSpace ''id'' = ''id''"
    "TrimSpace (up_ID u) = up_ID u"
    using assms by (auto intro!: TrimSpace_id simp: printable_upstream_def) (simp_all add: plain_char_def)
  ultimately show ?thesis
    using assms by (simp add: applyShorthand_def set_weight_def set_priority_def Atoi_Itoa
        printable_upstream_def)
qed

lemma ParseUpstream_hash:
  assumes "CHR ''#'' \<notin> set spec"
  shows "ParseUpstream url_Parse (spec @ CHR ''#'' # opts) =
    (case applyShorthand opts parse_init of
       Inl err \<Rightarrow> Inl (Errorf ''shorthand: %w'' [FErr err])
     | Inr u \<Rightarrow> map_sum id NormalizeID
         (if contains spec ''://'' then parseURLForm url_Parse spec u else parseHostForm spec u))"
  using assms by (simp add: ParseUpstream_def)

lemma ParseUpstream_print:
  assumes "printable_upstream u"
  shows "ParseUpstream url_Parse (print_upstream u) = Inr u"
proof -
  let ?main = "(up_Username u @ '':'' @ up_Password u) @ CHR ''@'' # Addr u"
  let ?opts = "''w='' @ Itoa (up_Weight u) @ '',p='' @ Itoa (up_Priority u) @ '',id='' @ up_ID u"
  have split: "print_upstream u = ?main @ CHR ''#'' # ?opts" by (simp add: print_upstream_def)
  have host: "clean_host (up_Host u)" and user: "set (up_Username u) \<inter> {CHR ''#'', CHR ''/''} = {}"
    and pass: "set (up_Password u) \<inter> {CHR ''#'', CHR ''/''} = {}"
    using assms by (simp_all add: printable_upstream_def)
  from host have "CHR ''#'' \<notin> set (up_Host u)" "CHR ''/'' \<notin> set (up_Host u)" "CHR ''@'' \<notin> set (up_Host u)"
    by (auto simp: clean_host_def)
  then have addr: "CHR ''#'' \<notin> set (Addr u)" "CHR ''/'' \<notin> set (Addr u)" "CHR ''@'' \<notin> set (Addr u)"
    by (simp_all add: Addr_def Itoa_free)
  with user pass have free: "CHR ''#'' \<notin> set ?main" "CHR ''/'' \<notin> set ?main" "CHR ''@'' \<notin> set (Addr u)"
    by simp_all
  have nourl: "\<not> contains ?main ''://''" using contains_subset [of ?main "''://''"] free(2) by auto
  have "SplitHostPort (Addr u) = Inr (up_Host u, Itoa (up_Port u))"
    using assms by (intro SplitHostPort_Addr) (auto simp: printable_upstream_def clean_host_def)
  moreover have "parsePort (Itoa (up_Port u)) = Inr (up_Port u)"
    using assms by (simp add: parsePort_def Atoi_Itoa printable_upstream_def)
  ultimately have "parseHostForm ?main v = Inr (v\<lparr>up_Username := up_Username u, up_Password := up_Password u,
      up_Host := up_Host u, up_Port := up_Port u\<rparr>)" for v
    using assms last_index_append [OF free(3), of "up_Username u @ '':'' @ up_Password u"]
      cut_append [of "CHR '':''" "up_Username u" "up_Password u"]
    by (simp add: parseHostForm_def set_host_port_def printable_upstream_def)
  then have "ParseUpstream url_Parse (print_upstream u) = Inr (NormalizeID
      (parse_init\<lparr>up_Weight := up_Weight u, up_Priority := up_Priority u, up_ID := up_ID u,
        up_Username := up_Username u, up_Password := up_Password u, up_Host := up_Host u, up_Port := up_Port u\<rparr>))"
    unfolding split ParseUpstream_hash [OF free(1)] applyShorthand_print [OF assms]
    using nourl by (simp only: sum.case if_False map_sum.simps)
  then show ?thesis
    using assms by (simp add: NormalizeID_def printable_upstream_def parse_init_def)
qed

text \<open>C33. An upstream written in the form \<^verbatim>\<open>user:pass@host:port#w=N,p=N,id=foo\<close> is parsed back into
  exactly that upstream, for IPv4, IPv6 and named hosts, as long as its parts avoid the
  characters the form uses as separators.\<close>

theorem ParseUpstream_roundtrip:
  assumes "printable_upstream u"
  shows "ParseUpstream url_Parse (print_upstream u) = Inr u"
  by (rule ParseUpstream_print [OF assms])

definition no_url :: "string \<Rightarrow> gerror + URL" where
  "no_url s = Inl (errors_New ''no url'')"

definition ex_parsed :: Upstream where
  "ex_parsed = \<lparr>up_ID = ''x'', up_Host = ''::1'', up_Port = 1080, up_Username = ''u'', up_Password = ''p'',
     up_Weight = 2, up_Priority = 1, up_State = NewState\<rparr>"

lemma ex_parsed_printable: "printable_upstream ex_parsed"
  by (simp add: ex_parsed_def printable_upstream_def clean_host_def plain_char_def)

lemma ex_parsed_print: "print_upstream ex_parsed = ''u:p@[::1]:1080#w=2,p=1,id=x''"
  by code_simp

theorem ParseUpstream_roundtrip_witness:
  "ParseUpstream no_url ''u:p@[::1]:1080#w=2,p=1,id=x'' = Inr ex_parsed"
  using ParseUpstream_roundtrip [OF ex_parsed_printable] unfolding ex_parsed_print .

theorem ParseUpstream_ok_witness:
  "ParseUpstream no_url ''u:p@[::1]:1080#w=2,p=1,id=x'' = Inr ex_parsed \<and> 0 < up_Weight ex_parsed \<and>
   up_ID ex_parsed \<noteq> []"
proof -
  have run: "ParseUpstream no_url ''u:p@[::1]:1080#w=2,p=1,id=x'' = Inr ex_parsed"
    using ParseUpstream_print [OF ex_parsed_printable] unfolding ex_parsed_print .
  with ParseUpstream_ok [OF run] show ?thesis by blast
qed

end
