(* ===== verification/Multiconfig.thy ===== *)
theory Multiconfig
  imports Config
begin

text \<open>
  Configurations with several upstream groups, \<^verbatim>\<open>internal/config/multiconfig.go\<close>: the
  per-group overrides, their merge with the global defaults and the validation across
  groups.  An \<^verbatim>\<open>optionalDuration\<close> and a pointer field are options, \<^const>\<open>None\<close> meaning
  "inherit"; a string or list field inherits when it is empty.
\<close>

section \<open>Groups\<close>

type_synonym optionalDuration = "int option"

record GroupConfig =
  gc_Name :: string
  gc_Listen :: string
  gc_MaxPerProxy :: "int option"
  gc_MaxClients :: "int option"
  gc_HealthInterval :: optionalDuration
  gc_RetryBackoff :: optionalDuration
  gc_ConnectTimeout :: optionalDuration
  gc_HandshakeTimeout :: optionalDuration
  gc_QueueWaitTimeout :: optionalDuration
  gc_FailureThreshold :: "int option"
  gc_FailureWindow :: optionalDuration
  gc_IdleTimeout :: optionalDuration
  gc_DrainSoftTimeout :: optionalDuration
  gc_DrainHardTimeout :: optionalDuration
  gc_TCPKeepAlive :: "bool option"
  gc_Strategy :: string
  gc_HashKey :: HashKey
  gc_Backpressure :: BackpressureStrategy
  gc_AdmissionWaitTimeout :: optionalDuration
  gc_UDPEnabled :: "bool option"
  gc_UDPBindAddr :: string
  gc_UDPIdleTimeout :: optionalDuration
  gc_Transport :: "TransportConfig option"
  gc_Upstreams :: "UpstreamSpec list"

record MultiConfig =
  mc_Config :: Config
  mc_Groups :: "GroupConfig list"

text \<open>\<^verbatim>\<open>if g.X.set { eff.X = g.X.d }\<close> and \<^verbatim>\<open>if g.X != "" { eff.X = g.X }\<close>.\<close>

definition override :: "'a option \<Rightarrow> 'a \<Rightarrow> 'a" where
  "override x dflt = (case x of Some v \<Rightarrow> v | None \<Rightarrow> dflt)"

definition override_list :: "'a list \<Rightarrow> 'a list \<Rightarrow> 'a list" where
  "override_list xs dflt = (if xs \<noteq> [] then xs else dflt)"

definition effective_group :: "Config \<Rightarrow> GroupConfig \<Rightarrow> Config" where
  "effective_group c g = c\<lparr>
     cf_ListenAddr := override_list (gc_Listen g) (cf_ListenAddr c),
     cf_MaxPerProxy := override (gc_MaxPerProxy g) (cf_MaxPerProxy c),
     cf_MaxClients := override (gc_MaxClients g) (cf_MaxClients c),
     cf_HealthInterval := override (gc_HealthInterval g) (cf_HealthInterval c),
     cf_RetryBackoff := override (gc_RetryBackoff g) (cf_RetryBackoff c),
     cf_ConnectTimeout := override (gc_ConnectTimeout g) (cf_ConnectTimeout c),
     cf_HandshakeTimeout := override (gc_HandshakeTimeout g) (cf_HandshakeTimeout c),
     cf_QueueWaitTimeout := override (gc_QueueWaitTimeout g) (cf_QueueWaitTimeout c),
     cf_FailureThreshold := override (gc_FailureThreshold g) (cf_FailureThreshold c),
     cf_FailureWindow := override (gc_FailureWindow g) (cf_FailureWindow c),
     cf_IdleTimeout := override (gc_IdleTimeout g) (cf_IdleTimeout c),
     cf_DrainSoftTimeout := override (gc_DrainSoftTimeout g) (cf_DrainSoftTimeout c),
     cf_DrainHardTimeout := override (gc_DrainHardTimeout g) (cf_DrainHardTimeout c),
     cf_TCPKeepAlive := override (gc_TCPKeepAlive g) (cf_TCPKeepAlive c),
     cf_Strategy := override_list (gc_Strategy g) (cf_Strategy c),
     cf_HashKey := override_list (gc_HashKey g) (cf_HashKey c),
     cf_Backpressure := override_list (gc_Backpressure g) (cf_Backpressure c),
     cf_AdmissionWaitTimeout := override (gc_AdmissionWaitTimeout g) (cf_AdmissionWaitTimeout c),
     cf_UDPEnabled := override (gc_UDPEnabled g) (cf_UDPEnabled c),
     cf_UDPBindAddr := override_list (gc_UDPBindAddr g) (cf_UDPBindAddr c),
     cf_UDPIdleTimeout := override (gc_UDPIdleTimeout g) (cf_UDPIdleTimeout c),
     cf_Transport := override (gc_Transport g) (cf_Transport c),
     cf_Upstreams := override_list (gc_Upstreams g) (cf_Upstreams c),
     cf_GroupName := gc_Name g\<rparr>"

definition EffectiveGroups :: "MultiConfig \<Rightarrow> Config list" where
  "EffectiveGroups mc =
     (if mc_Groups mc = [] then
        [if cf_GroupName (mc_Config mc) = [] then (mc_Config mc)\<lparr>cf_GroupName := ''default''\<rparr>
         else mc_Config mc]
      else map (effective_group (mc_Config mc)) (mc_Groups mc))"

definition GroupNames :: "MultiConfig \<Rightarrow> string list" where
  "GroupNames mc =
     (if mc_Groups mc = [] then
        [if cf_GroupName (mc_Config mc) = [] then ''default'' else cf_GroupName (mc_Config mc)]
      else map gc_Name (mc_Groups mc))"

section \<open>Validation\<close>

fun validate_names :: "nat \<Rightarrow> string set \<Rightarrow> GroupConfig list \<Rightarrow> gerror option" where
  "validate_names i seen [] = None"
| "validate_names i seen (g # gs) =
     (if gc_Name g = [] then Some (Errorf ''groups[%d]: name is required'' [FInt (int i)])
      else if gc_Name g \<in> seen
      then Some (Errorf ''groups[%d]: duplicate group name %q'' [FInt (int i), FStr (gc_Name g)])
      else validate_names (Suc i) (insert (gc_Name g) seen) gs)"

text \<open>The list carries each effective configuration with the name of its group.\<close>

fun validate_groups :: "(string \<rightharpoonup> string) \<Rightarrow> (Config \<times> string) list \<Rightarrow> gerror option" where
  "validate_groups listenAddrs [] = None"
| "validate_groups listenAddrs ((eff, name) # rest) =
     (case fst (Validate eff) of
        Some err \<Rightarrow> Some (Errorf ''group %q: %w'' [FStr name, FErr err])
      | None \<Rightarrow>
          (case listenAddrs (cf_ListenAddr eff) of
             Some first \<Rightarrow>
               Some (Errorf ''group %q: listen addr %q already used by group %q''
                 [FStr name, FStr (cf_ListenAddr eff), FStr first])
           | None \<Rightarrow> validate_groups (listenAddrs(cf_ListenAddr eff \<mapsto> name)) rest))"

definition MultiConfig_Validate :: "MultiConfig \<Rightarrow> gerror option \<times> MultiConfig" where
  "MultiConfig_Validate mc =
     (if mc_Groups mc = [] then
        (case Validate (mc_Config mc) of (e, c) \<Rightarrow> (e, mc\<lparr>mc_Config := c\<rparr>))
      else
        (case validate_names 0 {} (mc_Groups mc) of
           Some e \<Rightarrow> (Some e, mc)
         | None \<Rightarrow>
             (validate_groups Map.empty (zip (EffectiveGroups mc) (map gc_Name (mc_Groups mc))), mc)))"

definition LoadMultiFile ::
  "(string \<Rightarrow> gerror + byte list) \<Rightarrow> (byte list \<Rightarrow> MultiConfig \<Rightarrow> gerror + MultiConfig) \<Rightarrow>
     string \<Rightarrow> gerror + MultiConfig" where
  "LoadMultiFile readFile unmarshal path =
     (case readFile path of
        Inl err \<Rightarrow> Inl (Errorf ''read config %s: %w'' [FStr path, FErr err])
      | Inr raw \<Rightarrow>
          (case unmarshal raw \<lparr>mc_Config = Defaults, mc_Groups = []\<rparr> of
             Inl err \<Rightarrow> Inl (Errorf ''parse config %s: %w'' [FStr path, FErr err])
           | Inr mc \<Rightarrow> Inr (mc\<lparr>mc_Config := finish_load (mc_Config mc)\<rparr>)))"

section \<open>Correctness\<close>

lemma validate_names_None:
  "validate_names i seen gs = None \<longleftrightarrow>
     (\<forall>g\<in>set gs. gc_Name g \<noteq> []) \<and> distinct (map gc_Name gs) \<and> gc_Name ` set gs \<inter> seen = {}"
  by (induction gs arbitrary: i seen) auto

lemma validate_groups_None:
  "validate_groups m effs = None \<longleftrightarrow>
     list_all config_ok (map fst effs) \<and> distinct (map (\<lambda>e. cf_ListenAddr (fst e)) effs) \<and>
     (\<lambda>e. cf_ListenAddr (fst e)) ` set effs \<inter> dom m = {}"
proof (induction effs arbitrary: m)
  case (Cons en effs)
  obtain eff n where en: "en = (eff, n)" by fastforce
  show ?case
  proof (cases "config_ok eff \<and> m (cf_ListenAddr eff) = None")
    case True
    then have "fst (Validate eff) = None" by (simp add: Validate_None)
    with True have run: "validate_groups m (en # effs) = validate_groups (m(cf_ListenAddr eff \<mapsto> n)) effs"
      by (simp add: en)
    have upd: "A \<inter> dom (m(cf_ListenAddr eff \<mapsto> n)) = {} \<longleftrightarrow> cf_ListenAddr eff \<notin> A \<and> A \<inter> dom m = {}" for A
      by (simp add: disjoint_insert)
    have "cf_ListenAddr eff \<notin> dom m" using True by (simp add: domIff)
    then show ?thesis
      unfolding run Cons.IH upd using True by (simp add: en) argo
  next
    case False
    then show ?thesis
      using Validate_None [of eff] by (auto simp: en split: option.split)
  qed
qed simp

text \<open>C34. A multi-group configuration is accepted exactly when every group has a name of its own, every
  effective group configuration is valid on its own and no two groups listen on the same
  address; without groups, exactly when the embedded configuration is valid.\<close>

theorem MultiConfig_Validate_exact:
  "fst (MultiConfig_Validate mc) = None \<longleftrightarrow>
     list_all config_ok (EffectiveGroups mc) \<and> distinct (map cf_ListenAddr (EffectiveGroups mc)) \<and>
     distinct (GroupNames mc) \<and> list_all (\<lambda>n. n \<noteq> []) (GroupNames mc)"
proof (cases "mc_Groups mc = []")
  case True
  have "config_ok (c\<lparr>cf_GroupName := n\<rparr>) = config_ok c" for c n
    by (simp add: config_ok_def limits_ok_def names_ok_def)
  with True show ?thesis
    using Validate_None [of "mc_Config mc"]
    by (auto simp: MultiConfig_Validate_def EffectiveGroups_def GroupNames_def split: prod.splits)
next
  case False
  let ?c = "mc_Config mc" and ?gs = "mc_Groups mc"
  have z: "zip (map (effective_group ?c) ?gs) (map gc_Name ?gs) = map (\<lambda>g. (effective_group ?c g, gc_Name g)) ?gs"
    by (simp add: zip_map_map zip_same_conv_map)
  have "validate_groups Map.empty (map (\<lambda>g. (effective_group ?c g, gc_Name g)) ?gs) = None \<longleftrightarrow>
      list_all config_ok (map (effective_group ?c) ?gs) \<and> distinct (map cf_ListenAddr (map (effective_group ?c) ?gs))"
    by (simp add: validate_groups_None comp_def list_all_iff)
  moreover have "validate_names 0 {} ?gs = None \<longleftrightarrow> distinct (map gc_Name ?gs) \<and> list_all (\<lambda>n. n \<noteq> []) (map gc_Name ?gs)"
    by (auto simp: validate_names_None list_all_iff)
  ultimately show ?thesis
    using False by (auto simp: MultiConfig_Validate_def EffectiveGroups_def GroupNames_def z split: option.splits)
qed

lemma effective_group_sel [simp]:
  "cf_GroupName (effective_group c g) = gc_Name g"
  "cf_AdminAddr (effective_group c g) = cf_AdminAddr c"
  "cf_OTel (effective_group c g) = cf_OTel c"
  "cf_LogLevel (effective_group c g) = cf_LogLevel c"
  "cf_LogFormat (effective_group c g) = cf_LogFormat c"
  "cf_AdminToken (effective_group c g) = cf_AdminToken c"
  "cf_AdminPprof (effective_group c g) = cf_AdminPprof c"
  "cf_UDPAdvertiseAddr (effective_group c g) = cf_UDPAdvertiseAddr c"
  "cf_Upstreams (effective_group c g) = (if gc_Upstreams g = [] then cf_Upstreams c else gc_Upstreams g)"
  "cf_ListenAddr (effective_group c g) = (if gc_Listen g = [] then cf_ListenAddr c else gc_Listen g)"
  "cf_MaxPerProxy (effective_group c g) = (case gc_MaxPerProxy g of None \<Rightarrow> cf_MaxPerProxy c | Some m \<Rightarrow> m)"
  by (simp_all add: effective_group_def override_list_def override_def)

text \<open>Merging keeps the groups in order and under their names, leaves every global-only setting
  (admin address, telemetry, logging, admin credentials) as configured globally, lets a
  group's own upstreams, limits and listen address win and inherits them otherwise.\<close>

theorem EffectiveGroups_merge:
  "map cf_GroupName (EffectiveGroups mc) = GroupNames mc \<and>
   list_all (\<lambda>e. cf_AdminAddr e = cf_AdminAddr (mc_Config mc) \<and> cf_OTel e = cf_OTel (mc_Config mc) \<and>
     cf_LogLevel e = cf_LogLevel (mc_Config mc) \<and> cf_LogFormat e = cf_LogFormat (mc_Config mc) \<and>
     cf_AdminToken e = cf_AdminToken (mc_Config mc) \<and> cf_AdminPprof e = cf_AdminPprof (mc_Config mc) \<and>
     cf_UDPAdvertiseAddr e = cf_UDPAdvertiseAddr (mc_Config mc)) (EffectiveGroups mc) \<and>
   list_all2 (\<lambda>e g. cf_Upstreams e = (if gc_Upstreams g = [] then cf_Upstreams (mc_Config mc) else gc_Upstreams g) \<and>
     cf_ListenAddr e = (if gc_Listen g = [] then cf_ListenAddr (mc_Config mc) else gc_Listen g) \<and>
     cf_MaxPerProxy e = (case gc_MaxPerProxy g of None \<Rightarrow> cf_MaxPerProxy (mc_Config mc) | Some m \<Rightarrow> m))
     (if mc_Groups mc = [] then [] else EffectiveGroups mc) (mc_Groups mc)"
proof (cases "mc_Groups mc = []")
  case True
  then show ?thesis by (simp add: EffectiveGroups_def GroupNames_def)
next
  case False
  then show ?thesis
    by (simp add: EffectiveGroups_def GroupNames_def list_all_iff list.rel_map list.rel_refl comp_def)
qed

end
