(* ===== verification/Strategy.thy ===== *)
theory Strategy
  imports Config
begin

text \<open>
  The load-balancing strategies of \<^verbatim>\<open>internal/strategy\<close>: the \<open>Selector\<close> interface, its nine
  implementations and the registry.

  A selector is a value of the datatype \<open>Selector\<close>; the two stateful ones carry their
  state (the round-robin counter, the smooth weights).  \<open>math/rand/v2\<close> is an arbitrary
  sequence of draws: \<open>IntN n\<close> takes the next one modulo \<open>n\<close>, so that a statement about
  all sequences is a statement about all outcomes.  Scores of the least-latency strategy
  are exact rationals.

  The locale \<open>selector\<close> is the contract the balancer relies on: what is picked is eligible,
  and something is picked whenever something is eligible.  Every strategy is an
  interpretation of it.
\<close>

section \<open>Randomness\<close>

type_synonym rng = "nat \<Rightarrow> nat"

definition IntN :: "nat \<Rightarrow> rng \<Rightarrow> nat \<times> rng" where
  "IntN n g = (g 0 mod n, \<lambda>i. g (Suc i))"

lemma IntN_less: "0 < n \<Longrightarrow> IntN n g = (r, g') \<Longrightarrow> r < n"
  by (auto simp: IntN_def)

section \<open>The interface\<close>

record SelectCtx =
  sc_ClientAddr :: "string option"
  sc_DstHost :: string
  sc_DstPort :: uint16
  sc_HashKey :: HashKey

definition HashInput :: "SelectCtx \<Rightarrow> string" where
  "HashInput sc =
     (if sc_HashKey sc = HashDestination then sc_DstHost sc @ '':'' @ Itoa (uint (sc_DstPort sc))
      else if sc_HashKey sc = HashDestHost then sc_DstHost sc
      else case sc_ClientAddr sc of
        None \<Rightarrow> []
      | Some addr \<Rightarrow>
          (case SplitHostPort addr of Inl _ \<Rightarrow> addr | Inr (host, _) \<Rightarrow> host))"

text \<open>The test every strategy applies to a snapshot.\<close>

definition is_eligible :: "int \<Rightarrow> Snapshot \<Rightarrow> bool" where
  "is_eligible maxPer s \<longleftrightarrow> sn_Healthy s \<and> sn_Active s < maxPer"

definition eligible :: "Snapshot list \<Rightarrow> int \<Rightarrow> Snapshot list" where
  "eligible pool maxPer = filter (is_eligible maxPer) pool"

definition go_weight :: "Snapshot \<Rightarrow> int" where
  "go_weight u = (if sn_Weight u \<le> 0 then 1 else sn_Weight u)"

text \<open>Signed 64-bit arithmetic wraps around.\<close>

definition wrap64 :: "int \<Rightarrow> int" where
  "wrap64 x = (x + 2 ^ 63) mod 2 ^ 64 - 2 ^ 63"

section \<open>The strategies\<close>

subsection \<open>Least active and least latency\<close>

text \<open>
  Both scan the pool for the least score and choose among ties by reservoir sampling.  The
  scan keeps the best ID (empty while there is none), its score, the number of ties and the
  random source.
\<close>

definition least_step ::
  "(Snapshot \<Rightarrow> 'v::linorder) \<Rightarrow> int \<Rightarrow> Snapshot \<Rightarrow> string \<times> 'v \<times> nat \<times> rng \<Rightarrow> string \<times> 'v \<times> nat \<times> rng" where
  "least_step score maxPer u st =
     (case st of (bestID, best, tieCount, g) \<Rightarrow>
        if \<not> is_eligible maxPer u then st
        else if bestID = [] \<or> score u < best then (sn_ID u, score u, 1, g)
        else if score u = best then
          (case IntN (Suc tieCount) g of
             (r, g') \<Rightarrow> (if r = 0 then sn_ID u else bestID, best, Suc tieCount, g'))
        else st)"

definition LeastActive_Pick :: "SelectCtx \<Rightarrow> Snapshot list \<Rightarrow> int \<Rightarrow> rng \<Rightarrow> string \<times> rng" where
  "LeastActive_Pick sc pool maxPer g =
     (case fold (least_step sn_Active maxPer) pool ([], - 1, 0, g) of (bestID, _, _, g') \<Rightarrow> (bestID, g'))"

definition latency_score :: "Snapshot \<Rightarrow> rat" where
  "latency_score u =
     (let lat = (if sn_EWMALatency u \<le> 0 then 1 / 10 ^ 9 else sn_EWMALatency u)
      in lat * of_int (1 + sn_Active u))"

text \<open>The initial best score is only compared once an ID has replaced it.\<close>

definition LeastLatency_Pick :: "SelectCtx \<Rightarrow> Snapshot list \<Rightarrow> int \<Rightarrow> rng \<Rightarrow> string \<times> rng" where
  "LeastLatency_Pick sc pool maxPer g =
     (case fold (least_step latency_score maxPer) pool ([], 0, 0, g) of (bestID, _, _, g') \<Rightarrow> (bestID, g'))"

subsection \<open>Random, weighted random and power of two choices\<close>

definition Random_Pick :: "SelectCtx \<Rightarrow> Snapshot list \<Rightarrow> int \<Rightarrow> rng \<Rightarrow> string \<times> rng" where
  "Random_Pick sc pool maxPer g =
     (let cands = eligible pool maxPer in
      if cands = [] then ([], g)
      else case IntN (length cands) g of (i, g') \<Rightarrow> (sn_ID (cands ! i), g'))"

definition weight_total :: "Snapshot list \<Rightarrow> int" where
  "weight_total cands = foldl (\<lambda>tot u. wrap64 (tot + go_weight u)) 0 cands"

fun weighted_scan :: "int \<Rightarrow> Snapshot list \<Rightarrow> string option" where
  "weighted_scan r [] = None"
| "weighted_scan r (u # us) = (if r < go_weight u then Some (sn_ID u) else weighted_scan (r - go_weight u) us)"

definition WeightedRandom_Pick :: "SelectCtx \<Rightarrow> Snapshot list \<Rightarrow> int \<Rightarrow> rng \<Rightarrow> string \<times> rng" where
  "WeightedRandom_Pick sc pool maxPer g =
     (let cands = eligible pool maxPer in
      if cands = [] then ([], g)
      else
        let tot = weight_total cands in
        if tot \<le> 0
        then (case IntN (length cands) g of (i, g') \<Rightarrow> (sn_ID (cands ! i), g'))
        else
          (case IntN (nat tot) g of
             (r, g') \<Rightarrow>
               (case weighted_scan (int r) cands of
                  Some i \<Rightarrow> (i, g')
                | None \<Rightarrow> (sn_ID (cands ! (length cands - 1)), g'))))"

definition P2C_Pick :: "SelectCtx \<Rightarrow> Snapshot list \<Rightarrow> int \<Rightarrow> rng \<Rightarrow> string \<times> rng" where
  "P2C_Pick sc pool maxPer g =
     (let cands = eligible pool maxPer in
      if length cands = 0 then ([], g)
      else if length cands = 1 then (sn_ID (cands ! 0), g)
      else
        (case IntN (length cands) g of
           (i, g1) \<Rightarrow>
             (case IntN (length cands - 1) g1 of
                (j0, g2) \<Rightarrow>
                  let j = (if i \<le> j0 then Suc j0 else j0); a = cands ! i; b = cands ! j
                  in (if sn_Active a \<le> sn_Active b then sn_ID a else sn_ID b, g2))))"

subsection \<open>Round robin\<close>

fun rr_loop :: "nat \<Rightarrow> uint64 \<Rightarrow> Snapshot list \<Rightarrow> int \<Rightarrow> string \<times> uint64" where
  "rr_loop 0 idx pool maxPer = ([], idx)"
| "rr_loop (Suc attempts) idx pool maxPer =
     (let u = pool ! unat (idx mod of_nat (length pool))
      in if is_eligible maxPer u then (sn_ID u, idx + 1)
         else rr_loop attempts (idx + 1) pool maxPer)"

definition RoundRobin_Pick :: "SelectCtx \<Rightarrow> Snapshot list \<Rightarrow> int \<Rightarrow> uint64 \<Rightarrow> string \<times> uint64" where
  "RoundRobin_Pick sc pool maxPer idx =
     (if length pool = 0 then ([], idx) else rr_loop (length pool) idx pool maxPer)"

subsection \<open>Smooth weighted round robin\<close>

text \<open>A missing key of a Go map reads as zero.\<close>

definition wrr_get :: "(string \<rightharpoonup> int) \<Rightarrow> string \<Rightarrow> int" where
  "wrr_get m i = (case m i of None \<Rightarrow> 0 | Some v \<Rightarrow> v)"

definition wrr_step ::
  "int \<Rightarrow> Snapshot \<Rightarrow> (string \<rightharpoonup> int) \<times> int \<times> string \<times> int \<Rightarrow> (string \<rightharpoonup> int) \<times> int \<times> string \<times> int" where
  "wrr_step maxPer u st =
     (case st of (current, tot, bestID, bestCur) \<Rightarrow>
        if \<not> is_eligible maxPer u then st
        else
          let w = go_weight u;
              cur = wrap64 (wrr_get current (sn_ID u) + w);
              current' = current(sn_ID u \<mapsto> cur);
              tot' = wrap64 (tot + w)
          in if bestID = [] \<or> bestCur < cur then (current', tot', sn_ID u, cur)
             else (current', tot', bestID, bestCur))"

definition WRR_Pick ::
  "SelectCtx \<Rightarrow> Snapshot list \<Rightarrow> int \<Rightarrow> (string \<rightharpoonup> int) \<Rightarrow> string \<times> (string \<rightharpoonup> int)" where
  "WRR_Pick sc pool maxPer current =
     (let pruned = current |` (sn_ID ` set pool) in
      case fold (wrr_step maxPer) pool (pruned, 0, [], 0) of
        (current', tot, bestID, bestCur) \<Rightarrow>
          if bestID = [] then ([], current')
          else (bestID, current'(bestID \<mapsto> wrap64 (bestCur - tot))))"

subsection \<open>Consistent hashing and priority failover\<close>

definition hrw :: "string \<Rightarrow> string \<Rightarrow> uint64" where
  "hrw key target =
     fnv64a_Write (fnv64a_Write (fnv64a_Write fnv64a_New (bytes_of key)) [0]) (bytes_of target)"

definition hrw_step :: "string \<Rightarrow> int \<Rightarrow> Snapshot \<Rightarrow> string \<times> uint64 \<Rightarrow> string \<times> uint64" where
  "hrw_step key maxPer u st =
     (case st of (bestID, bestH) \<Rightarrow>
        if \<not> is_eligible maxPer u then st
        else let h = hrw key (sn_ID u)
             in if bestID = [] \<or> bestH < h then (sn_ID u, h) else st)"

definition ConsistentHash_Pick :: "SelectCtx \<Rightarrow> Snapshot list \<Rightarrow> int \<Rightarrow> string" where
  "ConsistentHash_Pick sc pool maxPer =
     (if length pool = 0 then [] else fst (fold (hrw_step (HashInput sc) maxPer) pool ([], 0)))"

fun PriorityFailover_Pick :: "SelectCtx \<Rightarrow> Snapshot list \<Rightarrow> int \<Rightarrow> string" where
  "PriorityFailover_Pick sc [] maxPer = []"
| "PriorityFailover_Pick sc (u # us) maxPer =
     (if is_eligible maxPer u then sn_ID u else PriorityFailover_Pick sc us maxPer)"

section \<open>Selectors and the registry\<close>

datatype Selector = LeastActive | RoundRobin uint64 | WRR "string \<rightharpoonup> int" | Random | WeightedRandom
  | P2C | LeastLatency | ConsistentHash | PriorityFailover

fun Pick ::
  "SelectCtx \<Rightarrow> Snapshot list \<Rightarrow> int \<Rightarrow> Selector \<times> rng \<Rightarrow> string \<times> (Selector \<times> rng)" where
  "Pick sc pool mx (LeastActive, g) = map_prod id (Pair LeastActive) (LeastActive_Pick sc pool mx g)"
| "Pick sc pool mx (RoundRobin idx, g) = map_prod id (\<lambda>i. (RoundRobin i, g)) (RoundRobin_Pick sc pool mx idx)"
| "Pick sc pool mx (WRR cur, g) = map_prod id (\<lambda>c. (WRR c, g)) (WRR_Pick sc pool mx cur)"
| "Pick sc pool mx (Random, g) = map_prod id (Pair Random) (Random_Pick sc pool mx g)"
| "Pick sc pool mx (WeightedRandom, g) = map_prod id (Pair WeightedRandom) (WeightedRandom_Pick sc pool mx g)"
| "Pick sc pool mx (P2C, g) = map_prod id (Pair P2C) (P2C_Pick sc pool mx g)"
| "Pick sc pool mx (LeastLatency, g) = map_prod id (Pair LeastLatency) (LeastLatency_Pick sc pool mx g)"
| "Pick sc pool mx (ConsistentHash, g) = (ConsistentHash_Pick sc pool mx, (ConsistentHash, g))"
| "Pick sc pool mx (PriorityFailover, g) = (PriorityFailover_Pick sc pool mx, (PriorityFailover, g))"

definition strategy_New :: "string \<Rightarrow> gerror + Selector" where
  "strategy_New name =
     (let n = ToLower (TrimSpace name) in
      if n \<in> {'''', ''least-active'', ''leastconn''} then Inr LeastActive
      else if n \<in> {''round-robin'', ''rr''} then Inr (RoundRobin 0)
      else if n \<in> {''weighted-round-robin'', ''wrr''} then Inr (WRR Map.empty)
      else if n = ''random'' then Inr Random
      else if n \<in> {''weighted-random'', ''wrandom''} then Inr WeightedRandom
      else if n \<in> {''p2c'', ''power-of-two''} then Inr P2C
      else if n \<in> {''least-latency'', ''ll''} then Inr LeastLatency
      else if n \<in> {''consistent-hash'', ''hash''} then Inr ConsistentHash
      else if n \<in> {''priority-failover'', ''priority'', ''failover''} then Inr PriorityFailover
      else Inl (Errorf ''unknown strategy %q'' [FStr name]))"

fun selector_Name :: "Selector \<Rightarrow> string" where
  "selector_Name LeastActive = ''least-active''"
| "selector_Name (RoundRobin _) = ''round-robin''"
| "selector_Name (WRR _) = ''weighted-round-robin''"
| "selector_Name Random = ''random''"
| "selector_Name WeightedRandom = ''weighted-random''"
| "selector_Name P2C = ''p2c''"
| "selector_Name LeastLatency = ''least-latency''"
| "selector_Name ConsistentHash = ''consistent-hash''"
| "selector_Name PriorityFailover = ''priority-failover''"

definition Names :: "string list" where
  "Names = [''least-active'', ''round-robin'', ''weighted-round-robin'', ''random'', ''weighted-random'',
     ''p2c'', ''least-latency'', ''consistent-hash'', ''priority-failover'']"

section \<open>The contract of a selector\<close>

abbreviation named :: "Snapshot list \<Rightarrow> bool" where
  "named pool \<equiv> list_all (\<lambda>u. sn_ID u \<noteq> []) pool"

locale selector =
  fixes pick :: "SelectCtx \<Rightarrow> Snapshot list \<Rightarrow> int \<Rightarrow> 'st \<Rightarrow> string \<times> 'st"
    and ready :: "Snapshot list \<Rightarrow> 'st \<Rightarrow> bool"
  assumes pick_sound: "fst (pick sc pool mx st) \<noteq> [] \<Longrightarrow>
      \<exists>u\<in>set pool. is_eligible mx u \<and> sn_ID u = fst (pick sc pool mx st)"
    and pick_complete: "ready pool st \<Longrightarrow> named pool \<Longrightarrow> \<exists>u\<in>set pool. is_eligible mx u \<Longrightarrow>
      fst (pick sc pool mx st) \<noteq> []"
begin

lemma pick_none_iff:
  assumes "ready pool st" and "named pool"
  shows "fst (pick sc pool mx st) = [] \<longleftrightarrow> eligible pool mx = []"
  using pick_sound [of sc pool mx st] pick_complete [OF assms, of mx sc]
  by (auto simp: eligible_def filter_empty_conv)

lemma pick_unique:
  assumes "distinct (map sn_ID pool)" and "fst (pick sc pool mx st) \<noteq> []"
    and "u \<in> set pool" and "sn_ID u = fst (pick sc pool mx st)"
  shows "is_eligible mx u"
proof -
  from pick_sound [OF assms(2)] obtain v where v: "v \<in> set pool" "is_eligible mx v" "sn_ID v = sn_ID u"
    using assms(4) by auto
  with assms(1,3) have "v = u" by (auto simp: distinct_map dest: inj_onD)
  with v show ?thesis by simp
qed

end

subsection \<open>Scanning for the least score\<close>

definition least_inv ::
  "(Snapshot \<Rightarrow> 'v::linorder) \<Rightarrow> int \<Rightarrow> Snapshot list \<Rightarrow> string \<times> 'v \<times> nat \<times> rng \<Rightarrow> bool" where
  "least_inv score mx seen st =
     (case st of (bestID, best, ties, g) \<Rightarrow>
        (bestID \<noteq> [] \<longrightarrow> (\<exists>u\<in>set seen. is_eligible mx u \<and> sn_ID u = bestID \<and> score u = best)) \<and>
        (named seen \<longrightarrow>
           (bestID = [] \<longrightarrow> (\<forall>v\<in>set seen. \<not> is_eligible mx v)) \<and>
           (bestID \<noteq> [] \<longrightarrow> (\<forall>v\<in>set seen. is_eligible mx v \<longrightarrow> best \<le> score v))))"

lemma least_step_inv:
  assumes "least_inv score mx seen st"
  shows "least_inv score mx (seen @ [u]) (least_step score mx u st)"
proof -
  obtain i b t g where st: "st = (i, b, t, g)" by (cases st)
  consider (skip) "\<not> is_eligible mx u" | (fresh) "is_eligible mx u" "i = []"
    | (less) "is_eligible mx u" "i \<noteq> []" "score u < b" | (more) "is_eligible mx u" "i \<noteq> []" "b < score u"
    | (tie) "is_eligible mx u" "i \<noteq> []" "score u = b"
    by fastforce
  then show ?thesis
  proof cases
    case less
    with assms have "\<forall>v\<in>set seen. named seen \<longrightarrow> is_eligible mx v \<longrightarrow> score u \<le> score v"
      by (fastforce simp: least_inv_def st)
    with less show ?thesis by (simp add: least_step_def least_inv_def st)
  next
    case more
    with assms show ?thesis by (auto simp: least_step_def least_inv_def st)
  next
    case tie
    with assms show ?thesis
      by (cases "IntN (Suc t) g") (auto simp: least_step_def least_inv_def st)
  qed (use assms in \<open>auto simp: least_step_def least_inv_def st\<close>)
qed

lemma least_fold_inv: "least_inv score mx pool (fold (least_step score mx) pool ([], b, 0, g))"
proof (induction pool rule: rev_induct)
  case Nil
  show ?case by (simp add: least_inv_def)
next
  case (snoc u pool)
  then show ?case using least_step_inv by simp
qed

lemma least_pick_sound:
  assumes "fold (least_step score mx) pool ([], b, 0, g) = (i, s, t, g')" and "i \<noteq> []"
  shows "\<exists>u\<in>set pool. is_eligible mx u \<and> sn_ID u = i \<and> score u = s"
  using least_fold_inv [of score mx pool b g] assms by (simp add: least_inv_def)

lemma least_pick_complete:
  assumes "fold (least_step score mx) pool ([], b, 0, g) = (i, s, t, g')" and "named pool"
  shows "i = [] \<longleftrightarrow> eligible pool mx = []"
    and "i \<noteq> [] \<Longrightarrow> v \<in> set pool \<Longrightarrow> is_eligible mx v \<Longrightarrow> s \<le> score v"
proof -
  note inv = least_fold_inv [of score mx pool b g, unfolded assms(1)]
  show "i = [] \<longleftrightarrow> eligible pool mx = []"
    using inv assms(2) least_pick_sound [OF assms(1)]
    by (auto simp: least_inv_def eligible_def filter_empty_conv)
  show "i \<noteq> [] \<Longrightarrow> v \<in> set pool \<Longrightarrow> is_eligible mx v \<Longrightarrow> s \<le> score v"
    using inv assms(2) by (simp add: least_inv_def)
qed

lemma eligible_ne: "eligible pool mx \<noteq> [] \<longleftrightarrow> (\<exists>u\<in>set pool. is_eligible mx u)"
  by (simp add: eligible_def filter_empty_conv)

lemma eligible_nth: "i < length (eligible pool mx) \<Longrightarrow>
  eligible pool mx ! i \<in> set pool \<and> is_eligible mx (eligible pool mx ! i)"
  using nth_mem [of i "eligible pool mx"] by (simp add: eligible_def)

interpretation la: selector LeastActive_Pick "\<lambda>_ _. True"
proof unfold_locales
  fix sc pool mx g
  obtain i s t g' where f: "fold (least_step sn_Active mx) pool ([], - 1, 0, g) = (i, s, t, g')"
    by (rule prod_cases4)
  then have p: "LeastActive_Pick sc pool mx g = (i, g')" by (simp add: LeastActive_Pick_def)
  show "fst (LeastActive_Pick sc pool mx g) \<noteq> [] \<Longrightarrow>
      \<exists>u\<in>set pool. is_eligible mx u \<and> sn_ID u = fst (LeastActive_Pick sc pool mx g)"
    using least_pick_sound [OF f] by (auto simp: p)
  show "named pool \<Longrightarrow> \<exists>u\<in>set pool. is_eligible mx u \<Longrightarrow> fst (LeastActive_Pick sc pool mx g) \<noteq> []"
    using least_pick_complete(1) [OF f] by (simp add: p eligible_ne [symmetric])
qed

lemma LeastActive_minimal:
  assumes "named pool" and "u \<in> set pool" and "is_eligible mx u"
  shows "\<exists>v\<in>set pool. is_eligible mx v \<and> sn_ID v = fst (LeastActive_Pick sc pool mx g) \<and> sn_Active v \<le> sn_Active u"
proof -
  obtain i s t g' where f: "fold (least_step sn_Active mx) pool ([], - 1, 0, g) = (i, s, t, g')"
    by (rule prod_cases4)
  then have p: "LeastActive_Pick sc pool mx g = (i, g')" by (simp add: LeastActive_Pick_def)
  have "i \<noteq> []" using least_pick_complete(1) [OF f assms(1)] assms(2,3) by (auto simp: eligible_def filter_empty_conv)
  with least_pick_sound [OF f] least_pick_complete(2) [OF f assms(1) _ assms(2,3)] show ?thesis by (auto simp: p)
qed

interpretation ll: selector LeastLatency_Pick "\<lambda>_ _. True"
proof unfold_locales
  fix sc pool mx g
  obtain i s t g' where f: "fold (least_step latency_score mx) pool ([], 0, 0, g) = (i, s, t, g')"
    by (rule prod_cases4)
  then have p: "LeastLatency_Pick sc pool mx g = (i, g')" by (simp add: LeastLatency_Pick_def)
  show "fst (LeastLatency_Pick sc pool mx g) \<noteq> [] \<Longrightarrow>
      \<exists>u\<in>set pool. is_eligible mx u \<and> sn_ID u = fst (LeastLatency_Pick sc pool mx g)"
    using least_pick_sound [OF f] by (auto simp: p)
  show "named pool \<Longrightarrow> \<exists>u\<in>set pool. is_eligible mx u \<Longrightarrow> fst (LeastLatency_Pick sc pool mx g) \<noteq> []"
    using least_pick_complete(1) [OF f] by (simp add: p eligible_ne [symmetric])
qed

subsection \<open>The random strategies\<close>

lemma IntN_eligible:
  assumes "eligible pool mx \<noteq> []" and "IntN (length (eligible pool mx)) g = (i, g')"
  shows "eligible pool mx ! i \<in> set pool \<and> is_eligible mx (eligible pool mx ! i)"
  using eligible_nth [OF IntN_less [OF _ assms(2)]] assms(1) by simp

interpretation rnd: selector Random_Pick "\<lambda>_ _. True"
proof unfold_locales
  fix sc pool mx g
  show "fst (Random_Pick sc pool mx g) \<noteq> [] \<Longrightarrow>
      \<exists>u\<in>set pool. is_eligible mx u \<and> sn_ID u = fst (Random_Pick sc pool mx g)"
    using IntN_eligible [of pool mx g]
    by (fastforce simp: Random_Pick_def Let_def split: if_splits prod.splits)
  show "named pool \<Longrightarrow> \<exists>u\<in>set pool. is_eligible mx u \<Longrightarrow> fst (Random_Pick sc pool mx g) \<noteq> []"
    using IntN_eligible [of pool mx g] eligible_ne [of pool mx]
    by (auto simp: Random_Pick_def Let_def list_all_iff split: prod.splits)
qed

lemma weighted_scan_Some: "weighted_scan r cands = Some i \<Longrightarrow> \<exists>u\<in>set cands. sn_ID u = i"
  by (induction cands arbitrary: r) (auto split: if_splits)

lemma WeightedRandom_mem:
  assumes "eligible pool mx \<noteq> []"
  shows "\<exists>u\<in>set (eligible pool mx). sn_ID u = fst (WeightedRandom_Pick sc pool mx g)"
proof -
  let ?c = "eligible pool mx"
  have i: "?c ! i \<in> set ?c" if "IntN (length ?c) g = (i, g')" for i g'
    using IntN_less [OF _ that] assms by simp
  have l: "?c ! (length ?c - 1) \<in> set ?c" using assms by simp
  show ?thesis
    using assms i l
    by (auto simp: WeightedRandom_Pick_def Let_def split: prod.split option.split dest!: weighted_scan_Some)
qed

interpretation wrnd: selector WeightedRandom_Pick "\<lambda>_ _. True"
proof unfold_locales
  fix sc pool mx g
  show "fst (WeightedRandom_Pick sc pool mx g) \<noteq> [] \<Longrightarrow>
      \<exists>u\<in>set pool. is_eligible mx u \<and> sn_ID u = fst (WeightedRandom_Pick sc pool mx g)"
    using WeightedRandom_mem [of pool mx sc g]
    by (cases "eligible pool mx = []") (auto simp: WeightedRandom_Pick_def eligible_def)
  show "named pool \<Longrightarrow> \<exists>u\<in>set pool. is_eligible mx u \<Longrightarrow> fst (WeightedRandom_Pick sc pool mx g) \<noteq> []"
    using WeightedRandom_mem [of pool mx sc g] eligible_ne [of pool mx]
    by (fastforce simp: eligible_def list_all_iff)
qed

text \<open>The two candidates of the power-of-two-choices strategy are distinct positions.\<close>

lemma P2C_cases:
  assumes "2 \<le> length (eligible pool mx)"
  obtains i j where "i < length (eligible pool mx)" "j < length (eligible pool mx)" "i \<noteq> j"
    and "fst (P2C_Pick sc pool mx g) =
      (if sn_Active (eligible pool mx ! i) \<le> sn_Active (eligible pool mx ! j)
       then sn_ID (eligible pool mx ! i) else sn_ID (eligible pool mx ! j))"
proof -
  let ?n = "length (eligible pool mx)"
  obtain i g1 where i: "IntN ?n g = (i, g1)" by fastforce
  obtain j0 g2 where j0: "IntN (?n - 1) g1 = (j0, g2)" by fastforce
  let ?j = "if i \<le> j0 then Suc j0 else j0"
  have "i < ?n" using IntN_less [OF _ i] assms by linarith
  moreover have "j0 < ?n - 1" using IntN_less [OF _ j0] assms by linarith
  ultimately have "i < ?n" "?j < ?n" "i \<noteq> ?j" by (auto split: if_splits)
  moreover have "fst (P2C_Pick sc pool mx g) =
      (if sn_Active (eligible pool mx ! i) \<le> sn_Active (eligible pool mx ! ?j)
       then sn_ID (eligible pool mx ! i) else sn_ID (eligible pool mx ! ?j))"
    unfolding P2C_Pick_def using assms i j0 by (auto simp: Let_def)
  ultimately show ?thesis by (rule that)
qed

lemma P2C_mem:
  assumes "eligible pool mx \<noteq> []"
  shows "\<exists>u\<in>set (eligible pool mx). sn_ID u = fst (P2C_Pick sc pool mx g)"
proof (cases "2 \<le> length (eligible pool mx)")
  case True
  from P2C_cases [OF this, of sc g] show ?thesis by (metis nth_mem)
next
  case False
  moreover have "0 < length (eligible pool mx)" using assms by simp
  ultimately have "length (eligible pool mx) = 1" by linarith
  then show ?thesis by (auto simp: P2C_Pick_def Let_def intro!: bexI [of _ "eligible pool mx ! 0"])
qed

interpretation p2c: selector P2C_Pick "\<lambda>_ _. True"
proof unfold_locales
  fix sc pool mx g
  show "fst (P2C_Pick sc pool mx g) \<noteq> [] \<Longrightarrow>
      \<exists>u\<in>set pool. is_eligible mx u \<and> sn_ID u = fst (P2C_Pick sc pool mx g)"
    using P2C_mem [of pool mx sc g]
    by (cases "eligible pool mx = []") (auto simp: P2C_Pick_def eligible_def)
  show "named pool \<Longrightarrow> \<exists>u\<in>set pool. is_eligible mx u \<Longrightarrow> fst (P2C_Pick sc pool mx g) \<noteq> []"
    using P2C_mem [of pool mx sc g] eligible_ne [of pool mx]
    by (fastforce simp: eligible_def list_all_iff)
qed

subsection \<open>Round robin\<close>

definition rr_ready :: "Snapshot list \<Rightarrow> uint64 \<Rightarrow> bool" where
  "rr_ready pool idx \<longleftrightarrow> unat idx + length pool < 2 ^ 64"

lemma rr_index:
  assumes "unat idx + j < 2 ^ 64" and "n < 2 ^ 64"
  shows "unat ((idx + of_nat j) mod of_nat n :: uint64) = (unat idx + j) mod n"
proof -
  have "unat (of_nat j :: uint64) = j" "unat (of_nat n :: uint64) = n"
    using assms by (simp_all add: unat_of_nat take_bit_nat_eq_self)
  moreover from this have "unat (idx + of_nat j) = unat idx + j"
    using assms(1) by (simp add: unat_word_ariths take_bit_nat_eq_self)
  ultimately show ?thesis by (simp add: unat_mod)
qed

lemma rr_loop_result:
  assumes "rr_loop k idx pool mx = (i, idx')"
  shows "(\<exists>j<k. i = sn_ID (pool ! unat ((idx + of_nat j) mod of_nat (length pool))) \<and>
        is_eligible mx (pool ! unat ((idx + of_nat j) mod of_nat (length pool))) \<and> idx' = idx + of_nat (Suc j) \<and>
        (\<forall>l<j. \<not> is_eligible mx (pool ! unat ((idx + of_nat l) mod of_nat (length pool))))) \<or>
    i = [] \<and> idx' = idx + of_nat k \<and>
        (\<forall>l<k. \<not> is_eligible mx (pool ! unat ((idx + of_nat l) mod of_nat (length pool))))"
  using assms
proof (induction k arbitrary: idx)
  case (Suc k)
  let ?at = "\<lambda>l. pool ! unat ((idx + of_nat l) mod of_nat (length pool))"
  show ?case
  proof (cases "is_eligible mx (?at 0)")
    case True
    with Suc.prems show ?thesis by (intro disjI1 exI [of _ 0]) auto
  next
    case False
    with Suc.prems have "rr_loop k (idx + 1) pool mx = (i, idx')" by simp
    from Suc.IH [OF this] consider
        j where "j < k" "i = sn_ID (?at (Suc j))" "is_eligible mx (?at (Suc j))"
          "idx' = idx + of_nat (Suc (Suc j))" "\<forall>l<j. \<not> is_eligible mx (?at (Suc l))"
      | "i = []" "idx' = idx + of_nat (Suc k)" "\<forall>l<k. \<not> is_eligible mx (?at (Suc l))"
      by (auto simp: algebra_simps)
    then show ?thesis
    proof cases
      case (1 j)
      then have "\<forall>l<Suc j. \<not> is_eligible mx (?at l)" using False by (auto simp: less_Suc_eq_0_disj)
      with 1 show ?thesis by (intro disjI1 exI [of _ "Suc j"]) simp
    next
      case 2
      then have "\<forall>l<Suc k. \<not> is_eligible mx (?at l)" using False by (auto simp: less_Suc_eq_0_disj)
      with 2 show ?thesis by simp
    qed
  qed
qed simp

lemma mod_cover:
  assumes "i < n"
  obtains j where "j < n" "(a + j) mod n = (i :: nat)"
proof (cases "a mod n \<le> i")
  case True
  have "(a + (i - a mod n)) mod n = (a mod n + (i - a mod n)) mod n" by (simp add: mod_add_left_eq)
  with True assms show ?thesis by (intro that [of "i - a mod n"]) auto
next
  case False
  let ?j = "n - a mod n + i"
  have "a mod n < n" using assms by simp
  then have "a mod n + ?j = n + i" by simp
  then have "(a + ?j) mod n = i" using assms by (metis mod_add_left_eq mod_add_self1 mod_less)
  with False \<open>a mod n < n\<close> show ?thesis by (intro that [of ?j]) auto
qed

lemma rr_at:
  assumes "rr_ready pool idx" and "j < length pool"
  shows "unat ((idx + of_nat j) mod of_nat (length pool)) = (unat idx + j) mod length pool"
  using assms by (intro rr_index) (auto simp: rr_ready_def)

lemma rr_ready_next: "rr_ready pool idx \<Longrightarrow> j \<le> length pool \<Longrightarrow> unat (idx + of_nat j) = unat idx + j"
  by (simp add: rr_ready_def unat_word_ariths unat_of_nat take_bit_nat_eq_self)

text \<open>The position a call finds: the first eligible one at or after the counter.\<close>

lemma RoundRobin_cases:
  assumes "rr_ready pool idx"
  obtains (found) j where "j < length pool" "is_eligible mx (pool ! ((unat idx + j) mod length pool))"
      "\<forall>l<j. \<not> is_eligible mx (pool ! ((unat idx + l) mod length pool))"
      "RoundRobin_Pick sc pool mx idx = (sn_ID (pool ! ((unat idx + j) mod length pool)), idx + of_nat (Suc j))"
    | (none) "\<forall>u\<in>set pool. \<not> is_eligible mx u"
      "RoundRobin_Pick sc pool mx idx = ([], idx + of_nat (length pool))"
proof -
  obtain i idx' where r: "rr_loop (length pool) idx pool mx = (i, idx')" by fastforce
  from rr_loop_result [OF r] consider
      j where "j < length pool" "is_eligible mx (pool ! ((unat idx + j) mod length pool))"
        "\<forall>l<j. \<not> is_eligible mx (pool ! ((unat idx + l) mod length pool))"
        "i = sn_ID (pool ! ((unat idx + j) mod length pool))" "idx' = idx + of_nat (Suc j)"
    | "i = []" "idx' = idx + of_nat (length pool)"
        "\<forall>l<length pool. \<not> is_eligible mx (pool ! ((unat idx + l) mod length pool))"
    by (auto simp: rr_at [OF assms])
  then show thesis
  proof cases
    case (1 j)
    moreover from 1 have "length pool \<noteq> 0" by auto
    ultimately show ?thesis using r by (intro found [of j]) (simp_all add: RoundRobin_Pick_def)
  next
    case 2
    have "\<forall>u\<in>set pool. \<not> is_eligible mx u"
    proof
      fix u assume "u \<in> set pool"
      then obtain p where "p < length pool" "u = pool ! p" by (auto simp: in_set_conv_nth)
      with mod_cover [of p "length pool" "unat idx"] 2(3) show "\<not> is_eligible mx u" by metis
    qed
    with 2 r show ?thesis by (intro none) (simp_all add: RoundRobin_Pick_def)
  qed
qed

lemma rr_index_less:
  assumes "0 < n"
  shows "unat (x mod of_nat n :: uint64) < n"
proof (cases "(of_nat n :: uint64) = 0")
  case True
  then have "2 ^ 64 dvd n" by (simp add: word_of_nat_eq_0_iff)
  then have "2 ^ 64 \<le> n" using assms by (rule dvd_imp_le)
  then show ?thesis using True unsigned_less [of x, where ?'a = nat] by simp
next
  case False
  have "unat (x mod of_nat n) = unat x mod unat (of_nat n :: uint64)" by (rule unat_mod)
  also have "\<dots> < unat (of_nat n :: uint64)" using False by (simp add: unat_gt_0)
  also have "\<dots> \<le> n" by (simp add: unat_of_nat take_bit_nat_less_eq_self)
  finally show ?thesis .
qed

lemma RoundRobin_sound:
  assumes "fst (RoundRobin_Pick sc pool mx idx) \<noteq> []"
  shows "\<exists>u\<in>set pool. is_eligible mx u \<and> sn_ID u = fst (RoundRobin_Pick sc pool mx idx)"
proof -
  obtain i idx' where r: "rr_loop (length pool) idx pool mx = (i, idx')" by fastforce
  have "pool \<noteq> []" using assms by (auto simp: RoundRobin_Pick_def)
  then have "pool ! unat (x mod of_nat (length pool)) \<in> set pool" for x :: uint64
    by (simp add: rr_index_less)
  with rr_loop_result [OF r] assms r \<open>pool \<noteq> []\<close> show ?thesis by (auto simp: RoundRobin_Pick_def)
qed

interpretation rrb: selector RoundRobin_Pick rr_ready
proof unfold_locales
  fix sc pool mx idx
  show "fst (RoundRobin_Pick sc pool mx idx) \<noteq> [] \<Longrightarrow>
      \<exists>u\<in>set pool. is_eligible mx u \<and> sn_ID u = fst (RoundRobin_Pick sc pool mx idx)"
    by (rule RoundRobin_sound)
  assume "rr_ready pool idx" "named pool" "\<exists>u\<in>set pool. is_eligible mx u"
  moreover from this have "p mod length pool < length pool" for p
    by (metis length_pos_if_in_set mod_less_divisor)
  with \<open>named pool\<close> have "sn_ID (pool ! (p mod length pool)) \<noteq> []" for p
    by (simp add: list_all_length)
  ultimately show "fst (RoundRobin_Pick sc pool mx idx) \<noteq> []"
    by (cases rule: RoundRobin_cases [of pool idx mx sc]) auto
qed

subsection \<open>Consistent hashing and priority failover\<close>

definition hrw_inv :: "string \<Rightarrow> int \<Rightarrow> Snapshot list \<Rightarrow> string \<times> uint64 \<Rightarrow> bool" where
  "hrw_inv key mx seen st =
     (case st of (bestID, bestH) \<Rightarrow>
        (bestID \<noteq> [] \<longrightarrow> bestH = hrw key bestID \<and> (\<exists>u\<in>set seen. is_eligible mx u \<and> sn_ID u = bestID)) \<and>
        (named seen \<longrightarrow>
           (bestID = [] \<longrightarrow> (\<forall>v\<in>set seen. \<not> is_eligible mx v)) \<and>
           (bestID \<noteq> [] \<longrightarrow> (\<forall>v\<in>set seen. is_eligible mx v \<longrightarrow> hrw key (sn_ID v) \<le> bestH))))"

lemma hrw_step_inv:
  assumes "hrw_inv key mx seen st"
  shows "hrw_inv key mx (seen @ [u]) (hrw_step key mx u st)"
proof -
  obtain i h where st: "st = (i, h)" by (cases st)
  consider (skip) "\<not> is_eligible mx u" | (fresh) "is_eligible mx u" "i = []"
    | (better) "is_eligible mx u" "i \<noteq> []" "h < hrw key (sn_ID u)"
    | (worse) "is_eligible mx u" "i \<noteq> []" "hrw key (sn_ID u) \<le> h"
    by fastforce
  then show ?thesis
  proof cases
    case better
    then have "\<forall>x. x \<le> h \<longrightarrow> x \<le> hrw key (sn_ID u)" by fastforce
    with better assms show ?thesis by (auto simp: hrw_step_def hrw_inv_def st)
  next
    case worse
    then have "\<not> h < hrw key (sn_ID u)" by simp
    with worse assms show ?thesis by (auto simp: hrw_step_def hrw_inv_def st)
  qed (use assms in \<open>auto simp: hrw_step_def hrw_inv_def st\<close>)
qed

lemma hrw_fold_inv: "hrw_inv key mx pool (fold (hrw_step key mx) pool ([], 0))"
proof (induction pool rule: rev_induct)
  case Nil
  show ?case by (simp add: hrw_inv_def)
next
  case (snoc u pool)
  then show ?case using hrw_step_inv by simp
qed

lemma ConsistentHash_fold: "ConsistentHash_Pick sc pool mx = fst (fold (hrw_step (HashInput sc) mx) pool ([], 0))"
  by (simp add: ConsistentHash_Pick_def)

lemma ConsistentHash_max:
  assumes "named pool" and "ConsistentHash_Pick sc pool mx = i" and "i \<noteq> []"
    and "v \<in> set pool" and "is_eligible mx v"
  shows "hrw (HashInput sc) (sn_ID v) \<le> hrw (HashInput sc) i"
  using assms hrw_fold_inv [of "HashInput sc" mx pool]
  by (auto simp: ConsistentHash_fold hrw_inv_def split: prod.splits)

interpretation chash: selector "\<lambda>sc pool mx (st :: unit). (ConsistentHash_Pick sc pool mx, st)" "\<lambda>_ _. True"
proof unfold_locales
  fix sc pool mx and st :: unit
  show "fst (ConsistentHash_Pick sc pool mx, st) \<noteq> [] \<Longrightarrow>
      \<exists>u\<in>set pool. is_eligible mx u \<and> sn_ID u = fst (ConsistentHash_Pick sc pool mx, st)"
    using hrw_fold_inv [of "HashInput sc" mx pool]
    by (auto simp: ConsistentHash_fold hrw_inv_def split: prod.splits)
  show "named pool \<Longrightarrow> \<exists>u\<in>set pool. is_eligible mx u \<Longrightarrow>
      fst (ConsistentHash_Pick sc pool mx, st) \<noteq> []"
    using hrw_fold_inv [of "HashInput sc" mx pool]
    by (auto simp: ConsistentHash_fold hrw_inv_def split: prod.splits)
qed

text \<open>
  An upstream that does not win may leave the pool without moving the key: the maximum of the
  others is the maximum of the whole, and the first position that has it stays first.
\<close>

definition hrw_without :: "string \<Rightarrow> string \<Rightarrow> string \<times> uint64 \<Rightarrow> string \<times> uint64 \<Rightarrow> bool" where
  "hrw_without key j st st' \<longleftrightarrow>
     st' = st \<or> j \<noteq> [] \<and> st = (j, hrw key j) \<and> (fst st' = [] \<or> snd st' \<le> hrw key j)"

lemma hrw_without_step:
  assumes "hrw_without key j st st'" and "sn_ID u \<noteq> []"
  shows "hrw_without key j (hrw_step key mx u st)
    (if sn_ID u = j then st' else hrw_step key mx u st')"
proof (cases "st' = st")
  case True
  obtain i h where "st = (i, h)" by (cases st)
  with True assms show ?thesis by (auto simp: hrw_without_def hrw_step_def Let_def)
next
  case False
  obtain i' h' where st': "st' = (i', h')" by (cases st')
  from False assms(1) st' have *: "j \<noteq> []" "st = (j, hrw key j)" "i' = [] \<or> h' \<le> hrw key j"
    by (auto simp: hrw_without_def)
  show ?thesis
  proof (cases "is_eligible mx u \<and> hrw key j < hrw key (sn_ID u)")
    case True
    then have "i' = [] \<or> h' < hrw key (sn_ID u)" using *(3) by auto
    with True *(1,2) st' show ?thesis by (auto simp: hrw_without_def hrw_step_def Let_def)
  next
    case False
    then have "is_eligible mx u \<Longrightarrow> hrw key (sn_ID u) \<le> hrw key j" by auto
    with False * st' show ?thesis by (auto simp: hrw_without_def hrw_step_def Let_def)
  qed
qed

lemma hrw_without_fold:
  assumes "hrw_without key j st st'" and "named pool"
  shows "hrw_without key j (fold (hrw_step key mx) pool st)
    (fold (hrw_step key mx) (filter (\<lambda>u. sn_ID u \<noteq> j) pool) st')"
  using assms
proof (induction pool arbitrary: st st')
  case (Cons u pool)
  have "hrw_without key j (hrw_step key mx u st) (if sn_ID u = j then st' else hrw_step key mx u st')"
    using Cons.prems by (intro hrw_without_step) auto
  from Cons.IH [OF this] Cons.prems show ?case by (auto split: if_splits)
qed simp

lemma PriorityFailover_find:
  "PriorityFailover_Pick sc pool mx = (case find (is_eligible mx) pool of None \<Rightarrow> [] | Some u \<Rightarrow> sn_ID u)"
  by (induction pool) auto

interpretation prio: selector "\<lambda>sc pool mx (st :: unit). (PriorityFailover_Pick sc pool mx, st)" "\<lambda>_ _. True"
proof unfold_locales
  fix sc pool mx and st :: unit
  show "fst (PriorityFailover_Pick sc pool mx, st) \<noteq> [] \<Longrightarrow>
      \<exists>u\<in>set pool. is_eligible mx u \<and> sn_ID u = fst (PriorityFailover_Pick sc pool mx, st)"
    by (induction pool) (auto split: if_splits)
  show "named pool \<Longrightarrow> \<exists>u\<in>set pool. is_eligible mx u \<Longrightarrow> fst (PriorityFailover_Pick sc pool mx, st) \<noteq> []"
    by (induction pool) auto
qed

subsection \<open>Smooth weighted round robin\<close>

definition wrr_inv :: "int \<Rightarrow> Snapshot list \<Rightarrow> (string \<rightharpoonup> int) \<times> int \<times> string \<times> int \<Rightarrow> bool" where
  "wrr_inv mx seen st =
     (case st of (current, tot, bestID, bestCur) \<Rightarrow>
        (bestID \<noteq> [] \<longrightarrow> (\<exists>u\<in>set seen. is_eligible mx u \<and> sn_ID u = bestID)) \<and>
        (named seen \<longrightarrow> bestID = [] \<longrightarrow> (\<forall>v\<in>set seen. \<not> is_eligible mx v)))"

lemma wrr_fold_inv: "wrr_inv mx pool (fold (wrr_step mx) pool (m, 0, [], 0))"
proof (induction pool rule: rev_induct)
  case Nil
  show ?case by (simp add: wrr_inv_def)
next
  case (snoc u pool)
  then show ?case
    by (auto simp: wrr_inv_def wrr_step_def Let_def split: prod.splits if_splits)
qed

interpretation wrr: selector WRR_Pick "\<lambda>_ _. True"
proof unfold_locales
  fix sc pool mx st
  note inv = wrr_fold_inv [of mx pool "st |` (sn_ID ` set pool)"]
  show "fst (WRR_Pick sc pool mx st) \<noteq> [] \<Longrightarrow>
      \<exists>u\<in>set pool. is_eligible mx u \<and> sn_ID u = fst (WRR_Pick sc pool mx st)"
    using inv by (auto simp: WRR_Pick_def wrr_inv_def split: prod.splits if_splits)
  show "named pool \<Longrightarrow> \<exists>u\<in>set pool. is_eligible mx u \<Longrightarrow> fst (WRR_Pick sc pool mx st) \<noteq> []"
    using inv by (auto simp: WRR_Pick_def wrr_inv_def split: prod.splits if_splits)
qed

section \<open>Every selector\<close>

fun selector_ready :: "Snapshot list \<Rightarrow> Selector \<times> rng \<Rightarrow> bool" where
  "selector_ready pool (RoundRobin idx, g) = rr_ready pool idx"
| "selector_ready pool _ = True"

interpretation sel: selector Pick selector_ready
proof unfold_locales
  fix sc pool mx and st :: "Selector \<times> rng"
  obtain s g where st: "st = (s, g)" by (cases st)
  show "fst (Pick sc pool mx st) \<noteq> [] \<Longrightarrow>
      \<exists>u\<in>set pool. is_eligible mx u \<and> sn_ID u = fst (Pick sc pool mx st)"
    using la.pick_sound ll.pick_sound rnd.pick_sound wrnd.pick_sound p2c.pick_sound rrb.pick_sound
      wrr.pick_sound chash.pick_sound prio.pick_sound
    by (cases s) (simp_all add: st)
  show "selector_ready pool st \<Longrightarrow> named pool \<Longrightarrow> \<exists>u\<in>set pool. is_eligible mx u \<Longrightarrow>
      fst (Pick sc pool mx st) \<noteq> []"
    using la.pick_complete ll.pick_complete rnd.pick_complete wrnd.pick_complete p2c.pick_complete
      rrb.pick_complete wrr.pick_complete chash.pick_complete prio.pick_complete
    by (cases s) (simp_all add: st)
qed

section \<open>The weighted draw\<close>

lemma go_weight_pos: "0 < go_weight u"
  by (simp add: go_weight_def)

lemma wrap64_id: "- (2 ^ 63) \<le> x \<Longrightarrow> x < 2 ^ 63 \<Longrightarrow> wrap64 x = x"
  by (simp add: wrap64_def)

lemma sum_weights_nonneg: "0 \<le> (\<Sum>u\<leftarrow>us. go_weight u)"
  using go_weight_pos by (intro sum_list_nonneg) (auto intro: less_imp_le)

lemma weight_foldl:
  assumes "0 \<le> t" and "t + (\<Sum>u\<leftarrow>us. go_weight u) < 2 ^ 63"
  shows "foldl (\<lambda>tot u. wrap64 (tot + go_weight u)) t us = t + (\<Sum>u\<leftarrow>us. go_weight u)"
  using assms
proof (induction us arbitrary: t)
  case (Cons u us)
  have "wrap64 (t + go_weight u) = t + go_weight u"
    using Cons.prems go_weight_pos [of u] sum_weights_nonneg [of us] by (intro wrap64_id) auto
  with Cons go_weight_pos [of u] show ?case by (simp add: add.assoc)
qed simp

lemma weighted_scan_ids: "weighted_scan r us = Some i \<Longrightarrow> i \<in> sn_ID ` set us"
  by (induction us arbitrary: r) (auto split: if_splits)

lemma weighted_scan_defined:
  assumes "0 \<le> r" and "r < (\<Sum>u\<leftarrow>us. go_weight u)"
  shows "weighted_scan r us \<noteq> None"
  using assms by (induction us arbitrary: r) (auto simp: algebra_simps)

lemma weighted_scan_count:
  assumes "distinct (map sn_ID us)" and "u \<in> set us"
  shows "card {r \<in> {0..<\<Sum>v\<leftarrow>us. go_weight v}. weighted_scan r us = Some (sn_ID u)} = nat (go_weight u)"
  using assms
proof (induction us)
  case (Cons v us)
  let ?w = "go_weight v" and ?S = "\<Sum>x\<leftarrow>us. go_weight x"
  let ?A = "{r \<in> {0..<?w + ?S}. weighted_scan r (v # us) = Some (sn_ID u)}"
  show ?case
  proof (cases "u = v")
    case True
    have "?A = {0..<?w}"
      using Cons.prems(1) True sum_weights_nonneg [of us] by (auto dest: weighted_scan_ids split: if_splits)
    with True show ?thesis by simp
  next
    case False
    with Cons.prems have u: "u \<in> set us" and ne: "sn_ID v \<noteq> sn_ID u" by auto
    have "?A = (+) ?w ` {r \<in> {0..<?S}. weighted_scan r us = Some (sn_ID u)}"
    proof (intro equalityI subsetI)
      fix r assume "r \<in> ?A"
      with ne have "r - ?w \<in> {r \<in> {0..<?S}. weighted_scan r us = Some (sn_ID u)}"
        by (auto split: if_splits)
      then show "r \<in> (+) ?w ` {r \<in> {0..<?S}. weighted_scan r us = Some (sn_ID u)}"
        by (intro image_eqI [of _ _ "r - ?w"]) simp_all
    qed (use go_weight_pos [of v] in auto)
    then have "card ?A = card {r \<in> {0..<?S}. weighted_scan r us = Some (sn_ID u)}"
      by (simp add: card_image)
    with Cons.IH [OF _ u] Cons.prems show ?thesis by simp
  qed
qed simp

lemma WeightedRandom_draw:
  assumes "eligible pool mx \<noteq> []" and "(\<Sum>u\<leftarrow>eligible pool mx. go_weight u) < 2 ^ 63"
    and "int (g 0) < (\<Sum>u\<leftarrow>eligible pool mx. go_weight u)"
  shows "weighted_scan (int (g 0)) (eligible pool mx) = Some (fst (WeightedRandom_Pick sc pool mx g))"
proof -
  let ?c = "eligible pool mx" and ?W = "\<Sum>u\<leftarrow>eligible pool mx. go_weight u"
  have W: "weight_total ?c = ?W" using weight_foldl [of 0 ?c] assms(2) by (simp add: weight_total_def)
  have "0 < ?W" using assms(3) by linarith
  moreover have "g 0 mod nat ?W = g 0" using assms(3) by (simp add: nat_less_iff zless_nat_eq_int_zless)
  moreover obtain i where "weighted_scan (int (g 0)) ?c = Some i"
    using weighted_scan_defined [OF _ assms(3)] by auto
  ultimately show ?thesis using assms(1) by (simp add: WeightedRandom_Pick_def W IntN_def Let_def)
qed

section \<open>Properties\<close>


text \<open>C21. Rendezvous hashing: the pick has the largest hash of the key among the eligible upstreams,
  and removing any other upstream from the pool leaves the pick as it is.
\<close>
theorem ConsistentHash_stable:
  assumes "named pool" and "ConsistentHash_Pick sc pool mx = i" and "i \<noteq> []"
  shows "(\<forall>v\<in>set pool. is_eligible mx v \<longrightarrow> hrw (HashInput sc) (sn_ID v) \<le> hrw (HashInput sc) i) \<and>
    (\<forall>j. j \<noteq> i \<longrightarrow> ConsistentHash_Pick sc (filter (\<lambda>u. sn_ID u \<noteq> j) pool) mx = i)"
proof (intro conjI ballI allI impI)
  fix v assume "v \<in> set pool" "is_eligible mx v"
  with assms show "hrw (HashInput sc) (sn_ID v) \<le> hrw (HashInput sc) i" by (intro ConsistentHash_max)
next
  fix j assume "j \<noteq> i"
  moreover have "hrw_without (HashInput sc) j ([], 0) ([], 0)" by (simp add: hrw_without_def)
  note hrw_without_fold [OF this assms(1), of mx]
  ultimately show "ConsistentHash_Pick sc (filter (\<lambda>u. sn_ID u \<noteq> j) pool) mx = i"
    using assms(2) by (auto simp: ConsistentHash_fold hrw_without_def)
qed

text \<open>The weighted random strategy is proportional: of the draws below the total weight of the
  eligible upstreams, exactly as many choose an upstream as its weight says.
\<close>
theorem WeightedRandom_proportional:
  assumes "distinct (map sn_ID pool)" and "u \<in> set pool" and "is_eligible mx u"
    and "(\<Sum>v\<leftarrow>eligible pool mx. go_weight v) < 2 ^ 63"
  shows "card {r. int r < (\<Sum>v\<leftarrow>eligible pool mx. go_weight v) \<and>
      fst (WeightedRandom_Pick sc pool mx (\<lambda>_. r)) = sn_ID u} = nat (go_weight u)"
proof -
  let ?c = "eligible pool mx" and ?W = "\<Sum>u\<leftarrow>eligible pool mx. go_weight u"
  have c: "distinct (map sn_ID ?c)" "u \<in> set ?c" "?c \<noteq> []"
    using assms(1-3) by (auto simp: eligible_def distinct_map_filter filter_empty_conv)
  let ?R = "{r. int r < ?W \<and> fst (WeightedRandom_Pick sc pool mx (\<lambda>_. r)) = sn_ID u}"
  have "int ` ?R = {r \<in> {0..<?W}. weighted_scan r ?c = Some (sn_ID u)}"
  proof (intro equalityI subsetI)
    fix r assume r: "r \<in> {r \<in> {0..<?W}. weighted_scan r ?c = Some (sn_ID u)}"
    with WeightedRandom_draw [OF c(3) assms(4), of "\<lambda>_. nat r" sc] show "r \<in> int ` ?R"
      by (intro image_eqI [of _ _ "nat r"]) auto
  qed (use WeightedRandom_draw [OF c(3) assms(4), of "\<lambda>_. r" sc for r] in auto)
  then have "card (int ` ?R) = nat (go_weight u)" using weighted_scan_count [OF c(1,2)] by simp
  then show ?thesis by (simp add: card_image)
qed

text \<open>Example upstreams for the witnesses.\<close>

definition ex_snapshot :: "string \<Rightarrow> int \<Rightarrow> int \<Rightarrow> bool \<Rightarrow> Snapshot" where
  "ex_snapshot i w act h =
     \<lparr>sn_ID = i, sn_Addr = ''10.0.0.1:1080'', sn_Weight = w, sn_Priority = 0, sn_Active = act, sn_Healthy = h,
      sn_Draining = False, sn_ConsecutiveFailures = 0, sn_EWMALatency = 0, sn_TotalSessions = 0,
      sn_TotalFailures = 0\<rparr>"

definition ex_ctx :: SelectCtx where
  "ex_ctx = \<lparr>sc_ClientAddr = None, sc_DstHost = ''h'', sc_DstPort = 80, sc_HashKey = HashDestHost\<rparr>"

definition ex_pool :: "Snapshot list" where
  "ex_pool = [ex_snapshot ''a'' 2 5 True, ex_snapshot ''b'' 1 0 False, ex_snapshot ''c'' 0 1 True]"


theorem ConsistentHash_stable_witness:
  "ConsistentHash_Pick ex_ctx (filter (\<lambda>u. sn_ID u \<noteq> ''b'') ex_pool) 5 = ''c''"
  using ConsistentHash_stable [of ex_pool ex_ctx 5, OF _ refl]
  by (simp add: ex_pool_def ex_snapshot_def ConsistentHash_Pick_def hrw_step_def is_eligible_def Let_def)

theorem WeightedRandom_proportional_witness:
  "card {r. int r < 3 \<and> fst (WeightedRandom_Pick ex_ctx ex_pool 9 (\<lambda>_. r)) = ''a''} = 2"
  using WeightedRandom_proportional [of ex_pool "ex_snapshot ''a'' 2 5 True" 9 ex_ctx]
  by (simp add: ex_pool_def ex_snapshot_def eligible_def is_eligible_def go_weight_def)

end
