(* ===== verification/WRR_Fairness.thy ===== *)
theory WRR_Fairness
  imports Strategy
begin

text \<open>
  Fairness of smooth weighted round robin (\<^verbatim>\<open>internal/strategy/wrr.go\<close>).  While the eligible part
  of the pool stays the same, the current weight of an upstream after \<open>k\<close> picks is
  \<open>k * w - W * n\<close>, where \<open>w\<close> is its weight, \<open>n\<close> the number of times it was picked and \<open>W\<close> the
  total weight.  From this: no pick exceeds an upstream's share within a period of \<open>W\<close> picks, so
  every upstream is picked exactly \<open>w\<close> times in a period, and the period ends in the state it
  began with.  The 64-bit counters of the code do not overflow as long as the number of eligible
  upstreams times the total weight is below \<open>2 ^ 63\<close>.
\<close>

section \<open>One pick\<close>

definition wsum :: "Snapshot list \<Rightarrow> int" where
  "wsum us = (\<Sum>u\<leftarrow>us. go_weight u)"

text \<open>The weights of a pool are in range: one more weight fits on every counter.\<close>

definition wrr_fits :: "Snapshot list \<Rightarrow> int \<Rightarrow> (string \<rightharpoonup> int) \<Rightarrow> bool" where
  "wrr_fits pool mx m \<longleftrightarrow> wsum (eligible pool mx) < 2 ^ 63 \<and>
     (\<forall>u\<in>set (eligible pool mx). - (2 ^ 63) \<le> wrr_get m (sn_ID u) \<and> wrr_get m (sn_ID u) + go_weight u < 2 ^ 63)"

definition wrr_scan_inv ::
  "(string \<rightharpoonup> int) \<Rightarrow> int \<Rightarrow> Snapshot list \<Rightarrow> (string \<rightharpoonup> int) \<times> int \<times> string \<times> int \<Rightarrow> bool" where
  "wrr_scan_inv m mx seen st \<longleftrightarrow>
     (case st of (cur, tot, best, bc) \<Rightarrow>
        (\<forall>i. i \<notin> sn_ID ` set (eligible seen mx) \<longrightarrow> cur i = m i) \<and>
        (\<forall>u\<in>set (eligible seen mx). wrr_get cur (sn_ID u) = wrr_get m (sn_ID u) + go_weight u) \<and>
        tot = wsum (eligible seen mx) \<and>
        (if eligible seen mx = [] then best = []
         else \<exists>b\<in>set (eligible seen mx). best = sn_ID b \<and> bc = wrr_get m (sn_ID b) + go_weight b \<and>
           (\<forall>v\<in>set (eligible seen mx). wrr_get m (sn_ID v) + go_weight v \<le> bc)))"

lemma eligible_append [simp]: "eligible (xs @ ys) mx = eligible xs mx @ eligible ys mx"
  by (simp add: eligible_def)

lemma eligible_one: "eligible [u] mx = (if is_eligible mx u then [u] else [])"
  by (simp add: eligible_def)

lemma wsum_simps [simp]: "wsum [] = 0" "wsum (u # us) = go_weight u + wsum us"
    "wsum (us @ vs) = wsum us + wsum vs"
  by (simp_all add: wsum_def)

lemma wsum_nonneg: "0 \<le> wsum us"
  by (simp add: wsum_def sum_weights_nonneg)

lemma wrr_step_eligible:
  assumes "is_eligible mx u" and "wrap64 (wrr_get cur (sn_ID u) + go_weight u) = c"
    and "wrap64 (tot + go_weight u) = t"
  shows "wrr_step mx u (cur, tot, best, bc) =
    (if best = [] \<or> bc < c then (cur(sn_ID u \<mapsto> c), t, sn_ID u, c) else (cur(sn_ID u \<mapsto> c), t, best, bc))"
  using assms by (simp add: wrr_step_def Let_def)

lemma wrr_get_upd: "wrr_get (m(i \<mapsto> c)) j = (if j = i then c else wrr_get m j)"
  by (simp add: wrr_get_def)

lemma wrr_scan_step:
  assumes inv: "wrr_scan_inv m mx seen (cur, tot, best, bc)"
    and fresh: "sn_ID u \<notin> sn_ID ` set seen" and nm: "named (seen @ [u])"
    and fits: "wrr_fits (seen @ [u]) mx m"
  shows "wrr_scan_inv m mx (seen @ [u]) (wrr_step mx u (cur, tot, best, bc))"
proof (cases "is_eligible mx u")
  case False
  with inv show ?thesis by (simp add: wrr_scan_inv_def wrr_step_def eligible_one)
next
  case True
  let ?c = "wrr_get m (sn_ID u) + go_weight u"
  have fr: "sn_ID u \<notin> sn_ID ` set (eligible seen mx)" using fresh by (auto simp: eligible_def)
  then have ne: "\<forall>v\<in>set (eligible seen mx). sn_ID v \<noteq> sn_ID u" by (metis imageI)
  from fr inv have get: "wrr_get cur (sn_ID u) = wrr_get m (sn_ID u)" by (simp add: wrr_scan_inv_def wrr_get_def)
  have tot: "tot = wsum (eligible seen mx)" using inv by (simp add: wrr_scan_inv_def)
  have c: "wrap64 (wrr_get cur (sn_ID u) + go_weight u) = ?c"
    using fits True go_weight_pos [of u] by (auto simp: get wrr_fits_def eligible_one intro!: wrap64_id)
  have t: "wrap64 (tot + go_weight u) = tot + go_weight u"
    using fits True go_weight_pos [of u] wsum_nonneg [of "eligible seen mx"]
    by (auto simp: tot wrr_fits_def eligible_one intro!: wrap64_id)
  have ids: "best = [] \<longleftrightarrow> eligible seen mx = []"
    using inv nm by (auto simp: wrr_scan_inv_def eligible_def list_all_iff split: if_splits)
  note step = wrr_step_eligible [OF True c t, of best bc]
  have upd: "\<forall>v\<in>set (eligible seen mx). wrr_get (cur(sn_ID u \<mapsto> ?c)) (sn_ID v) = wrr_get m (sn_ID v) + go_weight v"
    using inv ne by (simp add: wrr_scan_inv_def wrr_get_upd)
  show ?thesis
  proof (cases "best = [] \<or> bc < ?c")
    case less: True
    have "\<forall>v\<in>set (eligible seen mx). wrr_get m (sn_ID v) + go_weight v \<le> ?c"
      using inv less ids by (fastforce simp: wrr_scan_inv_def)
    with less True upd inv tot step show ?thesis
      by (simp add: wrr_scan_inv_def eligible_one wrr_get_upd)
  next
    case False
    with True upd inv tot step ids show ?thesis
      by (auto simp: wrr_scan_inv_def eligible_one wrr_get_upd)
  qed
qed

lemma wrr_scan:
  assumes "distinct (map sn_ID pool)" and "named pool" and "wrr_fits pool mx m"
  shows "wrr_scan_inv m mx pool (fold (wrr_step mx) pool (m, 0, [], 0))"
  using assms
proof (induction pool rule: rev_induct)
  case Nil
  show ?case by (simp add: wrr_scan_inv_def eligible_def)
next
  case (snoc u pool)
  have "wrr_fits pool mx m"
    using snoc.prems(3) wsum_nonneg [of "eligible [u] mx"] by (auto simp: wrr_fits_def)
  with snoc have "wrr_scan_inv m mx pool (fold (wrr_step mx) pool (m, 0, [], 0))" by simp
  moreover obtain a b c d where r: "fold (wrr_step mx) pool (m, 0, [], 0) = (a, b, c, d)"
    by (cases "fold (wrr_step mx) pool (m, 0, [], 0)")
  ultimately have "wrr_scan_inv m mx (pool @ [u]) (wrr_step mx u (a, b, c, d))"
    using snoc.prems by (intro wrr_scan_step) auto
  with r show ?case by simp
qed

lemma wrr_get_restrict: "u \<in> set pool \<Longrightarrow> wrr_get (m |` (sn_ID ` set pool)) (sn_ID u) = wrr_get m (sn_ID u)"
  by (simp add: wrr_get_def restrict_map_def)

text \<open>
  One pick on a pool with an eligible upstream: the upstream with the greatest raised weight
  wins and pays the total, every other one keeps its raised weight.
\<close>

lemma WRR_Pick_step:
  assumes d: "distinct (map sn_ID pool)" and nm: "named pool" and fits: "wrr_fits pool mx m"
    and ne: "eligible pool mx \<noteq> []"
    and low: "\<forall>u\<in>set (eligible pool mx). wsum (eligible pool mx) - 2 ^ 63 \<le> wrr_get m (sn_ID u)"
  obtains b where "b \<in> set (eligible pool mx)" and "fst (WRR_Pick sc pool mx m) = sn_ID b"
    and "\<forall>v\<in>set (eligible pool mx).
      wrr_get m (sn_ID v) + go_weight v \<le> wrr_get m (sn_ID b) + go_weight b"
    and "\<forall>v\<in>set (eligible pool mx). wrr_get (snd (WRR_Pick sc pool mx m)) (sn_ID v) =
      wrr_get m (sn_ID v) + go_weight v - (if v = b then wsum (eligible pool mx) else 0)"
proof -
  let ?E = "eligible pool mx" and ?m = "m |` (sn_ID ` set pool)"
  have sub: "set ?E \<subseteq> set pool" by (auto simp: eligible_def)
  have gm: "wrr_get ?m (sn_ID u) = wrr_get m (sn_ID u)" if "u \<in> set ?E" for u
    using that sub by (intro wrr_get_restrict) auto
  have "wrr_fits pool mx ?m" using fits gm by (simp add: wrr_fits_def)
  from wrr_scan [OF d nm this] obtain cur tot best bc where
      r: "fold (wrr_step mx) pool (?m, 0, [], 0) = (cur, tot, best, bc)"
      and inv: "wrr_scan_inv ?m mx pool (cur, tot, best, bc)"
    by (metis prod.collapse)
  from inv ne obtain b where b: "b \<in> set ?E" "best = sn_ID b" "bc = wrr_get m (sn_ID b) + go_weight b"
      "\<forall>v\<in>set ?E. wrr_get m (sn_ID v) + go_weight v \<le> bc"
    by (auto simp: wrr_scan_inv_def gm)
  have tot: "tot = wsum ?E" using inv by (simp add: wrr_scan_inv_def)
  have "best \<noteq> []" using b nm sub by (auto simp: list_all_iff)
  moreover have "wrap64 (bc - tot) = bc - tot"
    using b fits low go_weight_pos [of b] wsum_nonneg [of ?E]
    by (intro wrap64_id) (auto simp: wrr_fits_def tot)
  ultimately have pick: "WRR_Pick sc pool mx m = (sn_ID b, cur(sn_ID b \<mapsto> bc - tot))"
    using r b(2) by (simp add: WRR_Pick_def)
  have "wrr_get (cur(sn_ID b \<mapsto> bc - tot)) (sn_ID v) =
      wrr_get m (sn_ID v) + go_weight v - (if v = b then wsum ?E else 0)" if v: "v \<in> set ?E" for v
  proof -
    have "sn_ID v = sn_ID b \<longleftrightarrow> v = b" using d v b(1) sub by (auto simp: distinct_map dest: inj_onD)
    moreover have "wrr_get cur (sn_ID v) = wrr_get m (sn_ID v) + go_weight v"
      using inv v gm [OF v] by (simp add: wrr_scan_inv_def)
    ultimately show ?thesis by (simp add: wrr_get_upd b(3) tot)
  qed
  with b pick show thesis by (intro that [of b]) auto
qed

section \<open>A run of picks\<close>

fun wrr_run ::
  "nat \<Rightarrow> SelectCtx \<Rightarrow> Snapshot list \<Rightarrow> int \<Rightarrow> (string \<rightharpoonup> int) \<Rightarrow> string list \<times> (string \<rightharpoonup> int)" where
  "wrr_run 0 sc pool mx m = ([], m)"
| "wrr_run (Suc k) sc pool mx m =
     (case wrr_run k sc pool mx m of
        (ids, m') \<Rightarrow> (case WRR_Pick sc pool mx m' of (i, m'') \<Rightarrow> (ids @ [i], m'')))"

definition shares_inv :: "Snapshot list \<Rightarrow> nat \<Rightarrow> string list \<times> (string \<rightharpoonup> int) \<Rightarrow> bool" where
  "shares_inv E k st \<longleftrightarrow>
     (case st of (ids, m) \<Rightarrow>
        (\<Sum>u\<leftarrow>E. int (count_list ids (sn_ID u))) = int k \<and>
        (\<forall>u\<in>set E. 1 - wsum E \<le> wrr_get m (sn_ID u) \<and>
           wrr_get m (sn_ID u) = int k * go_weight u - wsum E * int (count_list ids (sn_ID u)) \<and>
           int (count_list ids (sn_ID u)) \<le> go_weight u))"

lemma zero_sum_bound:
  fixes f :: "'a \<Rightarrow> int"
  assumes "\<forall>x\<in>set xs. - B \<le> f x" and "(\<Sum>x\<leftarrow>xs. f x) = 0" and "x \<in> set xs"
  shows "f x + B \<le> int (length xs) * B"
proof -
  have "f x + B \<le> (\<Sum>y\<leftarrow>xs. f y + B)"
    using assms(1,3) by (intro member_le_sum_list) auto
  also have "\<dots> = int (length xs) * B" using assms(2) by (simp add: sum_list_addf sum_list_triv)
  finally show ?thesis .
qed

lemma shares_zero_sum:
  assumes "shares_inv E k (ids, m)"
  shows "(\<Sum>u\<leftarrow>E. wrr_get m (sn_ID u)) = 0"
proof -
  have "(\<Sum>u\<leftarrow>E. wrr_get m (sn_ID u)) =
      (\<Sum>u\<leftarrow>E. int k * go_weight u - wsum E * int (count_list ids (sn_ID u)))"
    using assms by (intro arg_cong [where f = sum_list] map_cong) (auto simp: shares_inv_def)
  also have "\<dots> = int k * wsum E - wsum E * (\<Sum>u\<leftarrow>E. int (count_list ids (sn_ID u)))"
    by (simp add: sum_list_subtractf sum_list_const_mult wsum_def)
  also have "\<dots> = 0" using assms by (simp add: shares_inv_def)
  finally show ?thesis .
qed

lemma max_pos:
  fixes f :: "'a \<Rightarrow> int"
  assumes "0 < (\<Sum>x\<leftarrow>xs. f x)" and "\<forall>x\<in>set xs. f x \<le> c"
  shows "0 < c"
proof (rule ccontr)
  assume "\<not> 0 < c"
  then have "(\<Sum>x\<leftarrow>xs. f x) \<le> 0" using assms(2) by (intro sum_list_nonpos) fastforce
  with assms(1) show False by simp
qed

lemma count_snoc_sum:
  assumes "distinct (map sn_ID E)" and "b \<in> set E"
  shows "(\<Sum>u\<leftarrow>E. int (count_list (ids @ [sn_ID b]) (sn_ID u))) = (\<Sum>u\<leftarrow>E. int (count_list ids (sn_ID u))) + 1"
  using assms
proof (induction E)
  case (Cons u E)
  show ?case
  proof (cases "b = u")
    case True
    then have "\<forall>v\<in>set E. sn_ID b \<noteq> sn_ID v" using Cons.prems(1) by auto
    then have "(\<Sum>v\<leftarrow>E. int (count_list (ids @ [sn_ID b]) (sn_ID v))) = (\<Sum>v\<leftarrow>E. int (count_list ids (sn_ID v)))"
      by (intro arg_cong [where f = sum_list] map_cong) auto
    with True show ?thesis by simp
  next
    case False
    with Cons.prems have "b \<in> set E" "sn_ID b \<noteq> sn_ID u" by (auto simp: image_iff)
    with Cons show ?thesis by simp
  qed
qed simp

lemma shares_fits:
  assumes inv: "shares_inv (eligible pool mx) k (ids, m)" and ne: "eligible pool mx \<noteq> []"
    and bound: "int (length (eligible pool mx)) * wsum (eligible pool mx) < 2 ^ 63"
  shows "wrr_fits pool mx m"
    and "\<forall>u\<in>set (eligible pool mx). wsum (eligible pool mx) - 2 ^ 63 \<le> wrr_get m (sn_ID u)"
proof -
  let ?E = "eligible pool mx" and ?W = "wsum (eligible pool mx)"
  have len: "1 \<le> int (length ?E)" using ne by (cases ?E) auto
  have W: "?W \<le> int (length ?E) * ?W" using mult_right_mono [OF len wsum_nonneg [of ?E]] by simp
  have low: "\<forall>u\<in>set ?E. - ?W \<le> wrr_get m (sn_ID u)" using inv by (auto simp: shares_inv_def)
  have mem: "go_weight u \<le> ?W" if "u \<in> set ?E" for u
    unfolding wsum_def using that go_weight_pos by (intro member_le_sum_list) (auto intro: less_imp_le)
  have up: "wrr_get m (sn_ID u) + ?W \<le> int (length ?E) * ?W" if "u \<in> set ?E" for u
    using zero_sum_bound [OF low shares_zero_sum [OF inv] that] .
  show "wrr_fits pool mx m"
    unfolding wrr_fits_def using W bound low mem up by force
  have "2 * ?W \<le> 2 ^ 63 \<or> length ?E = 1"
  proof (cases "length ?E = 1")
    case False
    with len have "2 \<le> int (length ?E)" by linarith
    from mult_right_mono [OF this wsum_nonneg [of ?E]] bound show ?thesis by linarith
  qed simp
  then show "\<forall>u\<in>set ?E. ?W - 2 ^ 63 \<le> wrr_get m (sn_ID u)"
  proof
    assume "length ?E = 1"
    then obtain u where "?E = [u]" by (auto simp: length_Suc_conv)
    with shares_zero_sum [OF inv] W bound show ?thesis by simp
  qed (use low in force)
qed

lemma shares_step:
  assumes d: "distinct (map sn_ID pool)" and nm: "named pool" and ne: "eligible pool mx \<noteq> []"
    and bound: "int (length (eligible pool mx)) * wsum (eligible pool mx) < 2 ^ 63"
    and inv: "shares_inv (eligible pool mx) k (ids, m)" and k: "int k < wsum (eligible pool mx)"
    and pick: "WRR_Pick sc pool mx m = (i, m')"
  shows "shares_inv (eligible pool mx) (Suc k) (ids @ [i], m')"
proof -
  let ?E = "eligible pool mx" and ?W = "wsum (eligible pool mx)"
  obtain b where b: "b \<in> set ?E" "i = sn_ID b"
      "\<forall>v\<in>set ?E. wrr_get m (sn_ID v) + go_weight v \<le> wrr_get m (sn_ID b) + go_weight b"
      "\<forall>v\<in>set ?E. wrr_get m' (sn_ID v) = wrr_get m (sn_ID v) + go_weight v - (if v = b then ?W else 0)"
    by (rule WRR_Pick_step [OF d nm shares_fits(1) [OF inv ne bound] ne shares_fits(2) [OF inv ne bound], of sc])
      (simp add: pick)
  have W: "0 < ?W" using k by linarith
  have "(\<Sum>v\<leftarrow>?E. wrr_get m (sn_ID v) + go_weight v) = ?W"
    using shares_zero_sum [OF inv] by (simp add: sum_list_addf wsum_def)
  then have pos: "0 < wrr_get m (sn_ID b) + go_weight b"
    using max_pos [OF _ b(3)] W by simp
  have dE: "distinct (map sn_ID ?E)" using d by (simp add: eligible_def distinct_map_filter)
  have same: "sn_ID v = sn_ID b \<longleftrightarrow> v = b" if "v \<in> set ?E" for v
    using dE that b(1) by (auto simp: distinct_map dest: inj_onD)
  have old: "wrr_get m (sn_ID v) = int k * go_weight v - ?W * int (count_list ids (sn_ID v))"
      "1 - ?W \<le> wrr_get m (sn_ID v)" "int (count_list ids (sn_ID v)) \<le> go_weight v" if "v \<in> set ?E" for v
    using inv that unfolding shares_inv_def by blast+
  have "int (count_list ids (sn_ID b)) < go_weight b"
  proof (rule ccontr)
    assume "\<not> ?thesis"
    with old(3) [OF b(1)] have "int (count_list ids (sn_ID b)) = go_weight b" by simp
    with pos old(1) [OF b(1)] have "0 < (int k + 1 - ?W) * go_weight b" by (simp add: algebra_simps)
    with k go_weight_pos [of b] show False by (simp add: zero_less_mult_iff)
  qed
  then have new: "1 - ?W \<le> wrr_get m' (sn_ID v) \<and>
      wrr_get m' (sn_ID v) = int (Suc k) * go_weight v - ?W * int (count_list (ids @ [i]) (sn_ID v)) \<and>
      int (count_list (ids @ [i]) (sn_ID v)) \<le> go_weight v" if v: "v \<in> set ?E" for v
    using b(4) v old [OF v] same [OF v] pos go_weight_pos [of v] by (auto simp: b(2) algebra_simps)
  moreover have "(\<Sum>u\<leftarrow>?E. int (count_list (ids @ [i]) (sn_ID u))) = int (Suc k)"
    unfolding b(2) count_snoc_sum [OF dE b(1)] using inv by (simp add: shares_inv_def)
  ultimately show ?thesis unfolding shares_inv_def by blast
qed

lemma shares_run:
  assumes "distinct (map sn_ID pool)" and "named pool" and "eligible pool mx \<noteq> []"
    and "int (length (eligible pool mx)) * wsum (eligible pool mx) < 2 ^ 63"
    and "\<forall>u\<in>set (eligible pool mx). wrr_get m (sn_ID u) = 0" and "int k \<le> wsum (eligible pool mx)"
  shows "shares_inv (eligible pool mx) k (wrr_run k sc pool mx m)"
  using assms(6)
proof (induction k)
  case 0
  have "1 \<le> wsum (eligible pool mx)"
    using assms(3) go_weight_pos wsum_nonneg by (cases "eligible pool mx") (auto simp: add_pos_nonneg int_one_le_iff_zero_less)
  with assms(5) go_weight_pos show ?case by (auto simp: shares_inv_def intro: less_imp_le)
next
  case (Suc k)
  obtain ids m' where r: "wrr_run k sc pool mx m = (ids, m')" by fastforce
  obtain i m'' where p: "WRR_Pick sc pool mx m' = (i, m'')" by fastforce
  from Suc r have "shares_inv (eligible pool mx) k (ids, m')" by simp
  from shares_step [OF assms(1-4) this _ p] Suc.prems show ?case by (simp add: r p)
qed

lemma sum_list_eq_pointwise:
  fixes f g :: "'a \<Rightarrow> int"
  assumes "\<forall>x\<in>set xs. f x \<le> g x" and "(\<Sum>x\<leftarrow>xs. f x) = (\<Sum>x\<leftarrow>xs. g x)" and "x \<in> set xs"
  shows "f x = g x"
proof -
  have "(\<Sum>x\<leftarrow>xs. g x - f x) = 0" using assms(2) by (simp add: sum_list_subtractf)
  moreover have "g x - f x \<le> (\<Sum>x\<leftarrow>xs. g x - f x)" using assms(1,3) by (intro member_le_sum_list) auto
  ultimately show ?thesis using assms(1,3) by force
qed

section \<open>Fairness\<close>

text \<open>C16. Smooth weighted round robin is exactly fair: from balanced counters, in as many picks as
  the total weight of the eligible upstreams, each of them is picked exactly as often as its
  weight says and the counters are balanced again; the 64-bit arithmetic does not overflow.
\<close>
theorem WRR_fair:
  assumes "distinct (map sn_ID pool)" and "named pool"
    and "int (length (eligible pool mx)) * wsum (eligible pool mx) < 2 ^ 63"
    and "\<forall>u\<in>set (eligible pool mx). wrr_get m (sn_ID u) = 0"
    and "wrr_run (nat (wsum (eligible pool mx))) sc pool mx m = (ids, m')"
    and "u \<in> set pool" and "is_eligible mx u"
  shows "int (count_list ids (sn_ID u)) = go_weight u \<and> wrr_get m' (sn_ID u) = 0"
proof -
  let ?E = "eligible pool mx"
  have u: "u \<in> set ?E" using assms(6,7) by (simp add: eligible_def)
  have k: "int (nat (wsum ?E)) = wsum ?E" using wsum_nonneg by simp
  from u have "?E \<noteq> []" by auto
  from shares_run [OF assms(1,2) this assms(3,4), of "nat (wsum ?E)" sc] k assms(5)
  have inv: "shares_inv ?E (nat (wsum ?E)) (ids, m')" by simp
  then have "int (count_list ids (sn_ID u)) = go_weight u"
    using u k sum_list_eq_pointwise [of ?E "\<lambda>u. int (count_list ids (sn_ID u))" go_weight u]
    by (simp add: shares_inv_def wsum_def)
  with inv u k show ?thesis by (simp add: shares_inv_def)
qed

theorem WRR_fair_witness:
  "int (count_list (fst (wrr_run 3 ex_ctx ex_pool 9 Map.empty)) ''a'') = 2"
proof -
  have E: "eligible ex_pool 9 = [ex_snapshot ''a'' 2 5 True, ex_snapshot ''c'' 0 1 True]"
    by (simp add: ex_pool_def ex_snapshot_def eligible_def is_eligible_def)
  show ?thesis
    using WRR_fair [of ex_pool 9 Map.empty ex_ctx _ _ "ex_snapshot ''a'' 2 5 True", OF _ _ _ _ prod.collapse [symmetric]]
    by (simp add: E) (simp add: ex_pool_def ex_snapshot_def is_eligible_def go_weight_def wrr_get_def)
qed

end
