(* ===== verification/Transport.thy ===== *)
theory Transport
  imports Upstream_Parse
begin

text \<open>
  How upstream connections are opened: \<^verbatim>\<open>internal/transport\<close> (the factory, the direct and the
  two exec dialers) and the command that runs at the far end of an exec stream,
  \<^verbatim>\<open>cmd/kube-socks-relay\<close>.

  The Kubernetes client library, the WebSocket library and the file system are parameters:
  \<open>rest_load\<close> and its companions, \<open>new_client\<close>, \<open>new_executor\<close>, \<open>ReadFile\<close>, \<open>url_Parse\<close>.
  The connection an exec stream gives is modelled in the theory of stream connections; here a
  dial is described by what it asks of the library.
\<close>

section \<open>Text replacement\<close>

text \<open>\<^verbatim>\<open>strings.ReplaceAll\<close> for a pattern that is not empty.\<close>

function ReplaceAll :: "string \<Rightarrow> string \<Rightarrow> string \<Rightarrow> string" where
  "ReplaceAll s old new =
     (if s = [] \<or> old = [] then s
      else if has_prefix s old then new @ ReplaceAll (drop (length old) s) old new
      else hd s # ReplaceAll (tl s) old new)"
  by auto
termination by (relation "measure (\<lambda>(s, old, new). length s)") (auto simp: neq_Nil_conv)

declare ReplaceAll.simps [simp del]

lemma ReplaceAll_Nil [simp]: "ReplaceAll [] old new = []"
  by (simp add: ReplaceAll.simps)

section \<open>Dialers\<close>

definition KubeExecModeSPDY :: string where "KubeExecModeSPDY = ''spdy''"

definition KubeExecModeWebSocket :: string where "KubeExecModeWebSocket = ''websocket''"

definition KubeExecModeWebSocketPreferred :: string where
  "KubeExecModeWebSocketPreferred = ''websocket-preferred''"

definition KubeExecModeRawWSS :: string where "KubeExecModeRawWSS = ''raw-wss''"

lemmas kube_modes = KubeExecModeSPDY_def KubeExecModeWebSocket_def KubeExecModeWebSocketPreferred_def
  KubeExecModeRawWSS_def

record TCPDialer =
  td_Timeout :: int
  td_KeepAlive :: int

record 'rc KubernetesExecDialer =
  kd_restConfig :: 'rc
  kd_namespace :: string
  kd_pod :: string
  kd_container :: string
  kd_mode :: string
  kd_command :: "string list"
  kd_stderrLimit :: int

record RawWSSExecDialer =
  wd_urlTemplate :: string
  wd_command :: "string list"
  wd_bearerToken :: string
  wd_bearerTokenFile :: string
  wd_caFile :: string
  wd_insecureSkipTLSVerify :: bool
  wd_serverName :: string
  wd_headers :: "(string \<times> string) list"
  wd_stderrLimit :: int

datatype 'rc Dialer = DirectDialer TCPDialer | ExecDialer "'rc KubernetesExecDialer" | WSSDialer RawWSSExecDialer

text \<open>
  The configuration the library builds: from an explicit file, else from inside the cluster,
  else by the default rules.
\<close>

record 'rc rest_loader =
  rl_explicit :: "string \<Rightarrow> string \<Rightarrow> gerror + 'rc"
  rl_in_cluster :: "gerror + 'rc"
  rl_default :: "string \<Rightarrow> gerror + 'rc"

definition BuildRESTConfig :: "'rc rest_loader \<Rightarrow> string \<Rightarrow> string \<Rightarrow> gerror + 'rc" where
  "BuildRESTConfig L kubeconfigPath contextName =
     (if kubeconfigPath \<noteq> [] then
        (case rl_explicit L kubeconfigPath contextName of
           Inl err \<Rightarrow> Inl (Errorf ''load kubeconfig %q: %w'' [FStr kubeconfigPath, FErr err])
         | Inr cfg \<Rightarrow> Inr cfg)
      else
        (case rl_in_cluster L of
           Inr cfg \<Rightarrow> Inr cfg
         | Inl _ \<Rightarrow>
             (case rl_default L contextName of
                Inl err \<Rightarrow> Inl (Errorf ''load kubernetes config: %w'' [FErr err])
              | Inr cfg \<Rightarrow> Inr cfg)))"

text \<open>\<open>restConfig\<close> is \<open>None\<close> for a nil pointer; \<open>new_client\<close> is \<^verbatim>\<open>kubernetes.NewForConfig\<close>.\<close>

definition NewKubernetesExecDialer ::
  "('rc \<Rightarrow> gerror option) \<Rightarrow> 'rc option \<Rightarrow> KubernetesExecTransportConfig \<Rightarrow> gerror + 'rc KubernetesExecDialer" where
  "NewKubernetesExecDialer new_client restConfig cfg =
     (case restConfig of
        None \<Rightarrow> Inl (errors_New ''kubernetes rest config is nil'')
      | Some rc \<Rightarrow>
          let ns = (if kt_Namespace cfg = [] then ''default'' else kt_Namespace cfg);
              mode = (if kt_Mode cfg = [] then KubeExecModeWebSocketPreferred else kt_Mode cfg)
          in if kt_Pod cfg = [] then Inl (errors_New ''kubernetes exec pod is required'')
             else if kt_Command cfg = [] then Inl (errors_New ''kubernetes exec command is required'')
             else if mode \<notin> {KubeExecModeSPDY, KubeExecModeWebSocket, KubeExecModeWebSocketPreferred}
             then Inl (Errorf ''unsupported client-go kubernetes exec mode %q'' [FStr mode])
             else
               (case new_client rc of
                  Some err \<Rightarrow> Inl (Errorf ''create kubernetes client: %w'' [FErr err])
                | None \<Rightarrow>
                    Inr \<lparr>kd_restConfig = rc, kd_namespace = ns, kd_pod = kt_Pod cfg, kd_container = kt_Container cfg,
                      kd_mode = mode, kd_command = kt_Command cfg, kd_stderrLimit = 32 * 1024\<rparr>))"

definition NewRawWSSExecDialer ::
  "(string \<Rightarrow> gerror + URL) \<Rightarrow> KubernetesExecTransportConfig \<Rightarrow> gerror + RawWSSExecDialer" where
  "NewRawWSSExecDialer url_Parse cfg =
     (if kt_WSSURL cfg = [] then Inl (errors_New ''raw WSS exec URL is required'')
      else
        (case url_Parse (kt_WSSURL cfg) of
           Inl err \<Rightarrow> Inl (Errorf ''parse raw WSS exec URL: %w'' [FErr err])
         | Inr parsed \<Rightarrow>
             if url_Scheme parsed \<noteq> ''wss'' \<and> url_Scheme parsed \<noteq> ''ws''
             then Inl (Errorf ''raw exec URL must use ws or wss scheme, got %q'' [FStr (url_Scheme parsed)])
             else if url_Host parsed = [] then Inl (errors_New ''raw exec URL host is required'')
             else Inr \<lparr>wd_urlTemplate = kt_WSSURL cfg, wd_command = kt_Command cfg,
                    wd_bearerToken = kt_BearerToken cfg, wd_bearerTokenFile = kt_BearerTokenFile cfg,
                    wd_caFile = kt_CAFile cfg, wd_insecureSkipTLSVerify = kt_InsecureSkipTLSVerify cfg,
                    wd_serverName = kt_ServerName cfg, wd_headers = kt_Headers cfg, wd_stderrLimit = 32 * 1024\<rparr>))"

text \<open>What the factory takes from outside the repository.\<close>

record 'rc transport_env =
  te_url_Parse :: "string \<Rightarrow> gerror + URL"
  te_rest :: "'rc rest_loader"
  te_new_client :: "'rc \<Rightarrow> gerror option"

definition NewFromConfig :: "'rc transport_env \<Rightarrow> Config \<Rightarrow> gerror + 'rc Dialer" where
  "NewFromConfig env cfg =
     (let t = cf_Transport cfg; k = tc_Kubernetes t in
      if tc_Type t = [] \<or> tc_Type t = TransportDirect
      then Inr (DirectDialer \<lparr>td_Timeout = cf_ConnectTimeout cfg, td_KeepAlive = seconds 30\<rparr>)
      else if tc_Type t = TransportKubernetesExec then
        if kt_Mode k = KubeExecModeRawWSS \<or> kt_WSSURL k \<noteq> []
        then map_sum id WSSDialer (NewRawWSSExecDialer (te_url_Parse env) k)
        else
          (case BuildRESTConfig (te_rest env) (kt_Kubeconfig k) (kt_Context k) of
             Inl err \<Rightarrow> Inl err
           | Inr restCfg \<Rightarrow> map_sum id ExecDialer (NewKubernetesExecDialer (te_new_client env) (Some restCfg) k))
      else Inl (Errorf ''unsupported transport.type %q'' [FStr (tc_Type t)]))"

section \<open>Dialling through exec\<close>

definition splitAddress :: "string \<Rightarrow> gerror + (string \<times> string)" where
  "splitAddress address =
     (case SplitHostPort address of
        Inl err \<Rightarrow> Inl (Errorf ''split upstream address %q: %w'' [FStr address, FErr err])
      | Inr (host, port) \<Rightarrow>
          if host = [] \<or> port = [] then Inl (Errorf ''invalid upstream address %q'' [FStr address])
          else
            (case Atoi port of
               Inl err \<Rightarrow> Inl (Errorf ''invalid upstream port %q: %w'' [FStr port, FErr err])
             | Inr _ \<Rightarrow> Inr (host, port)))"

definition expandCommand :: "string list \<Rightarrow> string \<Rightarrow> string \<Rightarrow> string \<Rightarrow> string list" where
  "expandCommand template host port address =
     map (\<lambda>part. ReplaceAll (ReplaceAll (ReplaceAll part ''{{host}}'' host) ''{{port}}'' port) ''{{address}}'' address)
       template"

record streamAddr =
  sa_network :: string
  sa_address :: string

text \<open>
  \<open>DialContext\<close> of the exec dialer up to the stream: the command to run and the addresses of
  the connection.  The executor is chosen by mode; the preferred one falls back.
\<close>

definition kube_executor ::
  "(string \<Rightarrow> gerror + 'ex) \<Rightarrow> (gerror \<Rightarrow> gerror \<Rightarrow> gerror) \<Rightarrow> 'rc KubernetesExecDialer \<Rightarrow> gerror + 'ex" where
  "kube_executor new_executor errors_Join d =
     (if kd_mode d = KubeExecModeSPDY then new_executor ''spdy''
      else if kd_mode d = KubeExecModeWebSocket then new_executor ''websocket''
      else if kd_mode d = KubeExecModeWebSocketPreferred then
        (case new_executor ''websocket'' of
           Inr wsExec \<Rightarrow> Inr wsExec
         | Inl wsErr \<Rightarrow>
             (case new_executor ''spdy'' of
                Inl spdyErr \<Rightarrow> Inl (Errorf ''websocket executor: %w'' [FErr (errors_Join wsErr spdyErr)])
              | Inr spdyExec \<Rightarrow> Inr spdyExec))
      else Inl (Errorf ''unsupported kubernetes exec mode %q'' [FStr (kd_mode d)]))"

definition kube_DialContext ::
  "(string \<Rightarrow> gerror + 'ex) \<Rightarrow> (gerror \<Rightarrow> gerror \<Rightarrow> gerror) \<Rightarrow> gerror option \<Rightarrow> 'rc KubernetesExecDialer \<Rightarrow>
   string \<Rightarrow> string \<Rightarrow> gerror + (string list \<times> 'ex \<times> streamAddr \<times> streamAddr)" where
  "kube_DialContext new_executor errors_Join ctxErr d network address =
     (if network \<noteq> ''tcp'' \<and> network \<noteq> ''tcp4'' \<and> network \<noteq> ''tcp6''
      then Inl (Errorf ''kubernetes exec dialer only supports tcp, got %q'' [FStr network])
      else
        (case splitAddress address of
           Inl err \<Rightarrow> Inl err
         | Inr (host, port) \<Rightarrow>
             (case kube_executor new_executor errors_Join d of
                Inl err \<Rightarrow> Inl err
              | Inr ex \<Rightarrow>
                  (case ctxErr of
                     Some err \<Rightarrow> Inl err
                   | None \<Rightarrow>
                       Inr (expandCommand (kd_command d) host port address, ex,
                         \<lparr>sa_network = ''kube-exec'', sa_address = kd_namespace d @ ''/'' @ kd_pod d\<rparr>,
                         \<lparr>sa_network = network, sa_address = address\<rparr>)))))"

text \<open>
  The headers of the WebSocket handshake.  \<open>canon\<close> is the canonical form of a header name and
  \<open>h.Set\<close> replaces the value of a name.
\<close>

definition header_Set :: "(string \<Rightarrow> string) \<Rightarrow> (string \<rightharpoonup> string) \<Rightarrow> string \<Rightarrow> string \<Rightarrow> (string \<rightharpoonup> string)" where
  "header_Set canon h k v = h(canon k \<mapsto> v)"

definition header_Get :: "(string \<Rightarrow> string) \<Rightarrow> (string \<rightharpoonup> string) \<Rightarrow> string \<Rightarrow> string" where
  "header_Get canon h k = (case h (canon k) of None \<Rightarrow> [] | Some v \<Rightarrow> v)"

definition add_token :: "(string \<Rightarrow> string) \<Rightarrow> (string \<rightharpoonup> string) \<Rightarrow> string \<Rightarrow> (string \<rightharpoonup> string)" where
  "add_token canon h token =
     (if token \<noteq> [] \<and> header_Get canon h ''Authorization'' = []
      then header_Set canon h ''Authorization'' (''Bearer '' @ token) else h)"

definition buildHeaders ::
  "(string \<Rightarrow> string) \<Rightarrow> (string \<Rightarrow> gerror + string) \<Rightarrow> RawWSSExecDialer \<Rightarrow> gerror + (string \<rightharpoonup> string)" where
  "buildHeaders canon ReadFile d =
     (let h = fold (\<lambda>(k, v) h. header_Set canon h k v) (wd_headers d) Map.empty;
          token = TrimSpace (wd_bearerToken d)
      in if token = [] \<and> wd_bearerTokenFile d \<noteq> [] then
           (case ReadFile (wd_bearerTokenFile d) of
              Inl err \<Rightarrow> Inl (Errorf ''read bearer token file %q: %w'' [FStr (wd_bearerTokenFile d), FErr err])
            | Inr raw \<Rightarrow> Inr (add_token canon h (TrimSpace raw)))
         else Inr (add_token canon h token))"

section \<open>The relay\<close>

text \<open>
  \<^verbatim>\<open>kube-socks-relay\<close>: from the command line to the address it dials, and how a copy error is
  reported.
\<close>

definition relay_target :: "string list \<Rightarrow> gerror + (string \<times> string)" where
  "relay_target args =
     (case args of
        [_, network, host, port] \<Rightarrow>
          if network \<noteq> ''tcp'' \<and> network \<noteq> ''tcp4'' \<and> network \<noteq> ''tcp6''
          then Inl (Errorf ''unsupported network %q'' [FStr network])
          else Inr (network, JoinHostPort host port)
      | _ \<Rightarrow> Inl (errors_New ''usage: kube-socks-relay tcp host port''))"

text \<open>\<^verbatim>\<open>errors.Is\<close> follows the chain of wrapped causes.\<close>

fun errors_Is :: "gerror \<Rightarrow> io_error \<Rightarrow> bool" where
  "errors_Is (IOErr e) target = (e = target)"
| "errors_Is (Errorf fmt args) target = list_ex (\<lambda>a. case a of FErr e \<Rightarrow> errors_Is e target | _ \<Rightarrow> False) args"

definition normalizeCopyErr :: "gerror option \<Rightarrow> gerror option" where
  "normalizeCopyErr err =
     (case err of
        None \<Rightarrow> None
      | Some e \<Rightarrow> if errors_Is e EOF then None else if errors_Is e ErrClosed then None else Some e)"

section \<open>Lemmas\<close>

lemma ReplaceAll_absent: "c \<notin> set s \<Longrightarrow> ReplaceAll s (c # cs) new = s"
proof (induction s)
  case (Cons x s)
  then have "\<not> has_prefix (x # s) (c # cs)" by (auto simp: has_prefix_def)
  with Cons show ?case by (subst ReplaceAll.simps) simp
qed simp

lemma ReplaceAll_whole: "old \<noteq> [] \<Longrightarrow> ReplaceAll old old new = new"
  by (subst ReplaceAll.simps) (simp add: has_prefix_def)

lemma expand_host:
  assumes "CHR ''{'' \<notin> set host"
  shows "ReplaceAll (ReplaceAll (ReplaceAll ''{{host}}'' ''{{host}}'' host) ''{{port}}'' port) ''{{address}}'' address = host"
  using assms by (simp add: ReplaceAll_whole ReplaceAll_absent)

lemma expand_port:
  assumes "CHR ''{'' \<notin> set port"
  shows "ReplaceAll (ReplaceAll (ReplaceAll ''{{port}}'' ''{{host}}'' host) ''{{port}}'' port) ''{{address}}'' address = port"
proof -
  have "ReplaceAll ''{{port}}'' ''{{host}}'' host = ''{{port}}''"
    by (simp add: ReplaceAll.simps has_prefix_def)
  with assms show ?thesis by (simp add: ReplaceAll_whole ReplaceAll_absent)
qed

lemma JoinHostPort_Addr:
  assumes "CHR ''['' \<notin> set (up_Host u)"
  shows "JoinHostPort (up_Host u) (Itoa (up_Port u)) = Addr u"
proof -
  have "\<not> has_prefix (up_Host u) ''[''" using assms hd_in_set by (fastforce simp: has_prefix_single)
  moreover have "contains (up_Host u) '':'' \<longleftrightarrow> CHR '':'' \<in> set (up_Host u)" by (simp add: contains_single)
  ultimately show ?thesis using index_of_None [of "CHR '':''" "up_Host u"]
    by (auto simp: JoinHostPort_def Addr_def)
qed

lemma splitAddress_Addr:
  assumes "\<forall>c\<in>set (up_Host u). c \<noteq> CHR ''['' \<and> c \<noteq> CHR '']''" and "up_Host u \<noteq> []"
    and "1 \<le> up_Port u" and "up_Port u \<le> 65535"
  shows "splitAddress (Addr u) = Inr (up_Host u, Itoa (up_Port u))"
  using assms by (simp add: splitAddress_def SplitHostPort_Addr Atoi_Itoa)

section \<open>Properties\<close>

text \<open>An upstream dialled through pod exec with the recommended command is reached: the dialer
  splits the upstream's address, runs the relay with that host and port, and the relay joins
  them to the very address the balancer dialled, for IPv4, IPv6 and host names alike.\<close>
theorem exec_dial_reaches_upstream:
  assumes "\<forall>c\<in>set (up_Host u). c \<notin> {CHR ''['', CHR '']'', CHR ''{''}" and "up_Host u \<noteq> []"
    and "1 \<le> up_Port u" and "up_Port u \<le> 65535"
    and "kd_command d = [relay, ''tcp'', ''{{host}}'', ''{{port}}'']"
    and "kube_executor new_executor errors_Join d = Inr ex"
  shows "\<exists>command local remote.
    kube_DialContext new_executor errors_Join None d ''tcp'' (Addr u) = Inr (command, ex, local, remote) \<and>
    relay_target command = Inr (''tcp'', Addr u) \<and> sa_address remote = Addr u"
proof -
  let ?port = "Itoa (up_Port u)"
  have free: "CHR ''{'' \<notin> set (up_Host u)" "CHR ''{'' \<notin> set ?port"
    using assms(1) Itoa_chars [of "CHR ''{''" "up_Port u"] by (auto simp: is_digit_def)
  have "expandCommand (kd_command d) (up_Host u) ?port (Addr u) =
      [ReplaceAll (ReplaceAll (ReplaceAll relay ''{{host}}'' (up_Host u)) ''{{port}}'' ?port) ''{{address}}'' (Addr u),
       ''tcp'', up_Host u, ?port]"
    unfolding assms(5) expandCommand_def
    by (simp only: list.map expand_host [OF free(1)] expand_port [OF free(2)]) (simp add: ReplaceAll_absent)
  moreover have "splitAddress (Addr u) = Inr (up_Host u, ?port)"
    using assms by (intro splitAddress_Addr) auto
  moreover have "JoinHostPort (up_Host u) ?port = Addr u" using assms(1) by (intro JoinHostPort_Addr) auto
  ultimately show ?thesis using assms(6) by (simp add: kube_DialContext_def relay_target_def)
qed

definition ex_exec :: "unit KubernetesExecDialer" where
  "ex_exec = \<lparr>kd_restConfig = (), kd_namespace = ''ns'', kd_pod = ''pod'', kd_container = [],
     kd_mode = ''websocket-preferred'', kd_command = [''/relay'', ''tcp'', ''{{host}}'', ''{{port}}''],
     kd_stderrLimit = 32768\<rparr>"

theorem exec_dial_reaches_upstream_witness:
  "\<exists>command local remote.
     kube_DialContext (\<lambda>m. if m = ''spdy'' then Inr (5::nat) else Inl (errors_New ''no websocket'')) (\<lambda>a b. a) None
       ex_exec ''tcp'' (Addr (upstream_New ''fd00::1'' 1080 [] [] 1 0)) = Inr (command, 5, local, remote) \<and>
     relay_target command = Inr (''tcp'', Addr (upstream_New ''fd00::1'' 1080 [] [] 1 0)) \<and>
     sa_address remote = Addr (upstream_New ''fd00::1'' 1080 [] [] 1 0)"
  by (rule exec_dial_reaches_upstream [where relay = "''/relay''"])
    (simp_all add: upstream_New_def NormalizeID_def ex_exec_def kube_executor_def kube_modes)

end
