(* ===== verification/Tracker.thy ===== *)
theory Tracker
  imports S5_Prelude
begin

text \<open>
  The session tracker of \<^verbatim>\<open>internal/admission/tracker.go\<close>: an intrusive doubly linked list of
  sessions, oldest first.

  Sessions live in a store from addresses to records, so that the pointer surgery of \<open>Add\<close> and
  \<open>Release\<close> is modelled as it is written.  Loops over the list follow the \<open>next\<close> pointers and
  may in principle not end; they are partial functions into \<open>option\<close>, and \<open>None\<close> is a loop
  that does not return.  The predicate \<open>tracks\<close> relates a store to the list of addresses it
  holds, and every operation is shown to refine the operation on lists: append, remove, select.
\<close>

section \<open>State\<close>

type_synonym sref = nat

record NetConn =
  nc_handle :: nat
  nc_RemoteAddr :: "string option"

record Session =
  s_Conn :: "NetConn option"
  s_UpstreamID :: string
  s_UpstreamPrio :: int
  s_AdmittedAt :: int
  s_prev :: "sref option"
  s_next :: "sref option"
  s_released :: bool

type_synonym sstore = "sref \<Rightarrow> Session"

record Tracker =
  t_head :: "sref option"
  t_tail :: "sref option"
  t_count :: int

definition NewTracker :: Tracker where
  "NewTracker = \<lparr>t_head = None, t_tail = None, t_count = 0\<rparr>"

section \<open>Operations\<close>

definition tracker_Add :: "sref \<Rightarrow> Tracker \<times> sstore \<Rightarrow> Tracker \<times> sstore" where
  "tracker_Add s th =
     (case th of (t, h) \<Rightarrow>
        let h1 = h(s := (h s)\<lparr>s_released := False, s_prev := t_tail t, s_next := None\<rparr>);
            (t', h2) =
              (case t_tail t of
                 Some l \<Rightarrow> (t, h1(l := (h1 l)\<lparr>s_next := Some s\<rparr>))
               | None \<Rightarrow> (t\<lparr>t_head := Some s\<rparr>, h1))
        in (t'\<lparr>t_tail := Some s, t_count := t_count t + 1\<rparr>, h2))"

definition tracker_Release :: "sref \<Rightarrow> Tracker \<times> sstore \<Rightarrow> Tracker \<times> sstore" where
  "tracker_Release s th =
     (case th of (t, h) \<Rightarrow>
        if s_released (h s) then (t, h)
        else if t_count t \<le> 0 then (t, h(s := (h s)\<lparr>s_released := True\<rparr>))
        else
          let h0 = h(s := (h s)\<lparr>s_released := True\<rparr>);
              (t1, h1) =
                (case s_prev (h0 s) of
                   Some p \<Rightarrow> (t, h0(p := (h0 p)\<lparr>s_next := s_next (h0 s)\<rparr>))
                 | None \<Rightarrow> (t\<lparr>t_head := s_next (h0 s)\<rparr>, h0));
              (t2, h2) =
                (case s_next (h1 s) of
                   Some n \<Rightarrow> (t1, h1(n := (h1 n)\<lparr>s_prev := s_prev (h1 s)\<rparr>))
                 | None \<Rightarrow> (t1\<lparr>t_tail := s_prev (h1 s)\<rparr>, h1))
          in (t2\<lparr>t_count := t_count t2 - 1\<rparr>, h2(s := (h2 s)\<lparr>s_prev := None, s_next := None\<rparr>)))"

definition tracker_Update :: "sref \<Rightarrow> string \<Rightarrow> int \<Rightarrow> Tracker \<times> sstore \<Rightarrow> Tracker \<times> sstore" where
  "tracker_Update s upID prio th =
     (case th of (t, h) \<Rightarrow> (t, h(s := (h s)\<lparr>s_UpstreamID := upID, s_UpstreamPrio := prio\<rparr>)))"

definition tracker_Count :: "Tracker \<times> sstore \<Rightarrow> int" where
  "tracker_Count th = t_count (fst th)"

record SessionSnapshot =
  ss_ClientAddr :: string
  ss_UpstreamID :: string
  ss_UpstreamPrio :: int
  ss_AdmittedAt :: int

definition session_snapshot :: "Session \<Rightarrow> SessionSnapshot" where
  "session_snapshot s =
     \<lparr>ss_ClientAddr =
        (case s_Conn s of
           Some c \<Rightarrow> (case nc_RemoteAddr c of Some ra \<Rightarrow> ra | None \<Rightarrow> [])
         | None \<Rightarrow> []),
      ss_UpstreamID = s_UpstreamID s, ss_UpstreamPrio = s_UpstreamPrio s, ss_AdmittedAt = s_AdmittedAt s\<rparr>"

text \<open>The loop \<open>for s := p; s != nil; s = s.next\<close> that collects a value per session.\<close>

partial_function (option) walk :: "(Session \<Rightarrow> 'a) \<Rightarrow> sstore \<Rightarrow> sref option \<Rightarrow> 'a list \<Rightarrow> 'a list option" where
  "walk f h p out =
     (case p of None \<Rightarrow> Some out | Some s \<Rightarrow> walk f h (s_next (h s)) (out @ [f (h s)]))"

definition tracker_Sessions :: "Tracker \<times> sstore \<Rightarrow> SessionSnapshot list option" where
  "tracker_Sessions th = walk session_snapshot (snd th) (t_head (fst th)) []"

record Victim =
  v_Conn :: "NetConn option"
  v_UpstreamID :: string
  v_UpstreamPrio :: int
  v_AdmittedAt :: int

definition victimFromSession :: "Session \<Rightarrow> Victim" where
  "victimFromSession s =
     \<lparr>v_Conn = s_Conn s, v_UpstreamID = s_UpstreamID s, v_UpstreamPrio = s_UpstreamPrio s,
      v_AdmittedAt = s_AdmittedAt s\<rparr>"

text \<open>The pick operations return \<open>(Victim{}, false)\<close> as an inner \<open>None\<close>.\<close>

definition PickOldestVictim :: "Tracker \<times> sstore \<Rightarrow> Victim option" where
  "PickOldestVictim th =
     (case t_head (fst th) of None \<Rightarrow> None | Some s \<Rightarrow> Some (victimFromSession (snd th s)))"

definition worse :: "Session \<Rightarrow> Session option \<Rightarrow> Session option" where
  "worse s worst =
     (if s_UpstreamID s = [] then worst
      else case worst of
        None \<Rightarrow> Some s
      | Some w \<Rightarrow> if s_UpstreamPrio w < s_UpstreamPrio s then Some s else worst)"

partial_function (option) worst_walk :: "sstore \<Rightarrow> sref option \<Rightarrow> Session option \<Rightarrow> Session option option" where
  "worst_walk h p worst =
     (case p of None \<Rightarrow> Some worst | Some s \<Rightarrow> worst_walk h (s_next (h s)) (worse (h s) worst))"

definition PickLowestPriorityVictim :: "Tracker \<times> sstore \<Rightarrow> Victim option option" where
  "PickLowestPriorityVictim th =
     (case t_head (fst th) of
        None \<Rightarrow> Some None
      | Some s \<Rightarrow>
          (case worst_walk (snd th) (t_head (fst th)) None of
             None \<Rightarrow> None
           | Some None \<Rightarrow> Some (Some (victimFromSession (snd th s)))
           | Some (Some w) \<Rightarrow> Some (Some (victimFromSession w))))"

declare walk.simps [code] worst_walk.simps [code]

section \<open>The list a store holds\<close>

fun chain :: "sstore \<Rightarrow> sref option \<Rightarrow> sref list \<Rightarrow> sref option \<Rightarrow> bool" where
  "chain h pv [] nx = True"
| "chain h pv (a # as) nx =
     (s_prev (h a) = pv \<and> s_next (h a) = (if as = [] then nx else Some (hd as)) \<and> \<not> s_released (h a) \<and>
      chain h (Some a) as nx)"

definition tracks :: "sref list \<Rightarrow> Tracker \<times> sstore \<Rightarrow> bool" where
  "tracks xs th \<longleftrightarrow>
     (case th of (t, h) \<Rightarrow>
        distinct xs \<and> chain h None xs None \<and> t_count t = int (length xs) \<and>
        t_head t = (if xs = [] then None else Some (hd xs)) \<and>
        t_tail t = (if xs = [] then None else Some (last xs)))"

lemma chain_append:
  "chain h pv (xs @ ys) nx \<longleftrightarrow>
     chain h pv xs (if ys = [] then nx else Some (hd ys)) \<and>
     chain h (if xs = [] then pv else Some (last xs)) ys nx"
  by (induction xs arbitrary: pv) auto

lemma chain_cong:
  "\<forall>a\<in>set xs. s_prev (h a) = s_prev (g a) \<and> s_next (h a) = s_next (g a) \<and> s_released (h a) = s_released (g a) \<Longrightarrow>
   chain h pv xs nx = chain g pv xs nx"
  by (induction xs arbitrary: pv) auto

lemma chain_fun_upd: "s \<notin> set xs \<Longrightarrow> chain (h(s := v)) pv xs nx = chain h pv xs nx"
  by (rule chain_cong) auto

text \<open>Redirecting the \<open>next\<close> pointer of the last element and the \<open>prev\<close> pointer of the first.\<close>

lemma chain_set_next:
  assumes "chain h pv (xs @ [l]) nx" and "l \<notin> set xs"
  shows "chain (h(l := (h l)\<lparr>s_next := nx'\<rparr>)) pv (xs @ [l]) nx'"
  using assms by (simp add: chain_append chain_fun_upd)

lemma chain_set_prev:
  assumes "chain h pv (a # xs) nx" and "a \<notin> set xs"
  shows "chain (h(a := (h a)\<lparr>s_prev := pv'\<rparr>)) pv' (a # xs) nx"
  using assms by (simp add: chain_fun_upd)

section \<open>Refinement\<close>

lemma tracks_New: "tracks [] (NewTracker, h)"
  by (simp add: tracks_def NewTracker_def)

lemma tracks_Add:
  assumes "tracks xs (t, h)" and "s \<notin> set xs"
  shows "tracks (xs @ [s]) (tracker_Add s (t, h))"
proof (cases xs rule: rev_cases)
  case Nil
  with assms show ?thesis by (simp add: tracks_def tracker_Add_def)
next
  case (snoc ys l)
  let ?h = "h(s := (h s)\<lparr>s_released := False, s_prev := Some l, s_next := None\<rparr>)"
  have "chain h None (ys @ [l]) None" "l \<notin> set ys" "s \<noteq> l" "s \<notin> set ys"
    using assms snoc by (auto simp: tracks_def)
  then have "chain (?h(l := (?h l)\<lparr>s_next := Some s\<rparr>)) None (ys @ [l]) (Some s)"
    by (intro chain_set_next [where nx = None]) (simp_all add: chain_fun_upd)
  with assms snoc show ?thesis
    by (simp add: tracks_def tracker_Add_def Let_def chain_append hd_append)
qed

lemma chain_member: "chain h pv xs nx \<Longrightarrow> a \<in> set xs \<Longrightarrow> \<not> s_released (h a)"
  by (induction xs arbitrary: pv) auto

text \<open>Unlinking the middle of a chain, by whether it has a predecessor and a successor.\<close>

definition unlink :: "sref \<Rightarrow> sstore \<Rightarrow> sstore" where
  "unlink s h0 =
     (let h1 = (case s_prev (h0 s) of Some p \<Rightarrow> h0(p := (h0 p)\<lparr>s_next := s_next (h0 s)\<rparr>) | None \<Rightarrow> h0)
      in case s_next (h1 s) of Some n \<Rightarrow> h1(n := (h1 n)\<lparr>s_prev := s_prev (h1 s)\<rparr>) | None \<Rightarrow> h1)"

lemma chain_unlink:
  assumes "chain h pv (us @ s # vs) None" and "distinct (us @ s # vs)" and "us = [] \<Longrightarrow> pv = None"
  shows "chain (unlink s h) pv (us @ vs) None"
proof -
  let ?nx = "if vs = [] then None else Some (hd vs)" and ?pv = "if us = [] then pv else Some (last us)"
  have c: "chain h pv us (Some s)" "s_prev (h s) = ?pv" "s_next (h s) = ?nx" "chain h (Some s) vs None"
    using assms(1) by (auto simp: chain_append)
  define h1 where "h1 = (case s_prev (h s) of Some p \<Rightarrow> h(p := (h p)\<lparr>s_next := s_next (h s)\<rparr>) | None \<Rightarrow> h)"
  have us: "chain h1 pv us ?nx"
  proof (cases us rule: rev_cases)
    case (snoc us' l)
    with c(1) assms(2) have "chain (h(l := (h l)\<lparr>s_next := ?nx\<rparr>)) pv (us' @ [l]) ?nx"
      by (intro chain_set_next) auto
    with snoc c(2,3) show ?thesis by (simp add: h1_def)
  qed simp
  have vs: "chain h1 (Some s) vs None" and s: "h1 s = h s"
    using c(2,4) assms(2,3) by (cases us rule: rev_cases; auto simp: h1_def chain_fun_upd)+
  have "unlink s h = (case s_next (h1 s) of Some n \<Rightarrow> h1(n := (h1 n)\<lparr>s_prev := s_prev (h1 s)\<rparr>) | None \<Rightarrow> h1)"
    unfolding unlink_def Let_def h1_def ..
  then have ul: "unlink s h = (case ?nx of Some n \<Rightarrow> h1(n := (h1 n)\<lparr>s_prev := ?pv\<rparr>) | None \<Rightarrow> h1)"
    by (simp only: s c(2,3))
  show ?thesis
  proof (cases vs)
    case Nil
    with us ul show ?thesis by simp
  next
    case (Cons n vs')
    with us vs assms(2) chain_set_prev [of h1 "Some s" n vs' None ?pv] show ?thesis
      by (simp add: ul chain_append chain_fun_upd)
  qed
qed

lemma Release_unlink:
  assumes "\<not> s_released (h s)" and "0 < t_count t"
    and "s_prev (h s) \<noteq> Some s" and "s_next (h s) \<noteq> Some s"
  shows "tracker_Release s (t, h) =
    (let h0 = h(s := (h s)\<lparr>s_released := True\<rparr>); h2 = unlink s h0
     in (\<lparr>t_head = (if s_prev (h s) = None then s_next (h s) else t_head t),
          t_tail = (if s_next (h s) = None then s_prev (h s) else t_tail t), t_count = t_count t - 1\<rparr>,
         h2(s := (h2 s)\<lparr>s_prev := None, s_next := None\<rparr>)))"
  using assms by (simp add: tracker_Release_def unlink_def Let_def split: option.split)

lemma tracks_member:
  assumes "tracks (us @ s # vs) (t, h)"
  shows "s_prev (h s) = (if us = [] then None else Some (last us))"
    and "s_next (h s) = (if vs = [] then None else Some (hd vs))"
    and "\<not> s_released (h s)" and "0 < t_count t"
  using assms by (auto simp: tracks_def chain_append)

lemma unlink_released:
  assumes "s_prev (h s) \<noteq> Some s" and "s_next (h s) \<noteq> Some s" and "a \<noteq> s"
  shows "unlink s (h(s := (h s)\<lparr>s_released := True\<rparr>)) a = unlink s h a"
  using assms by (cases "s_prev (h s)"; cases "s_next (h s)") (simp_all add: unlink_def)

lemma tracks_Release:
  assumes "tracks (us @ s # vs) (t, h)"
  shows "tracks (us @ vs) (tracker_Release s (t, h))"
proof -
  let ?h0 = "h(s := (h s)\<lparr>s_released := True\<rparr>)"
  note m = tracks_member [OF assms]
  have d: "distinct (us @ s # vs)" and c: "chain h None (us @ s # vs) None"
    using assms by (simp_all add: tracks_def)
  have self: "s_prev (h s) \<noteq> Some s" "s_next (h s) \<noteq> Some s"
    using m d by (auto simp: last_in_set hd_in_set)
  have "chain (unlink s h) None (us @ vs) None" using chain_unlink [OF c d] by simp
  moreover have "\<forall>a\<in>set (us @ vs). unlink s ?h0 a = unlink s h a"
    using d self by (auto intro!: unlink_released)
  ultimately have "chain (unlink s ?h0) None (us @ vs) None"
    using chain_cong [of "us @ vs" "unlink s ?h0" "unlink s h"] by auto
  then have "chain ((unlink s ?h0)(s := (unlink s ?h0 s)\<lparr>s_prev := None, s_next := None\<rparr>)) None (us @ vs) None"
    using d by (simp add: chain_fun_upd)
  moreover have "t_count t = int (length (us @ s # vs))"
    "t_head t = Some (hd (us @ s # vs))" "t_tail t = Some (last (us @ s # vs))"
    using assms by (simp_all add: tracks_def)
  ultimately show ?thesis
    using d m by (auto simp: Release_unlink [of h s t, OF m(3,4) self] tracks_def Let_def hd_append last_append)
qed

lemma Release_released: "s_released (h s) \<Longrightarrow> tracker_Release s (t, h) = (t, h)"
  by (simp add: tracker_Release_def)

lemma tracks_Update: "tracks xs (t, h) \<Longrightarrow> tracks xs (tracker_Update s i p (t, h))"
  using chain_cong [of xs "snd (tracker_Update s i p (t, h))" h None None]
  by (simp add: tracks_def tracker_Update_def)

lemma walk_chain:
  "chain h pv xs None \<Longrightarrow> walk f h (if xs = [] then None else Some (hd xs)) out = Some (out @ map (f \<circ> h) xs)"
proof (induction xs arbitrary: pv out)
  case Nil
  show ?case by (simp add: walk.simps)
next
  case (Cons a xs)
  have "walk f h (Some a) out = walk f h (if xs = [] then None else Some (hd xs)) (out @ [f (h a)])"
    using Cons.prems by (simp add: walk.simps [of f h "Some a"])
  also have "\<dots> = Some ((out @ [f (h a)]) @ map (f \<circ> h) xs)"
    using Cons.prems by (intro Cons.IH [of "Some a"]) simp
  finally show ?case by simp
qed

lemma Sessions_tracks: "tracks xs (t, h) \<Longrightarrow> tracker_Sessions (t, h) = Some (map (session_snapshot \<circ> h) xs)"
  using walk_chain [of h None xs session_snapshot "[]"] by (simp add: tracker_Sessions_def tracks_def)

lemma worst_walk_chain:
  "chain h pv xs None \<Longrightarrow> worst_walk h (if xs = [] then None else Some (hd xs)) w = Some (fold (\<lambda>a. worse (h a)) xs w)"
proof (induction xs arbitrary: pv w)
  case Nil
  show ?case by (simp add: worst_walk.simps)
next
  case (Cons a xs)
  have "worst_walk h (Some a) w = worst_walk h (if xs = [] then None else Some (hd xs)) (worse (h a) w)"
    using Cons.prems by (simp add: worst_walk.simps [of h "Some a"])
  also have "\<dots> = Some (fold (\<lambda>a. worse (h a)) xs (worse (h a) w))"
    using Cons.prems by (intro Cons.IH [of "Some a"]) simp
  finally show ?case by simp
qed

section \<open>Choosing a victim\<close>

lemma PickOldest_tracks:
  "tracks xs (t, h) \<Longrightarrow>
   PickOldestVictim (t, h) = (if xs = [] then None else Some (victimFromSession (h (hd xs))))"
  by (simp add: PickOldestVictim_def tracks_def)

definition assigned :: "Session \<Rightarrow> bool" where
  "assigned s \<longleftrightarrow> s_UpstreamID s \<noteq> []"

lemma worse_simps:
  "worse s w = (if \<not> assigned s then w
     else case w of None \<Rightarrow> Some s | Some x \<Rightarrow> if s_UpstreamPrio x < s_UpstreamPrio s then Some s else w)"
  by (simp add: worse_def assigned_def)

lemma worse_fold:
  "fold worse ss None = None \<and> (\<forall>s\<in>set ss. \<not> assigned s) \<or>
   (\<exists>w\<in>set ss. fold worse ss None = Some w \<and> assigned w \<and>
      (\<forall>s\<in>set ss. assigned s \<longrightarrow> s_UpstreamPrio s \<le> s_UpstreamPrio w))"
proof (induction ss rule: rev_induct)
  case (snoc s ss)
  from snoc.IH show ?case
  proof
    assume "fold worse ss None = None \<and> (\<forall>s\<in>set ss. \<not> assigned s)"
    then show ?thesis by (auto simp: worse_simps [of s])
  next
    assume "\<exists>w\<in>set ss. fold worse ss None = Some w \<and> assigned w \<and>
      (\<forall>s\<in>set ss. assigned s \<longrightarrow> s_UpstreamPrio s \<le> s_UpstreamPrio w)"
    then obtain w where w: "w \<in> set ss" "fold worse ss None = Some w" "assigned w"
        "\<forall>s\<in>set ss. assigned s \<longrightarrow> s_UpstreamPrio s \<le> s_UpstreamPrio w"
      by blast
    show ?thesis
    proof (cases "assigned s \<and> s_UpstreamPrio w < s_UpstreamPrio s")
      case True
      with w have "\<forall>x\<in>set ss. assigned x \<longrightarrow> s_UpstreamPrio x \<le> s_UpstreamPrio s" by fastforce
      with True w show ?thesis by (auto simp: worse_simps [of s])
    next
      case False
      with w show ?thesis by (intro disjI2 bexI [of _ w]) (auto simp: worse_simps [of s])
    qed
  qed
qed simp

lemma PickLowest_tracks:
  assumes "tracks xs (t, h)"
  shows "PickLowestPriorityVictim (t, h) =
    Some (if xs = [] then None
      else case fold worse (map h xs) None of
        None \<Rightarrow> Some (victimFromSession (h (hd xs))) | Some w \<Rightarrow> Some (victimFromSession w))"
  using assms worst_walk_chain [of h None xs None]
  by (cases "xs = []") (auto simp: PickLowestPriorityVictim_def tracks_def fold_map comp_def split: option.split)

lemma PickLowest_cases:
  assumes "tracks xs (t, h)" and "xs \<noteq> []"
  obtains w where "w \<in> set xs" and "PickLowestPriorityVictim (t, h) = Some (Some (victimFromSession (h w)))"
    and "if \<exists>s\<in>set xs. assigned (h s)
      then assigned (h w) \<and> (\<forall>s\<in>set xs. assigned (h s) \<longrightarrow> s_UpstreamPrio (h s) \<le> s_UpstreamPrio (h w))
      else w = hd xs"
  using worse_fold [of "map h xs"]
proof
  assume *: "fold worse (map h xs) None = None \<and> (\<forall>s\<in>set (map h xs). \<not> assigned s)"
  with assms show thesis by (intro that [of "hd xs"]) (auto simp: PickLowest_tracks)
next
  assume "\<exists>w\<in>set (map h xs). fold worse (map h xs) None = Some w \<and> assigned w \<and>
      (\<forall>s\<in>set (map h xs). assigned s \<longrightarrow> s_UpstreamPrio s \<le> s_UpstreamPrio w)"
  then obtain w where "w \<in> set xs" "fold worse (map h xs) None = Some (h w)" "assigned (h w)"
      "\<forall>s\<in>set xs. assigned (h s) \<longrightarrow> s_UpstreamPrio (h s) \<le> s_UpstreamPrio (h w)"
    by auto
  with assms show thesis by (intro that [of w]) (auto simp: PickLowest_tracks)
qed

section \<open>Sequences of operations\<close>

datatype tracker_op = OpAdd sref | OpRelease sref | OpUpdate sref string int

fun tracker_step :: "tracker_op \<Rightarrow> Tracker \<times> sstore \<Rightarrow> Tracker \<times> sstore" where
  "tracker_step (OpAdd s) th = tracker_Add s th"
| "tracker_step (OpRelease s) th = tracker_Release s th"
| "tracker_step (OpUpdate s i p) th = tracker_Update s i p th"

text \<open>
  The specification: a list without duplicates.  A session may be added when it is not in the
  list and released, any number of times, once it has been added.
\<close>

fun list_step :: "tracker_op \<Rightarrow> sref list \<Rightarrow> sref list" where
  "list_step (OpAdd s) xs = xs @ [s]"
| "list_step (OpRelease s) xs = remove1 s xs"
| "list_step (OpUpdate s i p) xs = xs"

fun ops_legal :: "tracker_op list \<Rightarrow> sref list \<Rightarrow> sref set \<Rightarrow> bool" where
  "ops_legal [] xs seen = True"
| "ops_legal (OpAdd s # ops) xs seen = (s \<notin> set xs \<and> ops_legal ops (xs @ [s]) (insert s seen))"
| "ops_legal (OpRelease s # ops) xs seen = (s \<in> seen \<and> ops_legal ops (remove1 s xs) seen)"
| "ops_legal (OpUpdate s i p # ops) xs seen = ops_legal ops xs seen"

definition tracker_inv :: "sref list \<Rightarrow> sref set \<Rightarrow> Tracker \<times> sstore \<Rightarrow> bool" where
  "tracker_inv xs seen th \<longleftrightarrow> tracks xs th \<and> (\<forall>s\<in>seen - set xs. s_released (snd th s))"

lemma Add_released: "a \<noteq> s \<Longrightarrow> s_released (snd (tracker_Add s (t, h)) a) = s_released (h a)"
  by (simp add: tracker_Add_def Let_def split: option.split)

lemma Release_keeps_released: "s_released (h a) \<Longrightarrow> s_released (snd (tracker_Release s (t, h)) a)"
  by (auto simp: tracker_Release_def Let_def split: option.split prod.split)

lemma Release_self:
  assumes "tracks (us @ s # vs) (t, h)"
  shows "s_released (snd (tracker_Release s (t, h)) s)"
  using tracks_member [OF assms] assms
  by (auto simp: tracker_Release_def tracks_def Let_def split: option.split prod.split)

lemma tracker_inv_Add: "tracker_inv xs seen (t, h) \<Longrightarrow> s \<notin> set xs \<Longrightarrow>
    tracker_inv (xs @ [s]) (insert s seen) (tracker_Add s (t, h))"
  using tracks_Add [of xs t h s] Add_released [of _ s t h] by (auto simp: tracker_inv_def)

lemma tracker_inv_Release:
  assumes "tracker_inv xs seen (t, h)" and "s \<in> seen"
  shows "tracker_inv (remove1 s xs) seen (tracker_Release s (t, h))"
proof (cases "s \<in> set xs")
  case True
  then obtain us vs where xs: "xs = us @ s # vs" by (meson split_list)
  with assms(1) have tr: "tracks (us @ s # vs) (t, h)" by (simp add: tracker_inv_def)
  then have "s \<notin> set us" "s \<notin> set vs" by (auto simp: tracks_def)
  then have rm: "remove1 s xs = us @ vs" by (simp add: xs remove1_append)
  show ?thesis
    unfolding rm using tracks_Release [OF tr] Release_self [OF tr] assms(1)
    by (fastforce simp: tracker_inv_def xs intro: Release_keeps_released)
next
  case False
  with assms have "s_released (h s)" by (auto simp: tracker_inv_def)
  with False assms show ?thesis by (simp add: Release_released remove1_idem)
qed

lemma tracker_inv_run:
  "tracker_inv xs seen (t, h) \<Longrightarrow> ops_legal ops xs seen \<Longrightarrow>
   \<exists>seen'. tracker_inv (fold list_step ops xs) seen' (fold tracker_step ops (t, h))"
proof (induction ops xs seen arbitrary: t h rule: ops_legal.induct)
  case (2 s ops xs seen)
  then show ?case using tracker_inv_Add [of xs seen t h s] by (cases "tracker_Add s (t, h)") auto
next
  case (3 s ops xs seen)
  then show ?case using tracker_inv_Release [of xs seen t h s] by (cases "tracker_Release s (t, h)") auto
next
  case (4 s i p ops xs seen)
  have "tracker_inv xs seen (tracker_Update s i p (t, h))"
    using 4(2) tracks_Update [of xs t h s i p] by (auto simp: tracker_inv_def tracker_Update_def)
  with 4 show ?case by (cases "tracker_Update s i p (t, h)") auto
qed auto

lemma tracker_run_tracks:
  assumes "ops_legal ops [] {}"
  shows "tracks (fold list_step ops []) (fold tracker_step ops (NewTracker, h))"
  using tracker_inv_run [of "[]" "{}" NewTracker h ops] assms tracks_New [of h]
  by (auto simp: tracker_inv_def)

section \<open>Victims as an interface\<close>

text \<open>
  What admission needs of a tracker: a victim exists exactly when a session is tracked, and it
  is one of the tracked sessions.  Both ways of choosing provide it.
\<close>

locale victim_source =
  fixes pick :: "Tracker \<times> sstore \<Rightarrow> Victim option"
  assumes pick_none: "tracks [] th \<Longrightarrow> pick th = None"
    and pick_live: "tracks xs th \<Longrightarrow> xs \<noteq> [] \<Longrightarrow>
      \<exists>s\<in>set xs. pick th = Some (victimFromSession (snd th s))"
begin

lemma pick_iff: "tracks xs th \<Longrightarrow> pick th = None \<longleftrightarrow> xs = []"
  using pick_none pick_live by fastforce

lemma pick_tracked: "tracks xs th \<Longrightarrow> pick th = Some v \<Longrightarrow> \<exists>s\<in>set xs. v = victimFromSession (snd th s)"
  using pick_iff pick_live by fastforce

end

interpretation oldest: victim_source PickOldestVictim
  by unfold_locales (auto simp: PickOldestVictim_def tracks_def intro!: bexI [of _ "hd _"])

definition lowest_victim :: "Tracker \<times> sstore \<Rightarrow> Victim option" where
  "lowest_victim th = (case PickLowestPriorityVictim th of Some v \<Rightarrow> v | None \<Rightarrow> None)"

interpretation lowest: victim_source lowest_victim
proof unfold_locales
  fix th assume "tracks [] th"
  then show "lowest_victim th = None" by (cases th) (simp add: lowest_victim_def PickLowest_tracks)
next
  fix xs th assume "tracks xs th" "xs \<noteq> []"
  then show "\<exists>s\<in>set xs. lowest_victim th = Some (victimFromSession (snd th s))"
    by (cases th) (auto simp: lowest_victim_def elim!: PickLowest_cases)
qed

section \<open>Properties\<close>

text \<open>C7. The tracker refines a list: after any sequence of additions, releases and updates in
  which only untracked sessions are added and only sessions that were added are released
  (repeatedly, if need be), the count, the sessions reported and the oldest victim are those of
  the list of sessions added and not yet released, in the order of their admission; the loops
  over the pointers terminate.\<close>
theorem tracker_refines_list:
  assumes "ops_legal ops [] {}" and "fold tracker_step ops (NewTracker, h) = (t, h')"
    and "fold list_step ops [] = xs"
  shows "tracker_Count (t, h') = int (length xs) \<and>
    tracker_Sessions (t, h') = Some (map (\<lambda>s. session_snapshot (h' s)) xs) \<and>
    PickOldestVictim (t, h') = (if xs = [] then None else Some (victimFromSession (h' (hd xs)))) \<and>
    distinct xs"
proof -
  have "tracks xs (t, h')" using tracker_run_tracks [OF assms(1), of h] assms(2,3) by simp
  then show ?thesis
    by (simp add: Sessions_tracks PickOldest_tracks comp_def) (simp add: tracks_def tracker_Count_def)
qed

text \<open>Dropping by priority terminates and chooses a tracked session: among the sessions
  that have an upstream one of the numerically highest priority, and the oldest session when
  none has one.\<close>
theorem PickLowestPriorityVictim_correct:
  assumes "ops_legal ops [] {}" and "fold tracker_step ops (NewTracker, h) = (t, h')"
    and "fold list_step ops [] = xs"
  shows "if xs = [] then PickLowestPriorityVictim (t, h') = Some None
    else \<exists>w\<in>set xs. PickLowestPriorityVictim (t, h') = Some (Some (victimFromSession (h' w))) \<and>
      (if \<exists>s\<in>set xs. s_UpstreamID (h' s) \<noteq> []
       then s_UpstreamID (h' w) \<noteq> [] \<and>
         (\<forall>s\<in>set xs. s_UpstreamID (h' s) \<noteq> [] \<longrightarrow> s_UpstreamPrio (h' s) \<le> s_UpstreamPrio (h' w))
       else w = hd xs)"
proof (cases "xs = []")
  case False
  have tr: "tracks xs (t, h')" using tracker_run_tracks [OF assms(1), of h] assms(2,3) by simp
  from PickLowest_cases [OF tr False] False show ?thesis unfolding assigned_def by metis
next
  case True
  have "tracks xs (t, h')" using tracker_run_tracks [OF assms(1), of h] assms(2,3) by simp
  with True show ?thesis by (simp add: PickLowest_tracks)
qed

text \<open>Example sessions for the witnesses.\<close>

definition ex_session :: Session where
  "ex_session = \<lparr>s_Conn = None, s_UpstreamID = [], s_UpstreamPrio = 0, s_AdmittedAt = 0, s_prev = None,
     s_next = None, s_released = False\<rparr>"

definition ex_ops :: "tracker_op list" where
  "ex_ops = [OpAdd 1, OpAdd 2, OpUpdate 2 ''a'' 5, OpAdd 3, OpUpdate 3 ''b'' 2, OpRelease 1, OpRelease 1]"

theorem tracker_refines_list_witness:
  "tracker_Count (fold tracker_step ex_ops (NewTracker, \<lambda>_. ex_session)) = 2"
  using tracker_refines_list [of ex_ops "\<lambda>_. ex_session", OF _ prod.collapse [symmetric] refl]
  by (simp add: ex_ops_def)

theorem PickLowestPriorityVictim_correct_witness:
  "PickLowestPriorityVictim (fold tracker_step ex_ops (NewTracker, \<lambda>_. ex_session)) \<noteq> Some None"
  using PickLowestPriorityVictim_correct [of ex_ops "\<lambda>_. ex_session", OF _ prod.collapse [symmetric] refl]
  by (auto simp: ex_ops_def)

end
