(* ===== verification/Gate.thy ===== *)
theory Gate
  imports Tracker Config
begin

text \<open>
  The admission gate of \<^verbatim>\<open>internal/admission/gate.go\<close> and the part of \<^verbatim>\<open>Serve\<close> in
  \<^verbatim>\<open>internal/balancer/balancer.go\<close> that runs every accepted connection through it.

  The buffered channel of tokens is the number of tokens in it.  A send and a receive on it are
  atomic, and so is each update of the in-flight counter, but nothing makes the two one step:
  the relation \<open>adm_step\<close> interleaves them over any number of connections.  A blocked
  \<open>select\<close> is a program counter from which exactly the cases that are ready are steps; a timer
  may fire at any time after it was started.
\<close>

section \<open>Gates\<close>

datatype Outcome = Admitted | Rejected | Evicted

record Decision =
  dec_Outcome :: Outcome
  dec_Reason :: string

record TokenGate =
  tg_cap :: int
  tg_slots :: int
  tg_inflight :: int
  tg_waitTO :: int

datatype GateKind = WaitGate | EvictGate bool bool | RejectGate

text \<open>The arguments of \<open>EvictGate\<close>: whether there is a tracker, and whether it drops the oldest.\<close>

definition admission_New :: "Config \<Rightarrow> bool \<Rightarrow> GateKind \<times> TokenGate" where
  "admission_New cfg hasTracker =
     (let base = \<lparr>tg_cap = cf_MaxClients cfg, tg_slots = 0, tg_inflight = 0, tg_waitTO = cf_AdmissionWaitTimeout cfg\<rparr>
      in (if cf_Backpressure cfg = BackpressureWait then WaitGate
          else if cf_Backpressure cfg = BackpressureDropOldest then EvictGate hasTracker True
          else if cf_Backpressure cfg = BackpressureDropLowestPriority then EvictGate hasTracker False
          else RejectGate, base))"

definition slots_send :: "TokenGate \<Rightarrow> TokenGate option" where
  "slots_send g = (if tg_slots g < tg_cap g then Some (g\<lparr>tg_slots := tg_slots g + 1\<rparr>) else None)"

definition slots_recv :: "TokenGate \<Rightarrow> TokenGate option" where
  "slots_recv g = (if 0 < tg_slots g then Some (g\<lparr>tg_slots := tg_slots g - 1\<rparr>) else None)"

definition inflight_Add :: "int \<Rightarrow> TokenGate \<Rightarrow> TokenGate" where
  "inflight_Add d g = g\<lparr>tg_inflight := tg_inflight g + d\<rparr>"

definition tryAcquire :: "TokenGate \<Rightarrow> bool \<times> TokenGate" where
  "tryAcquire g =
     (case slots_send g of Some g' \<Rightarrow> (True, inflight_Add 1 g') | None \<Rightarrow> (False, g))"

definition gate_Release :: "TokenGate \<Rightarrow> TokenGate" where
  "gate_Release g = (case slots_recv g of Some g' \<Rightarrow> inflight_Add (- 1) g' | None \<Rightarrow> g)"

definition InFlight :: "TokenGate \<Rightarrow> int" where
  "InFlight g = tg_inflight g"

definition Capacity :: "TokenGate \<Rightarrow> int" where
  "Capacity g = tg_cap g"

text \<open>
  What \<open>Acquire\<close> does once \<open>tryAcquire\<close> has failed: refuse, or wait with a reason for a failed
  wait and an outcome for a successful one, after closing a victim if there is one.  \<open>None\<close>
  is a search for a victim that does not end.
\<close>

datatype full_action = Refuse string | Wait string Outcome "Victim option"

fun on_full :: "GateKind \<Rightarrow> Tracker \<times> sstore \<Rightarrow> full_action option" where
  "on_full RejectGate th = Some (Refuse ''admission_full'')"
| "on_full WaitGate th = Some (Wait ''admission_wait_timeout'' Admitted None)"
| "on_full (EvictGate hasTracker pickOldest) th =
     (if \<not> hasTracker then Some (Wait ''evict_no_tracker'' Admitted None)
      else
        (case (if pickOldest then Some (PickOldestVictim th) else PickLowestPriorityVictim th) of
           None \<Rightarrow> None
         | Some None \<Rightarrow> Some (Wait ''evict_no_victim'' Admitted None)
         | Some (Some victim) \<Rightarrow> Some (Wait ''evict_wait_timeout'' Evicted (Some victim))))"

text \<open>The reason of a failed wait; only the waiting gate looks at the context again.\<close>

definition wait_reason :: "GateKind \<Rightarrow> bool \<Rightarrow> string \<Rightarrow> string" where
  "wait_reason k ctxCanceled r =
     (if k = WaitGate \<and> ctxCanceled then ''admission_canceled'' else r)"

section \<open>Connections going through the gate\<close>

datatype adm_pc =
    Arrived
  | Waiting string Outcome
  | Sent Outcome
  | Through Outcome
  | Tracked
  | Untracked
  | Received
  | Finished
  | Turned string

record Adm =
  ad_gate :: TokenGate
  ad_trk :: "Tracker \<times> sstore"
  ad_pcs :: "adm_pc list"
  ad_canceled :: bool
  ad_closed :: "Victim list"

definition new_session :: "NetConn \<Rightarrow> int \<Rightarrow> Session" where
  "new_session conn now =
     \<lparr>s_Conn = Some conn, s_UpstreamID = [], s_UpstreamPrio = 0, s_AdmittedAt = now, s_prev = None,
      s_next = None, s_released = False\<rparr>"

text \<open>Connection \<open>i\<close> has its session at address \<open>i\<close>.\<close>

inductive adm_step :: "GateKind \<Rightarrow> Adm \<Rightarrow> Adm \<Rightarrow> bool" for k where
  adm_accept: "adm_step k a (a\<lparr>ad_pcs := ad_pcs a @ [Arrived]\<rparr>)"
| adm_cancel: "adm_step k a (a\<lparr>ad_canceled := True\<rparr>)"
| adm_try: "i < length (ad_pcs a) \<Longrightarrow> ad_pcs a ! i = Arrived \<Longrightarrow> slots_send (ad_gate a) = Some g \<Longrightarrow>
    adm_step k a (a\<lparr>ad_gate := g, ad_pcs := (ad_pcs a)[i := Sent Admitted]\<rparr>)"
| adm_refuse: "i < length (ad_pcs a) \<Longrightarrow> ad_pcs a ! i = Arrived \<Longrightarrow> slots_send (ad_gate a) = None \<Longrightarrow>
    on_full k (ad_trk a) = Some (Refuse r) \<Longrightarrow>
    adm_step k a (a\<lparr>ad_pcs := (ad_pcs a)[i := Turned r]\<rparr>)"
| adm_wait: "i < length (ad_pcs a) \<Longrightarrow> ad_pcs a ! i = Arrived \<Longrightarrow> slots_send (ad_gate a) = None \<Longrightarrow>
    on_full k (ad_trk a) = Some (Wait r out v) \<Longrightarrow>
    adm_step k a (a\<lparr>ad_pcs := (ad_pcs a)[i := Waiting r out],
      ad_closed := ad_closed a @ (case v of None \<Rightarrow> [] | Some victim \<Rightarrow> [victim])\<rparr>)"
| adm_slot: "i < length (ad_pcs a) \<Longrightarrow> ad_pcs a ! i = Waiting r out \<Longrightarrow> slots_send (ad_gate a) = Some g \<Longrightarrow>
    adm_step k a (a\<lparr>ad_gate := g, ad_pcs := (ad_pcs a)[i := Sent out]\<rparr>)"
| adm_give_up: "i < length (ad_pcs a) \<Longrightarrow> ad_pcs a ! i = Waiting r out \<Longrightarrow>
    ad_canceled a \<or> 0 < tg_waitTO (ad_gate a) \<Longrightarrow>
    adm_step k a (a\<lparr>ad_pcs := (ad_pcs a)[i := Turned (wait_reason k (ad_canceled a) r)]\<rparr>)"
| adm_count: "i < length (ad_pcs a) \<Longrightarrow> ad_pcs a ! i = Sent out \<Longrightarrow>
    adm_step k a (a\<lparr>ad_gate := inflight_Add 1 (ad_gate a), ad_pcs := (ad_pcs a)[i := Through out]\<rparr>)"
| adm_track: "i < length (ad_pcs a) \<Longrightarrow> ad_pcs a ! i = Through out \<Longrightarrow>
    adm_step k a (a\<lparr>ad_trk := tracker_Add i (fst (ad_trk a), (snd (ad_trk a))(i := new_session conn now)),
      ad_pcs := (ad_pcs a)[i := Tracked]\<rparr>)"
| adm_assign: "i < length (ad_pcs a) \<Longrightarrow> ad_pcs a ! i = Tracked \<Longrightarrow>
    adm_step k a (a\<lparr>ad_trk := tracker_Update i upID prio (ad_trk a)\<rparr>)"
| adm_untrack: "i < length (ad_pcs a) \<Longrightarrow> ad_pcs a ! i = Tracked \<Longrightarrow>
    adm_step k a (a\<lparr>ad_trk := tracker_Release i (ad_trk a), ad_pcs := (ad_pcs a)[i := Untracked]\<rparr>)"
| adm_return: "i < length (ad_pcs a) \<Longrightarrow> ad_pcs a ! i = Untracked \<Longrightarrow> slots_recv (ad_gate a) = Some g \<Longrightarrow>
    adm_step k a (a\<lparr>ad_gate := g, ad_pcs := (ad_pcs a)[i := Received]\<rparr>)"
| adm_over_release: "i < length (ad_pcs a) \<Longrightarrow> ad_pcs a ! i = Untracked \<Longrightarrow> slots_recv (ad_gate a) = None \<Longrightarrow>
    adm_step k a (a\<lparr>ad_pcs := (ad_pcs a)[i := Finished]\<rparr>)"
| adm_uncount: "i < length (ad_pcs a) \<Longrightarrow> ad_pcs a ! i = Received \<Longrightarrow>
    adm_step k a (a\<lparr>ad_gate := inflight_Add (- 1) (ad_gate a), ad_pcs := (ad_pcs a)[i := Finished]\<rparr>)"

definition adm_init :: "Config \<Rightarrow> sstore \<Rightarrow> Adm" where
  "adm_init cfg h =
     \<lparr>ad_gate = snd (admission_New cfg True), ad_trk = (NewTracker, h), ad_pcs = [], ad_canceled = False,
      ad_closed = []\<rparr>"

section \<open>Invariant\<close>

fun has_token :: "adm_pc \<Rightarrow> bool" where
  "has_token (Sent _) = True"
| "has_token (Through _) = True"
| "has_token Tracked = True"
| "has_token Untracked = True"
| "has_token _ = False"

fun counted :: "adm_pc \<Rightarrow> bool" where
  "counted (Through _) = True"
| "counted Tracked = True"
| "counted Untracked = True"
| "counted Received = True"
| "counted _ = False"

definition tracked_ids :: "adm_pc list \<Rightarrow> nat set" where
  "tracked_ids pcs = {i. i < length pcs \<and> pcs ! i = Tracked}"

definition adm_inv :: "int \<Rightarrow> Adm \<Rightarrow> bool" where
  "adm_inv c a \<longleftrightarrow>
     tg_cap (ad_gate a) = c \<and> tg_slots (ad_gate a) \<le> c \<and> tg_slots (ad_gate a) = cnt has_token (ad_pcs a) \<and>
     tg_inflight (ad_gate a) = cnt counted (ad_pcs a) \<and>
     (\<exists>xs. tracks xs (ad_trk a) \<and> set xs = tracked_ids (ad_pcs a))"

lemma tracked_ids_update:
  "i < length pcs \<Longrightarrow>
   tracked_ids (pcs[i := p]) = (if p = Tracked then insert i (tracked_ids pcs) else tracked_ids pcs - {i})"
  by (auto simp: tracked_ids_def nth_list_update)

lemma tracked_ids_other [simp]: "pcs ! i \<noteq> Tracked \<Longrightarrow> tracked_ids pcs - {i} = tracked_ids pcs"
  by (auto simp: tracked_ids_def)

lemma tracked_ids_snoc [simp]: "tracked_ids (pcs @ [Arrived]) = tracked_ids pcs"
  by (auto simp: tracked_ids_def nth_append less_Suc_eq)

lemma tracks_fun_upd: "i \<notin> set xs \<Longrightarrow> tracks xs (t, h(i := v)) = tracks xs (t, h)"
  by (simp add: tracks_def chain_fun_upd)

lemma tracked_track:
  assumes "tracks xs trk" and "set xs = tracked_ids pcs" and "i < length pcs" and "pcs ! i \<noteq> Tracked"
  shows "\<exists>ys. tracks ys (tracker_Add i (fst trk, (snd trk)(i := v))) \<and> set ys = tracked_ids (pcs[i := Tracked])"
proof -
  have "i \<notin> set xs" using assms(2,4) by (auto simp: tracked_ids_def)
  with assms show ?thesis
    by (intro exI [of _ "xs @ [i]"]) (cases trk, auto simp: tracked_ids_update tracks_fun_upd intro!: tracks_Add)
qed

lemma tracked_untrack:
  assumes "tracks xs trk" and "set xs = tracked_ids pcs" and "i < length pcs" and "pcs ! i = Tracked"
  shows "\<exists>ys. tracks ys (tracker_Release i trk) \<and> set ys = tracked_ids (pcs[i := Untracked])"
proof -
  have "i \<in> set xs" using assms by (auto simp: tracked_ids_def)
  then obtain us vs where xs: "xs = us @ i # vs" by (meson split_list)
  obtain t h where trk: "trk = (t, h)" by (cases trk)
  have "distinct xs" using assms(1) trk by (simp add: tracks_def)
  then have "set (us @ vs) = set xs - {i}" by (auto simp: xs)
  with assms tracks_Release [of us i vs t h] show ?thesis
    by (intro exI [of _ "us @ vs"]) (simp add: xs trk tracked_ids_update)
qed

lemma adm_step_inv:
  assumes "adm_step k a b" and "adm_inv c a"
  shows "adm_inv c b"
  using assms(1)
proof cases
  case (adm_track i out conn now)
  with assms(2) tracked_track [of _ "ad_trk a" "ad_pcs a" i "new_session conn now"] show ?thesis
    by (auto simp: adm_inv_def cnt_update)
next
  case (adm_untrack i)
  with assms(2) tracked_untrack [of _ "ad_trk a" "ad_pcs a" i] show ?thesis
    by (auto simp: adm_inv_def cnt_update)
next
  case (adm_assign i upID prio)
  with assms(2) show ?thesis
    using tracks_Update [of _ "fst (ad_trk a)" "snd (ad_trk a)" i upID prio] by (auto simp: adm_inv_def)
next
  case (adm_over_release i)
  with assms(2) cnt_pos [of i "ad_pcs a" has_token] show ?thesis
    by (auto simp: adm_inv_def slots_recv_def split: if_splits)
qed (use assms(2) in \<open>auto simp: adm_inv_def cnt_update tracked_ids_update slots_send_def slots_recv_def
       inflight_Add_def split: if_splits\<close>)

interpretation adm: safety "adm_step k" "adm_inv c" for k c
  by unfold_locales (rule adm_step_inv)

lemma adm_init_inv: "0 \<le> cf_MaxClients cfg \<Longrightarrow> adm_inv (cf_MaxClients cfg) (adm_init cfg h)"
  by (auto simp: adm_inv_def adm_init_def admission_New_def Let_def tracked_ids_def intro!: exI [of _ "[]"] tracks_New)

lemma adm_reachable_inv:
  assumes "0 \<le> cf_MaxClients cfg" and "(adm_step k)\<^sup>*\<^sup>* (adm_init cfg h) a"
  shows "adm_inv (cf_MaxClients cfg) a"
  by (rule adm.inv_steps [OF assms(2) adm_init_inv [OF assms(1)]])

text \<open>A session the tracker offers as a victim is one that runs.\<close>

lemma victim_running:
  assumes "adm_inv c a" and "on_full k (ad_trk a) = Some (Wait r out (Some v))"
  shows "\<exists>i<length (ad_pcs a). ad_pcs a ! i = Tracked \<and> v = victimFromSession (snd (ad_trk a) i)"
proof -
  from assms(1) obtain xs where xs: "tracks xs (ad_trk a)" "set xs = tracked_ids (ad_pcs a)"
    by (auto simp: adm_inv_def)
  from assms(2) obtain b where "k = EvictGate True b"
    by (cases k) (auto split: if_splits option.splits)
  with assms(2) have "PickOldestVictim (ad_trk a) = Some v \<or> lowest_victim (ad_trk a) = Some v"
    by (auto simp: lowest_victim_def split: if_splits option.splits)
  then have "\<exists>s\<in>set xs. v = victimFromSession (snd (ad_trk a) s)"
    using oldest.pick_tracked [OF xs(1)] lowest.pick_tracked [OF xs(1)] by blast
  with xs(2) show ?thesis by (auto simp: tracked_ids_def)
qed

lemma on_full_total:
  assumes "adm_inv c a"
  shows "on_full k (ad_trk a) \<noteq> None"
proof -
  from assms obtain xs where xs: "tracks xs (ad_trk a)" by (auto simp: adm_inv_def)
  then have "PickLowestPriorityVictim (ad_trk a) \<noteq> None"
    using PickLowest_tracks [of xs "fst (ad_trk a)" "snd (ad_trk a)"] by simp
  then show ?thesis by (cases k) (auto split: option.split)
qed

section \<open>Properties\<close>

text \<open>C8. However connections interleave, the sessions that hold a token never outnumber the
  configured capacity, the in-flight counter and the tracker agree with the sessions that were
  counted and tracked, no session finds its token gone when it returns it, and a gate that is
  full always reaches a decision: the search for a victim ends.\<close>
theorem gate_capacity:
  assumes "0 \<le> cf_MaxClients cfg" and "(adm_step k)\<^sup>*\<^sup>* (adm_init cfg h) a"
  shows "cnt has_token (ad_pcs a) \<le> cf_MaxClients cfg \<and>
    InFlight (ad_gate a) = cnt counted (ad_pcs a) \<and>
    tracker_Count (ad_trk a) = int (card {i. i < length (ad_pcs a) \<and> ad_pcs a ! i = Tracked}) \<and>
    (\<forall>i<length (ad_pcs a). ad_pcs a ! i = Untracked \<longrightarrow> slots_recv (ad_gate a) \<noteq> None) \<and>
    on_full k (ad_trk a) \<noteq> None"
proof -
  note inv = adm_reachable_inv [OF assms]
  then obtain xs where xs: "tracks xs (ad_trk a)" "set xs = tracked_ids (ad_pcs a)"
    by (auto simp: adm_inv_def)
  then have "tracker_Count (ad_trk a) = int (card (tracked_ids (ad_pcs a)))"
    by (cases "ad_trk a") (auto simp: tracks_def tracker_Count_def distinct_card [symmetric])
  moreover have "slots_recv (ad_gate a) \<noteq> None" if "i < length (ad_pcs a)" "ad_pcs a ! i = Untracked" for i
    using inv that cnt_pos [of i "ad_pcs a" has_token] by (simp add: adm_inv_def slots_recv_def)
  ultimately show ?thesis
    using inv on_full_total [OF inv] by (simp add: adm_inv_def InFlight_def tracked_ids_def)
qed


text \<open>Nothing marks a session as chosen: two connections that find the gate full while no
  session ends choose the same victim, and its connection is closed twice.\<close>
theorem evict_same_victim_twice:
  assumes "slots_send (ad_gate a) = None" and "on_full k (ad_trk a) = Some (Wait r out (Some v))"
    and "i < length (ad_pcs a)" and "j < length (ad_pcs a)" and "i \<noteq> j"
    and "ad_pcs a ! i = Arrived" and "ad_pcs a ! j = Arrived"
  shows "\<exists>b. (adm_step k)\<^sup>*\<^sup>* a b \<and> ad_closed b = ad_closed a @ [v, v]"
proof -
  let ?b = "a\<lparr>ad_pcs := (ad_pcs a)[i := Waiting r out], ad_closed := ad_closed a @ [v]\<rparr>"
  let ?c = "?b\<lparr>ad_pcs := (ad_pcs ?b)[j := Waiting r out], ad_closed := ad_closed ?b @ [v]\<rparr>"
  have "adm_step k a ?b" using adm_wait [of i a k r out "Some v"] assms by simp
  moreover have "adm_step k ?b ?c" using adm_wait [of j ?b k r out "Some v"] assms by simp
  ultimately have "(adm_step k)\<^sup>*\<^sup>* a ?c" by (rule converse_rtranclp_into_rtranclp [OF _ r_into_rtranclp])
  then show ?thesis by (intro exI [of _ ?c]) simp
qed

text \<open>A gate for one client that is full, for the witnesses.\<close>

definition ex_conn :: NetConn where
  "ex_conn = \<lparr>nc_handle = 7, nc_RemoteAddr = Some ''10.0.0.9:4000''\<rparr>"

definition ex_cfg1 :: Config where
  "ex_cfg1 = Defaults\<lparr>cf_MaxClients := 1, cf_Backpressure := BackpressureDropOldest\<rparr>"

definition ex_full :: Adm where
  "ex_full =
     \<lparr>ad_gate = \<lparr>tg_cap = 1, tg_slots = 1, tg_inflight = 1, tg_waitTO = cf_AdmissionWaitTimeout ex_cfg1\<rparr>,
      ad_trk = tracker_Add 0 (NewTracker, (\<lambda>_. ex_session)(0 := new_session ex_conn 5)),
      ad_pcs = [Tracked, Arrived, Arrived], ad_canceled = False, ad_closed = []\<rparr>"

lemma ex_full_reachable: "(adm_step (EvictGate True True))\<^sup>*\<^sup>* (adm_init ex_cfg1 (\<lambda>_. ex_session)) ex_full"
proof -
  let ?k = "EvictGate True True" and ?i = "adm_init ex_cfg1 (\<lambda>_. ex_session)"
  let ?to = "cf_AdmissionWaitTimeout ex_cfg1"
  let ?a1 = "?i\<lparr>ad_pcs := [Arrived]\<rparr>"
  let ?a2 = "?i\<lparr>ad_pcs := [Sent Admitted], ad_gate := \<lparr>tg_cap = 1, tg_slots = 1, tg_inflight = 0, tg_waitTO = ?to\<rparr>\<rparr>"
  let ?a3 = "?i\<lparr>ad_pcs := [Through Admitted], ad_gate := \<lparr>tg_cap = 1, tg_slots = 1, tg_inflight = 1, tg_waitTO = ?to\<rparr>\<rparr>"
  let ?a4 = "ex_full\<lparr>ad_pcs := [Tracked]\<rparr>"
  let ?a5 = "ex_full\<lparr>ad_pcs := [Tracked, Arrived]\<rparr>"
  have s1: "adm_step ?k ?i ?a1" using adm_accept [of ?k ?i] by (simp add: adm_init_def)
  have s2: "adm_step ?k ?a1 ?a2" using adm_try [of 0 ?a1 "\<lparr>tg_cap = 1, tg_slots = 1, tg_inflight = 0, tg_waitTO = ?to\<rparr>" ?k]
    by (simp add: adm_init_def admission_New_def Let_def slots_send_def ex_cfg1_def)
  have s3: "adm_step ?k ?a2 ?a3" using adm_count [of 0 ?a2 Admitted ?k] by (simp add: inflight_Add_def adm_init_def)
  have s4: "adm_step ?k ?a3 ?a4" using adm_track [of 0 ?a3 Admitted ?k ex_conn 5]
    by (simp add: adm_init_def ex_full_def)
  have s5: "adm_step ?k ?a4 ?a5" using adm_accept [of ?k ?a4] by (simp add: ex_full_def)
  have s6: "adm_step ?k ?a5 ex_full" using adm_accept [of ?k ?a5] by (simp add: ex_full_def)
  note more = converse_rtranclp_into_rtranclp [where r = "adm_step ?k"] and last = r_into_rtranclp [where r = "adm_step ?k"]
  show ?thesis by (rule more [OF s1 more [OF s2 more [OF s3 more [OF s4 more [OF s5 last [OF s6]]]]]])
qed

lemma ex_full_victim: "on_full (EvictGate True True) (ad_trk ex_full) =
    Some (Wait ''evict_wait_timeout'' Evicted (Some \<lparr>v_Conn = Some ex_conn, v_UpstreamID = [], v_UpstreamPrio = 0, v_AdmittedAt = 5\<rparr>))"
  by (simp add: ex_full_def tracker_Add_def NewTracker_def PickOldestVictim_def victimFromSession_def new_session_def)

theorem gate_capacity_witness: "cnt has_token (ad_pcs ex_full) \<le> 1 \<and> tracker_Count (ad_trk ex_full) = 1"
  using gate_capacity [OF _ ex_full_reachable]
  by (simp add: ex_cfg1_def) (simp add: ex_full_def tracker_Add_def NewTracker_def tracker_Count_def)


theorem evict_same_victim_twice_witness:
  "\<exists>b v. (adm_step (EvictGate True True))\<^sup>*\<^sup>* ex_full b \<and> ad_closed b = [v, v]"
  using evict_same_victim_twice [OF _ ex_full_victim, of 1 2]
  by (auto simp: ex_full_def slots_send_def)

end
