(* ===== verification/Balancer.thy ===== *)
theory Balancer
  imports Transport Strategy Gate "HOL-Library.AList"
begin

text \<open>
  The state of a load balancer and the operations on its pool:
  \<^verbatim>\<open>internal/balancer/balancer.go\<close>, \<^verbatim>\<open>health.go\<close> and \<^verbatim>\<open>reload.go\<close>.

  A reload replaces the upstreams but keeps the \<open>State\<close> object of every upstream whose ID
  survives, so that sessions opened before it still give their slots back to the right counter.
  Because this aliasing is the point, states live in a store \<open>lb_states\<close> and a pooled upstream
  is a specification together with a reference; the \<open>up_State\<close> field of the specification is
  the fresh state it was built with and is only read when the upstream enters the pool.
  \<open>byID\<close> is an association list without duplicate keys.  The gauges and counters of
  \<^verbatim>\<open>internal/metrics\<close> that follow the pool are maps from label values.
\<close>

section \<open>State\<close>

type_synonym stref = nat
type_synonym pooled = "Upstream \<times> stref"

record Metrics =
  mt_UpActive :: "string \<rightharpoonup> int"
  mt_UpHealthy :: "string \<rightharpoonup> int"
  mt_UpSelected :: "string \<rightharpoonup> int"
  mt_UpSessions :: "string \<rightharpoonup> int"
  mt_UpFailures :: "string \<times> string \<rightharpoonup> int"

definition mt_Set :: "'k \<Rightarrow> int \<Rightarrow> ('k \<rightharpoonup> int) \<Rightarrow> ('k \<rightharpoonup> int)" where
  "mt_Set k v m = m(k \<mapsto> v)"

definition mt_Add :: "'k \<Rightarrow> int \<Rightarrow> ('k \<rightharpoonup> int) \<Rightarrow> ('k \<rightharpoonup> int)" where
  "mt_Add k d m = m(k \<mapsto> (case m k of None \<Rightarrow> d | Some v \<Rightarrow> v + d))"

definition mt_Delete :: "'k \<Rightarrow> ('k \<rightharpoonup> int) \<Rightarrow> ('k \<rightharpoonup> int)" where
  "mt_Delete k m = m(k := None)"

record waiter =
  w_ticket :: "pooled option"
  w_sc :: SelectCtx
  w_canceled :: bool

record 'rc LB =
  lb_cfg :: Config
  lb_configPath :: string
  lb_dialer :: "'rc Dialer"
  lb_selector :: Selector
  lb_rng :: rng
  lb_pool :: "pooled list"
  lb_byID :: "(string \<times> pooled) list"
  lb_states :: "stref \<Rightarrow> UState"
  lb_next :: stref
  lb_metrics :: Metrics
  lb_queue :: "nat list"
  lb_waiters :: "waiter list"
  lb_trk :: "Tracker \<times> sstore"
  lb_gate :: "GateKind \<times> TokenGate"
  lb_conns :: "nat set"

section \<open>The pool\<close>

fun find_dup :: "string set \<Rightarrow> Upstream list \<Rightarrow> string option" where
  "find_dup seen [] = None"
| "find_dup seen (u # us) = (if up_ID u \<in> seen then Some (up_ID u) else find_dup (insert (up_ID u) seen) us)"

definition boolToFloat :: "bool \<Rightarrow> int" where
  "boolToFloat b = (if b then 1 else 0)"

type_synonym adoption = "pooled list \<times> (string \<times> pooled) list \<times> (stref \<Rightarrow> UState) \<times> stref \<times> Metrics"

text \<open>One upstream of the sorted list enters the new pool.\<close>

definition adopt :: "(string \<times> pooled) list \<Rightarrow> Upstream \<Rightarrow> adoption \<Rightarrow> adoption" where
  "adopt oldByID u a =
     (case a of (pool, idx, states, nxt, m) \<Rightarrow>
        let (r, states', nxt') =
              (case map_of oldByID (up_ID u) of
                 Some (_, r) \<Rightarrow> (r, states, nxt)
               | None \<Rightarrow> (nxt, states(nxt := up_State u), Suc nxt));
            m' = m\<lparr>mt_UpActive := mt_Set (Addr u) (us_active (states' r)) (mt_UpActive m),
                   mt_UpHealthy := mt_Set (Addr u) (boolToFloat (us_healthy (states' r))) (mt_UpHealthy m)\<rparr>
        in (pool @ [(u, r)], AList.update (up_ID u) (u, r) idx, states', nxt', m'))"

definition drop_metrics :: "(string \<times> pooled) list \<Rightarrow> string \<times> pooled \<Rightarrow> Metrics \<Rightarrow> Metrics" where
  "drop_metrics idx e m =
     (case e of (i, (old, _)) \<Rightarrow>
        if map_of idx i \<noteq> None then m
        else m\<lparr>mt_UpActive := mt_Delete (Addr old) (mt_UpActive m),
               mt_UpHealthy := mt_Delete (Addr old) (mt_UpHealthy m),
               mt_UpSelected := mt_Delete (Addr old) (mt_UpSelected m),
               mt_UpSessions := mt_Delete (Addr old) (mt_UpSessions m),
               mt_UpFailures := mt_Delete (Addr old, ''handshake'') (mt_Delete (Addr old, ''connect'')
                 (mt_Delete (Addr old, ''probe'') (mt_UpFailures m)))\<rparr>)"

definition setUpstreams :: "Upstream list \<Rightarrow> 'rc LB \<Rightarrow> gerror option \<times> 'rc LB" where
  "setUpstreams ups0 lb =
     (let ups = map NormalizeID ups0 in
      case find_dup {} ups of
        Some i \<Rightarrow> (Some (Errorf ''duplicate upstream ID %q'' [FStr i]), lb)
      | None \<Rightarrow>
          (case fold (adopt (lb_byID lb)) (sort_key up_Priority ups) ([], [], lb_states lb, lb_next lb, lb_metrics lb) of
             (pool, idx, states, nxt, m) \<Rightarrow>
               (None, lb\<lparr>lb_pool := pool, lb_byID := idx, lb_states := states, lb_next := nxt,
                 lb_metrics := fold (drop_metrics idx) (lb_byID lb) m\<rparr>)))"

definition no_metrics :: Metrics where
  "no_metrics = \<lparr>mt_UpActive = Map.empty, mt_UpHealthy = Map.empty, mt_UpSelected = Map.empty,
     mt_UpSessions = Map.empty, mt_UpFailures = Map.empty\<rparr>"

definition balancer_New ::
  "Config \<Rightarrow> string \<Rightarrow> Upstream list \<Rightarrow> Selector \<Rightarrow> rng \<Rightarrow> sstore \<Rightarrow> gerror + 'rc LB" where
  "balancer_New cfg configPath ups sel g h =
     (case setUpstreams ups
         \<lparr>lb_cfg = cfg, lb_configPath = configPath,
          lb_dialer = DirectDialer \<lparr>td_Timeout = cf_ConnectTimeout cfg, td_KeepAlive = seconds 30\<rparr>,
          lb_selector = sel, lb_rng = g, lb_pool = [], lb_byID = [], lb_states = (\<lambda>_. NewState), lb_next = 0,
          lb_metrics = no_metrics, lb_queue = [], lb_waiters = [], lb_trk = (NewTracker, h),
          lb_gate = admission_New cfg True, lb_conns = {}\<rparr> of
        (Some err, _) \<Rightarrow> Inl (Errorf ''validate upstreams: %w'' [FErr err])
      | (None, lb) \<Rightarrow> Inr lb)"

definition SetDialer :: "'rc Dialer option \<Rightarrow> 'rc LB \<Rightarrow> 'rc LB" where
  "SetDialer d lb = (case d of None \<Rightarrow> lb | Some d' \<Rightarrow> lb\<lparr>lb_dialer := d'\<rparr>)"

definition lb_AnyHealthy :: "'rc LB \<Rightarrow> bool" where
  "lb_AnyHealthy lb = list_ex (\<lambda>(u, r). us_healthy (lb_states lb r)) (lb_pool lb)"

definition track :: "nat \<Rightarrow> 'rc LB \<Rightarrow> 'rc LB" where
  "track c lb = lb\<lparr>lb_conns := insert c (lb_conns lb)\<rparr>"

definition untrack :: "nat \<Rightarrow> 'rc LB \<Rightarrow> 'rc LB" where
  "untrack c lb = lb\<lparr>lb_conns := lb_conns lb - {c}\<rparr>"

text \<open>The connections to close, and how many they are.\<close>

definition closeAllConns :: "'rc LB \<Rightarrow> nat \<times> nat set" where
  "closeAllConns lb = (card (lb_conns lb), lb_conns lb)"

text \<open>The upstream of a reference as a value: its specification with the current state.\<close>

definition deref :: "(stref \<Rightarrow> UState) \<Rightarrow> pooled \<Rightarrow> Upstream" where
  "deref states p = (fst p)\<lparr>up_State := states (snd p)\<rparr>"

definition currentPool :: "'rc LB \<Rightarrow> Snapshot list \<times> (string \<times> pooled) list" where
  "currentPool lb = (map (\<lambda>p. snapshot (deref (lb_states lb) p)) (lb_pool lb), lb_byID lb)"

definition lb_DrainUpstream :: "string \<Rightarrow> bool \<Rightarrow> 'rc LB \<Rightarrow> bool \<times> 'rc LB" where
  "lb_DrainUpstream i drain lb =
     (case map_of (lb_byID lb) i of
        None \<Rightarrow> (False, lb)
      | Some (_, r) \<Rightarrow> (True, lb\<lparr>lb_states := (lb_states lb)(r := SetDrain drain (lb_states lb r))\<rparr>))"

definition lb_Sessions :: "'rc LB \<Rightarrow> SessionSnapshot list option" where
  "lb_Sessions lb = tracker_Sessions (lb_trk lb)"

section \<open>Picking an upstream\<close>

text \<open>
  \<open>pick\<close> in the two halves between which other goroutines may run: choosing from a snapshot,
  then taking a slot of the chosen upstream.
\<close>

definition choose_upstream :: "SelectCtx \<Rightarrow> 'rc LB \<Rightarrow> pooled option \<times> 'rc LB" where
  "choose_upstream sc lb =
     (let (snaps, idx) = currentPool lb;
          (i, (sel, g)) = Pick sc snaps (cf_MaxPerProxy (lb_cfg lb)) (lb_selector lb, lb_rng lb);
          lb' = lb\<lparr>lb_selector := sel, lb_rng := g\<rparr>
      in if i = [] then (None, lb') else (map_of idx i, lb'))"

definition take_slot :: "int \<Rightarrow> pooled \<Rightarrow> 'rc LB \<Rightarrow> bool \<times> 'rc LB" where
  "take_slot maxPerProxy p lb =
     (case IncActive maxPerProxy (lb_states lb (snd p)) of
        (False, _) \<Rightarrow> (False, lb)
      | (True, s) \<Rightarrow>
          let addr = Addr (fst p); m = lb_metrics lb
          in (True, lb\<lparr>lb_states := (lb_states lb)(snd p := s),
                lb_metrics := m\<lparr>mt_UpActive := mt_Add addr 1 (mt_UpActive m),
                  mt_UpSelected := mt_Add addr 1 (mt_UpSelected m),
                  mt_UpSessions := mt_Add addr 1 (mt_UpSessions m)\<rparr>\<rparr>))"

definition pick :: "SelectCtx \<Rightarrow> 'rc LB \<Rightarrow> pooled option \<times> 'rc LB" where
  "pick sc lb =
     (case choose_upstream sc lb of
        (None, lb') \<Rightarrow> (None, lb')
      | (Some p, lb') \<Rightarrow> (case take_slot (cf_MaxPerProxy (lb_cfg lb)) p lb' of (True, lb'') \<Rightarrow> (Some p, lb'') | (False, lb'') \<Rightarrow> (None, lb'')))"

text \<open>The first half of \<open>releaseSlot\<close>; the second is \<open>dispatch\<close>.\<close>

definition give_slot :: "pooled \<Rightarrow> 'rc LB \<Rightarrow> 'rc LB" where
  "give_slot p lb =
     (let m = lb_metrics lb in
      lb\<lparr>lb_states := (lb_states lb)(snd p := DecActive (lb_states lb (snd p))),
         lb_metrics := m\<lparr>mt_UpActive := mt_Add (Addr (fst p)) (- 1) (mt_UpActive m)\<rparr>\<rparr>)"

section \<open>Health\<close>

definition lb_markHealthy :: "pooled \<Rightarrow> 'rc LB \<Rightarrow> bool \<times> 'rc LB" where
  "lb_markHealthy p lb =
     (case MarkHealthy (lb_states lb (snd p)) of
        (False, _) \<Rightarrow> (False, lb)
      | (True, s) \<Rightarrow>
          let m = lb_metrics lb
          in (True, lb\<lparr>lb_states := (lb_states lb)(snd p := s),
                lb_metrics := m\<lparr>mt_UpHealthy := mt_Set (Addr (fst p)) 1 (mt_UpHealthy m)\<rparr>\<rparr>))"

definition lb_recordFailure :: "pooled \<Rightarrow> string \<Rightarrow> int \<Rightarrow> 'rc LB \<Rightarrow> 'rc LB" where
  "lb_recordFailure p stage now lb =
     (case RecordFailure (cf_FailureThreshold (lb_cfg lb)) (cf_FailureWindow (lb_cfg lb)) now (lb_states lb (snd p)) of
        ((consec, tripped), s) \<Rightarrow>
          let m = lb_metrics lb; addr = Addr (fst p);
              m1 = m\<lparr>mt_UpFailures := mt_Add (addr, stage) 1 (mt_UpFailures m)\<rparr>;
              m2 = (if tripped then m1\<lparr>mt_UpHealthy := mt_Set addr 0 (mt_UpHealthy m1)\<rparr> else m1)
          in lb\<lparr>lb_states := (lb_states lb)(snd p := s), lb_metrics := m2\<rparr>)"

definition lb_recordSuccess :: "pooled \<Rightarrow> 'rc LB \<Rightarrow> 'rc LB" where
  "lb_recordSuccess p lb = lb\<lparr>lb_states := (lb_states lb)(snd p := RecordSuccess (lb_states lb (snd p)))\<rparr>"

text \<open>
  What a worker of \<open>runHealthChecks\<close> does for one upstream, given the clock and the result of
  the probe; the flag tells whether it goes on to dispatch waiters.
\<close>

definition backing_off :: "Config \<Rightarrow> int \<Rightarrow> UState \<Rightarrow> bool" where
  "backing_off cfg now s \<longleftrightarrow> \<not> us_healthy s \<and> time_Sub now (us_lastFailureTS s) < cf_RetryBackoff cfg"

definition check_upstream :: "int \<Rightarrow> gerror option \<Rightarrow> pooled \<Rightarrow> 'rc LB \<Rightarrow> bool \<times> 'rc LB" where
  "check_upstream now probe_err p lb =
     (if backing_off (lb_cfg lb) now (lb_states lb (snd p)) then (False, lb)
      else case probe_err of
        None \<Rightarrow> lb_markHealthy p (lb_recordSuccess p lb)
      | Some err \<Rightarrow> (False, lb_recordFailure p ''probe'' now lb))"

definition health_workers :: "int \<Rightarrow> nat \<Rightarrow> int" where
  "health_workers gomaxprocs pool_len =
     (let w = gomaxprocs * 2;
          w' = (if int pool_len < w then int pool_len else w)
      in if w' < 1 then 1 else w')"

section \<open>Reload\<close>

definition keep_immutable :: "Config \<Rightarrow> Config \<Rightarrow> Config" where
  "keep_immutable old new =
     new\<lparr>cf_ListenAddr := cf_ListenAddr old, cf_AdminAddr := cf_AdminAddr old, cf_Strategy := cf_Strategy old,
         cf_HashKey := cf_HashKey old, cf_MaxClients := cf_MaxClients old, cf_OTel := cf_OTel old\<rparr>"

definition reloadFromConfig :: "'rc transport_env \<Rightarrow> Config \<Rightarrow> 'rc LB \<Rightarrow> gerror option \<times> 'rc LB" where
  "reloadFromConfig env newCfg0 lb =
     (case Validate newCfg0 of
        (Some err, _) \<Rightarrow> (Some (Errorf ''validate: %w'' [FErr err]), lb)
      | (None, newCfg1) \<Rightarrow>
     (let oldCfg = lb_cfg lb; newCfg2 = keep_immutable oldCfg newCfg1 in
      if cf_Upstreams newCfg2 = []
      then (Some (errors_New ''config contains no upstreams; reload rejected to preserve current pool''), lb)
      else
     (case BuildUpstreams newCfg2 of
        Inl err \<Rightarrow> (Some (Errorf ''build upstreams: %w'' [FErr err]), lb)
      | Inr newUps \<Rightarrow>
     (let needed = (cf_Backpressure oldCfg \<noteq> cf_Backpressure newCfg2 \<or>
            cf_AdmissionWaitTimeout oldCfg \<noteq> cf_AdmissionWaitTimeout newCfg2);
          busy = (tracker_Count (lb_trk lb) \<noteq> 0);
          newCfg = (if needed \<and> busy
            then newCfg2\<lparr>cf_Backpressure := cf_Backpressure oldCfg, cf_AdmissionWaitTimeout := cf_AdmissionWaitTimeout oldCfg\<rparr>
            else newCfg2);
          newGate = (if needed \<and> \<not> busy then Some (admission_New newCfg True) else None)
      in
      (case NewFromConfig env newCfg of
         Inl err \<Rightarrow> (Some (Errorf ''transport: %w'' [FErr err]), lb)
       | Inr newDialer \<Rightarrow>
      (case setUpstreams newUps lb of
         (Some err, lb1) \<Rightarrow> (Some (Errorf ''set upstreams: %w'' [FErr err]), lb1)
       | (None, lb1) \<Rightarrow>
           let lb2 = lb1\<lparr>lb_cfg := newCfg, lb_dialer := newDialer\<rparr>
           in (None, (case newGate of None \<Rightarrow> lb2 | Some g \<Rightarrow> lb2\<lparr>lb_gate := g\<rparr>))))))))"

definition lb_Reload ::
  "'rc transport_env \<Rightarrow> (string \<Rightarrow> gerror + Config) \<Rightarrow> 'rc LB \<Rightarrow> gerror option \<times> 'rc LB" where
  "lb_Reload env load lb =
     (if lb_configPath lb = [] then (Some (errors_New ''reload: no config path was supplied at startup''), lb)
      else
        (case load (lb_configPath lb) of
           Inl err \<Rightarrow> (Some (Errorf ''reload: %w'' [FErr err]), lb)
         | Inr newCfg \<Rightarrow> reloadFromConfig env newCfg lb))"

section \<open>The pool invariant\<close>

abbreviation pooled_ID :: "pooled \<Rightarrow> string" where
  "pooled_ID p \<equiv> up_ID (fst p)"

definition keyed :: "pooled list \<Rightarrow> (string \<times> pooled) list" where
  "keyed pool = map (\<lambda>p. (pooled_ID p, p)) pool"

definition pool_inv :: "'rc LB \<Rightarrow> bool" where
  "pool_inv lb \<longleftrightarrow> lb_byID lb = keyed (lb_pool lb) \<and> distinct (map pooled_ID (lb_pool lb)) \<and>
     (\<forall>p\<in>set (lb_pool lb). pooled_ID p \<noteq> []) \<and> sorted (map (\<lambda>p. up_Priority (fst p)) (lb_pool lb)) \<and>
     distinct (map snd (lb_pool lb)) \<and> (\<forall>p\<in>set (lb_pool lb). snd p < lb_next lb)"

lemma pool_inv_update [simp]:
  "pool_inv (lb\<lparr>lb_selector := sel\<rparr>) = pool_inv lb" "pool_inv (lb\<lparr>lb_rng := g\<rparr>) = pool_inv lb"
  "pool_inv (lb\<lparr>lb_states := st\<rparr>) = pool_inv lb" "pool_inv (lb\<lparr>lb_metrics := m\<rparr>) = pool_inv lb"
  "pool_inv (lb\<lparr>lb_cfg := c\<rparr>) = pool_inv lb" "pool_inv (lb\<lparr>lb_dialer := d\<rparr>) = pool_inv lb"
  "pool_inv (lb\<lparr>lb_gate := gt\<rparr>) = pool_inv lb" "pool_inv (lb\<lparr>lb_queue := q\<rparr>) = pool_inv lb"
  "pool_inv (lb\<lparr>lb_waiters := ws\<rparr>) = pool_inv lb"
  by (simp_all add: pool_inv_def)

lemma map_of_keyed:
  assumes "distinct (map pooled_ID pool)"
  shows "map_of (keyed pool) i = Some p \<longleftrightarrow> p \<in> set pool \<and> pooled_ID p = i"
  using assms by (auto simp: keyed_def map_of_eq_Some_iff comp_def)

lemma map_of_keyed_None: "map_of (keyed pool) i = None \<longleftrightarrow> i \<notin> pooled_ID ` set pool"
  by (auto simp: keyed_def map_of_eq_None_iff image_iff)

lemma update_keyed: "pooled_ID p \<notin> pooled_ID ` set pool \<Longrightarrow> AList.update (pooled_ID p) p (keyed pool) = keyed (pool @ [p])"
  by (induction pool) (auto simp: keyed_def)

text \<open>The references the upstreams of a sorted list get.\<close>

fun adopt_refs :: "(string \<times> pooled) list \<Rightarrow> stref \<Rightarrow> Upstream list \<Rightarrow> stref list" where
  "adopt_refs old n [] = []"
| "adopt_refs old n (u # us) =
     (case map_of old (up_ID u) of
        Some (_, r) \<Rightarrow> r # adopt_refs old n us
      | None \<Rightarrow> n # adopt_refs old (Suc n) us)"

lemma length_adopt_refs [simp]: "length (adopt_refs old n us) = length us"
  by (induction us arbitrary: n) (auto split: option.split)

lemma adopt_refs_mem:
  assumes "r \<in> set (adopt_refs old n us)"
  shows "n \<le> r \<and> r < n + length us \<or> (\<exists>u\<in>set us. \<exists>v. map_of old (up_ID u) = Some (v, r))"
  using assms by (induction us arbitrary: n) (force split: option.splits)+

lemma distinct_adopt_refs:
  assumes "distinct (map up_ID us)" and "\<forall>i v r. map_of old i = Some (v, r) \<longrightarrow> r < n"
    and "\<forall>i j v w r. map_of old i = Some (v, r) \<longrightarrow> map_of old j = Some (w, r) \<longrightarrow> i = j"
  shows "distinct (adopt_refs old n us)"
  using assms(1,2)
proof (induction us arbitrary: n)
  case (Cons u us)
  show ?case
  proof (cases "map_of old (up_ID u)")
    case None
    have "distinct (adopt_refs old (Suc n) us)" using Cons.prems by (intro Cons.IH) (auto simp: less_SucI)
    moreover have "n \<notin> set (adopt_refs old (Suc n) us)"
      using adopt_refs_mem [of n old "Suc n" us] Cons.prems(2) by fastforce
    ultimately show ?thesis using None by simp
  next
    case (Some p)
    obtain v r where p: "p = (v, r)" by (cases p)
    have "distinct (adopt_refs old n us)" using Cons by simp
    moreover have "r \<notin> set (adopt_refs old n us)"
    proof
      assume "r \<in> set (adopt_refs old n us)"
      with adopt_refs_mem [OF this] Some p Cons.prems(2) obtain u' w where
        "u' \<in> set us" "map_of old (up_ID u') = Some (w, r)" by fastforce
      with Some p assms(3) Cons.prems(1) show False by (metis distinct.simps(2) imageI list.simps(9) set_map)
    qed
    ultimately show ?thesis using Some p by simp
  qed
qed simp

text \<open>What the loop of \<open>setUpstreams\<close> computes.\<close>

lemma adopt_fold:
  assumes "distinct (map up_ID us)" and "up_ID ` set us \<inter> pooled_ID ` set pool = {}"
    and "\<forall>i v r. map_of old i = Some (v, r) \<longrightarrow> r < n"
  shows "\<exists>st' n' m'. fold (adopt old) us (pool, keyed pool, st, n, m) =
      (pool @ zip us (adopt_refs old n us), keyed (pool @ zip us (adopt_refs old n us)), st', n', m') \<and>
    n \<le> n' \<and> (\<forall>r<n. st' r = st r) \<and> (\<forall>r\<in>set (adopt_refs old n us). r < n') \<and>
    (\<forall>(u, r)\<in>set (zip us (adopt_refs old n us)). map_of old (up_ID u) = None \<longrightarrow> n \<le> r \<and> st' r = up_State u)"
  using assms
proof (induction us arbitrary: pool st n m)
  case (Cons u us)
  obtain r st1 n1 where st1: "(case map_of old (up_ID u) of Some (_, r) \<Rightarrow> (r, st, n)
      | None \<Rightarrow> (n, st(n := up_State u), Suc n)) = (r, st1, n1)"
    by (metis prod_cases3)
  have refs: "adopt_refs old n (u # us) = r # adopt_refs old n1 us"
    using st1 by (auto split: option.splits)
  have step: "\<exists>m1. adopt old u (pool, keyed pool, st, n, m) = (pool @ [(u, r)], keyed (pool @ [(u, r)]), st1, n1, m1)"
    using st1 Cons.prems(2) update_keyed [of "(u, r)" pool] by (auto simp: adopt_def Let_def)
  then obtain m1 where m1: "adopt old u (pool, keyed pool, st, n, m) = (pool @ [(u, r)], keyed (pool @ [(u, r)]), st1, n1, m1)"
    by blast
  have n1: "n \<le> n1" "\<forall>i v r. map_of old i = Some (v, r) \<longrightarrow> r < n1" "\<forall>r<n. st1 r = st r" "r < n1"
    "map_of old (up_ID u) = None \<longrightarrow> n \<le> r \<and> st1 r = up_State u"
    using st1 Cons.prems(3) by (auto split: option.splits simp: less_SucI)
  obtain st' n' m' where ih: "fold (adopt old) us (pool @ [(u, r)], keyed (pool @ [(u, r)]), st1, n1, m1) =
        ((pool @ [(u, r)]) @ zip us (adopt_refs old n1 us), keyed ((pool @ [(u, r)]) @ zip us (adopt_refs old n1 us)), st', n', m')"
      "n1 \<le> n'" "\<forall>r<n1. st' r = st1 r" "\<forall>r\<in>set (adopt_refs old n1 us). r < n'"
      "\<forall>(u, r)\<in>set (zip us (adopt_refs old n1 us)). map_of old (up_ID u) = None \<longrightarrow> n1 \<le> r \<and> st' r = up_State u"
    using Cons.IH [of "pool @ [(u, r)]" n1 st1 m1] Cons.prems n1(2) by auto
  have "\<forall>(u, r)\<in>set (zip us (adopt_refs old n1 us)). map_of old (up_ID u) = None \<longrightarrow> n \<le> r \<and> st' r = up_State u"
    using ih(5) n1(1) by fastforce
  then show ?case
    using ih(1-4) n1 unfolding refs by (intro exI [of _ st'] exI [of _ n'] exI [of _ m']) (auto simp: m1)
qed simp

lemma find_dup_None: "find_dup seen us = None \<longleftrightarrow> distinct (map up_ID us) \<and> up_ID ` set us \<inter> seen = {}"
  by (induction us arbitrary: seen) auto

lemma pool_inv_old:
  assumes "pool_inv lb"
  shows "\<forall>i v r. map_of (lb_byID lb) i = Some (v, r) \<longrightarrow> r < lb_next lb"
    and "\<forall>i j v w r. map_of (lb_byID lb) i = Some (v, r) \<longrightarrow> map_of (lb_byID lb) j = Some (w, r) \<longrightarrow> i = j"
proof -
  have d: "lb_byID lb = keyed (lb_pool lb)" "distinct (map pooled_ID (lb_pool lb))" "distinct (map snd (lb_pool lb))"
    "\<forall>p\<in>set (lb_pool lb). snd p < lb_next lb"
    using assms by (auto simp: pool_inv_def)
  show "\<forall>i v r. map_of (lb_byID lb) i = Some (v, r) \<longrightarrow> r < lb_next lb"
    using d by (auto simp: map_of_keyed)
  show "\<forall>i j v w r. map_of (lb_byID lb) i = Some (v, r) \<longrightarrow> map_of (lb_byID lb) j = Some (w, r) \<longrightarrow> i = j"
  proof (intro allI impI)
    fix i j v w r
    assume "map_of (lb_byID lb) i = Some (v, r)" "map_of (lb_byID lb) j = Some (w, r)"
    with d have "(v, r) \<in> set (lb_pool lb)" "(w, r) \<in> set (lb_pool lb)" "up_ID v = i" "up_ID w = j"
      by (auto simp: map_of_keyed)
    moreover from d(3) have "inj_on snd (set (lb_pool lb))" by (simp add: distinct_map)
    ultimately show "i = j" by (metis fst_conv inj_onD snd_conv)
  qed
qed

lemma zip_map_fst: "length xs = length ys \<Longrightarrow> map (\<lambda>p. f (fst p)) (zip xs ys) = map f xs"
  by (induction xs ys rule: list_induct2) auto


lemma setUpstreams_error: "setUpstreams ups lb = (Some e, lb') \<Longrightarrow> lb' = lb"
  by (auto simp: setUpstreams_def Let_def split: option.splits prod.splits)

lemma setUpstreams_None: "fst (setUpstreams ups lb) = None \<longleftrightarrow> distinct (map (\<lambda>u. up_ID (NormalizeID u)) ups)"
  using find_dup_None [of "{}" "map NormalizeID ups"]
  by (auto simp: setUpstreams_def Let_def comp_def split: option.splits prod.splits)

lemma distinct_map_sort: "distinct (map f (sort_key g xs)) = distinct (map f xs)"
  by (simp add: distinct_map)

lemma setUpstreams_ok:
  assumes "pool_inv lb" and "setUpstreams ups lb = (None, lb')"
  defines "us \<equiv> sort_key up_Priority (map NormalizeID ups)"
  defines "refs \<equiv> adopt_refs (lb_byID lb) (lb_next lb) us"
  shows "lb_pool lb' = zip us refs" and "lb_byID lb' = keyed (zip us refs)" and "lb_next lb \<le> lb_next lb'"
    and "\<forall>r<lb_next lb. lb_states lb' r = lb_states lb r" and "\<forall>r\<in>set refs. r < lb_next lb'"
    and "\<forall>(u, r)\<in>set (zip us refs). map_of (lb_byID lb) (up_ID u) = None \<longrightarrow> lb_next lb \<le> r \<and> lb_states lb' r = up_State u"
proof -
  have "distinct (map up_ID (map NormalizeID ups))"
    using assms(2) setUpstreams_None [of ups lb] by (simp add: comp_def)
  then have dist: "distinct (map up_ID us)" unfolding us_def distinct_map_sort .
  obtain st n m where f: "fold (adopt (lb_byID lb)) us ([], [], lb_states lb, lb_next lb, lb_metrics lb) =
        (zip us refs, keyed (zip us refs), st, n, m)"
      "lb_next lb \<le> n" "\<forall>r<lb_next lb. st r = lb_states lb r" "\<forall>r\<in>set refs. r < n"
      "\<forall>(u, r)\<in>set (zip us refs). map_of (lb_byID lb) (up_ID u) = None \<longrightarrow> lb_next lb \<le> r \<and> st r = up_State u"
    using adopt_fold [OF dist, of "[]" "lb_byID lb" "lb_next lb" "lb_states lb" "lb_metrics lb"]
      pool_inv_old(1) [OF assms(1)]
    by (auto simp: refs_def keyed_def)
  have "lb' = lb\<lparr>lb_pool := zip us refs, lb_byID := keyed (zip us refs), lb_states := st, lb_next := n,
      lb_metrics := fold (drop_metrics (keyed (zip us refs))) (lb_byID lb) m\<rparr>"
    using assms(2) f(1) by (simp add: setUpstreams_def us_def Let_def split: option.splits)
  with f show "lb_pool lb' = zip us refs" and "lb_byID lb' = keyed (zip us refs)" and "lb_next lb \<le> lb_next lb'"
    and "\<forall>r<lb_next lb. lb_states lb' r = lb_states lb r" and "\<forall>r\<in>set refs. r < lb_next lb'"
    and "\<forall>(u, r)\<in>set (zip us refs). map_of (lb_byID lb) (up_ID u) = None \<longrightarrow> lb_next lb \<le> r \<and> lb_states lb' r = up_State u"
    by simp_all
qed

lemma setUpstreams_inv:
  assumes "pool_inv lb" and "setUpstreams ups lb = (None, lb')"
  shows "pool_inv lb'"
proof -
  let ?us = "sort_key up_Priority (map NormalizeID ups)"
  let ?refs = "adopt_refs (lb_byID lb) (lb_next lb) ?us"
  note ok = setUpstreams_ok [OF assms]
  have "distinct (map up_ID (map NormalizeID ups))"
    using assms(2) setUpstreams_None [of ups lb] by (simp add: comp_def)
  then have dist: "distinct (map up_ID ?us)" unfolding distinct_map_sort .
  have "distinct ?refs" using distinct_adopt_refs [OF dist pool_inv_old [OF assms(1)]] .
  moreover have "\<forall>p\<in>set (zip ?us ?refs). fst p \<in> set ?us \<and> snd p \<in> set ?refs"
    by (metis in_set_zipE prod.collapse)
  moreover have "sorted (map up_Priority ?us)" by simp
  ultimately show ?thesis
    using dist ok(1,2,5) NormalizeID_nonempty
    by (auto simp: pool_inv_def zip_map_fst)
qed

lemma adopt_states:
  "fold (adopt old) us (pool, byid, st, n, m) = (pool', byid', st', n', m') \<Longrightarrow>
   st' r = st r \<or> n \<le> r \<and> (\<exists>u\<in>set us. st' r = up_State u)"
proof (induction us arbitrary: pool byid st n m)
  case (Cons u us)
  obtain pool1 byid1 st1 n1 m1 where 1: "adopt old u (pool, byid, st, n, m) = (pool1, byid1, st1, n1, m1)"
    by (metis prod_cases5)
  then have "n \<le> n1" "st1 r = st r \<or> n \<le> r \<and> st1 r = up_State u"
    by (auto simp: adopt_def Let_def split: option.splits if_splits)
  with Cons.IH [of pool1 byid1 st1 n1 m1] Cons.prems 1 show ?case by fastforce
qed simp

text \<open>Replacing the pool writes only fresh state objects.\<close>

lemma setUpstreams_states:
  assumes "setUpstreams ups lb = (None, lb')"
  shows "lb_states lb' r = lb_states lb r \<or> lb_next lb \<le> r \<and> (\<exists>u\<in>set ups. lb_states lb' r = up_State u)"
proof -
  let ?us = "sort_key up_Priority (map NormalizeID ups)"
  obtain pool byid st n m where f: "fold (adopt (lb_byID lb)) ?us ([], [], lb_states lb, lb_next lb, lb_metrics lb) =
      (pool, byid, st, n, m)"
    by (metis prod_cases5)
  then have "lb_states lb' = st"
    using assms by (auto simp: setUpstreams_def Let_def split: option.splits)
  with adopt_states [OF f, of r] show ?thesis by auto
qed

lemma zip_adopt_refs_old:
  "(u, r) \<in> set (zip us (adopt_refs old n us)) \<Longrightarrow> map_of old (up_ID u) = Some (v, q) \<Longrightarrow> r = q"
  by (induction us arbitrary: n) (auto split: option.splits)

section \<open>Picking\<close>

lemma snapshot_deref [simp]:
  "sn_ID (snapshot (deref st p)) = pooled_ID p" "sn_Healthy (snapshot (deref st p)) = us_healthy (st (snd p))"
  "sn_Active (snapshot (deref st p)) = us_active (st (snd p))"
  by (simp_all add: snapshot_def deref_def Let_def)

definition below_limit :: "int \<Rightarrow> 'rc LB \<Rightarrow> pooled \<Rightarrow> bool" where
  "below_limit mx lb p \<longleftrightarrow> us_healthy (lb_states lb (snd p)) \<and> us_active (lb_states lb (snd p)) < mx"

definition free_slot :: "'rc LB \<Rightarrow> pooled \<Rightarrow> bool" where
  "free_slot lb p \<longleftrightarrow> us_healthy (lb_states lb (snd p)) \<and> us_active (lb_states lb (snd p)) < cf_MaxPerProxy (lb_cfg lb)"

lemma is_eligible_deref:
  "is_eligible (cf_MaxPerProxy (lb_cfg lb)) (snapshot (deref (lb_states lb) p)) \<longleftrightarrow> free_slot lb p"
  by (simp add: is_eligible_def free_slot_def)

lemma named_currentPool: "pool_inv lb \<Longrightarrow> named (fst (currentPool lb))"
  by (auto simp: pool_inv_def currentPool_def list_all_iff)

lemma choose_upstream_cases:
  assumes "pool_inv lb"
  obtains (none) sel g where "choose_upstream sc lb = (None, lb\<lparr>lb_selector := sel, lb_rng := g\<rparr>)"
      "selector_ready (fst (currentPool lb)) (lb_selector lb, lb_rng lb) \<Longrightarrow> \<forall>p\<in>set (lb_pool lb). \<not> free_slot lb p"
    | (some) p sel g where "choose_upstream sc lb = (Some p, lb\<lparr>lb_selector := sel, lb_rng := g\<rparr>)"
      "p \<in> set (lb_pool lb)" "free_slot lb p"
proof -
  let ?snaps = "fst (currentPool lb)" and ?mx = "cf_MaxPerProxy (lb_cfg lb)"
  obtain i sel g where pk: "Pick sc ?snaps ?mx (lb_selector lb, lb_rng lb) = (i, (sel, g))" by (metis prod.collapse)
  have cu: "choose_upstream sc lb =
      (if i = [] then None else map_of (lb_byID lb) i, lb\<lparr>lb_selector := sel, lb_rng := g\<rparr>)"
    using pk by (auto simp: choose_upstream_def currentPool_def Let_def)
  show thesis
  proof (cases "i = []")
    case True
    have "\<forall>p\<in>set (lb_pool lb). \<not> free_slot lb p"
      if "selector_ready ?snaps (lb_selector lb, lb_rng lb)"
      using sel.pick_none_iff [OF that named_currentPool [OF assms], of sc ?mx] True pk
      by (auto simp: eligible_def filter_empty_conv currentPool_def is_eligible_deref)
    moreover from True cu have "choose_upstream sc lb = (None, lb\<lparr>lb_selector := sel, lb_rng := g\<rparr>)" by simp
    ultimately show thesis by (intro none)
  next
    case False
    with sel.pick_sound [of sc ?snaps ?mx "(lb_selector lb, lb_rng lb)"] pk obtain p where
      p: "p \<in> set (lb_pool lb)" "free_slot lb p" "pooled_ID p = i"
      by (auto simp: currentPool_def is_eligible_deref)
    then have "map_of (lb_byID lb) i = Some p" using assms by (auto simp: pool_inv_def map_of_keyed)
    with False cu have "choose_upstream sc lb = (Some p, lb\<lparr>lb_selector := sel, lb_rng := g\<rparr>)" by simp
    then show thesis using p(1,2) by (intro some)
  qed
qed

lemma take_slot_cases:
  obtains (full) "take_slot mx p lb = (False, lb)"
      "\<not> below_limit mx lb p \<or> us_draining (lb_states lb (snd p))"
    | (taken) m where "take_slot mx p lb = (True, lb\<lparr>lb_states := (lb_states lb)(snd p := (lb_states lb (snd p))
          \<lparr>us_active := us_active (lb_states lb (snd p)) + 1,
           us_totalSessions := us_totalSessions (lb_states lb (snd p)) + 1\<rparr>), lb_metrics := m\<rparr>)"
      "below_limit mx lb p" "\<not> us_draining (lb_states lb (snd p))"
proof (cases "below_limit mx lb p \<and> \<not> us_draining (lb_states lb (snd p))")
  case True
  let ?m = "(lb_metrics lb)\<lparr>mt_UpActive := mt_Add (Addr (fst p)) 1 (mt_UpActive (lb_metrics lb)),
    mt_UpSelected := mt_Add (Addr (fst p)) 1 (mt_UpSelected (lb_metrics lb)),
    mt_UpSessions := mt_Add (Addr (fst p)) 1 (mt_UpSessions (lb_metrics lb))\<rparr>"
  have "take_slot mx p lb = (True, lb\<lparr>lb_states := (lb_states lb)(snd p := (lb_states lb (snd p))
      \<lparr>us_active := us_active (lb_states lb (snd p)) + 1,
       us_totalSessions := us_totalSessions (lb_states lb (snd p)) + 1\<rparr>), lb_metrics := ?m\<rparr>)"
    using True by (simp add: take_slot_def IncActive_def below_limit_def Let_def)
  then show ?thesis using True by (intro taken) auto
next
  case False
  then have "take_slot mx p lb = (False, lb)" by (auto simp: take_slot_def IncActive_def below_limit_def)
  then show ?thesis using False by (intro full) auto
qed

section \<open>Properties\<close>


text \<open>Draining an upstream can stop the whole balancer: the strategies do not look at the
  drain flag, so with the least-active strategy a draining upstream that has fewer sessions than
  every other eligible one is chosen and refused on every pick, although others have free slots.\<close>
theorem drain_starves_least_active:
  assumes "pool_inv lb" and "lb_selector lb = LeastActive" and "p \<in> set (lb_pool lb)"
    and "free_slot lb p" and "us_draining (lb_states lb (snd p))"
    and "\<forall>q\<in>set (lb_pool lb). q \<noteq> p \<longrightarrow> us_active (lb_states lb (snd p)) < us_active (lb_states lb (snd q))"
  shows "fst (pick sc lb) = None"
proof -
  let ?snaps = "fst (currentPool lb)" and ?mx = "cf_MaxPerProxy (lb_cfg lb)"
  obtain i g where pk: "LeastActive_Pick sc ?snaps ?mx (lb_rng lb) = (i, g)" by fastforce
  have "snapshot (deref (lb_states lb) p) \<in> set ?snaps" using assms(3) by (simp add: currentPool_def)
  from LeastActive_minimal [OF named_currentPool [OF assms(1)] this, of ?mx sc "lb_rng lb"] assms(4) pk
  obtain q where q: "q \<in> set (lb_pool lb)" "pooled_ID q = i"
      "us_active (lb_states lb (snd q)) \<le> us_active (lb_states lb (snd p))"
    by (auto simp: is_eligible_deref currentPool_def)
  with assms(6) have "q = p" by fastforce
  with q assms(1) have "map_of (lb_byID lb) i = Some p" "i \<noteq> []" by (auto simp: pool_inv_def map_of_keyed)
  then have "choose_upstream sc lb = (Some p, lb\<lparr>lb_rng := g\<rparr>)"
    using pk assms(2) by (auto simp: choose_upstream_def currentPool_def Let_def)
  moreover have "take_slot ?mx p (lb\<lparr>lb_rng := g\<rparr>) = (False, lb\<lparr>lb_rng := g\<rparr>)"
    using assms(5) by (simp add: take_slot_def IncActive_def)
  ultimately show ?thesis by (simp add: pick_def)
qed

text \<open>C4. Replacing the pool succeeds exactly when the IDs, given or derived, are distinct; an error
  changes nothing.  The new pool holds the new upstreams stably sorted by priority; an upstream
  whose ID was in the old pool keeps its state object, hence its active count, health and drain
  flag, and every other one starts with the state it was built with.  No state of the old pool
  changes, and the invariant of the pool holds again.\<close>
theorem setUpstreams_spec:
  assumes "pool_inv lb" and "setUpstreams ups lb = (e, lb')"
  shows "(e = None \<longleftrightarrow> distinct (map (\<lambda>u. up_ID (NormalizeID u)) ups)) \<and> (e \<noteq> None \<longrightarrow> lb' = lb) \<and>
    (e = None \<longrightarrow> pool_inv lb' \<and> map fst (lb_pool lb') = sort_key up_Priority (map NormalizeID ups) \<and>
      (\<forall>r<lb_next lb. lb_states lb' r = lb_states lb r) \<and>
      (\<forall>(u, r)\<in>set (lb_pool lb').
         case map_of (lb_byID lb) (up_ID u) of Some (_, r') \<Rightarrow> r = r' | None \<Rightarrow> lb_next lb \<le> r \<and> lb_states lb' r = up_State u))"
proof (cases e)
  case (Some err)
  with assms(2) setUpstreams_error [of ups lb err lb'] setUpstreams_None [of ups lb] show ?thesis by simp
next
  case None
  note ok = setUpstreams_ok [OF assms(1) assms(2) [unfolded None]]
  have "\<forall>(u, r)\<in>set (lb_pool lb').
      case map_of (lb_byID lb) (up_ID u) of Some (_, r') \<Rightarrow> r = r' | None \<Rightarrow> lb_next lb \<le> r \<and> lb_states lb' r = up_State u"
    using ok(1,6) by (fastforce dest: zip_adopt_refs_old split: option.split)
  with None ok(1,4) setUpstreams_inv [OF assms(1) assms(2) [unfolded None]] setUpstreams_None [of ups lb] assms(2)
  show ?thesis by simp
qed

text \<open>The configuration a reload ends up with, and its gate.\<close>

definition reload_gate_change :: "Config \<Rightarrow> Config \<Rightarrow> bool" where
  "reload_gate_change old new \<longleftrightarrow>
     cf_Backpressure old \<noteq> cf_Backpressure new \<or> cf_AdmissionWaitTimeout old \<noteq> cf_AdmissionWaitTimeout new"

definition reload_cfg :: "Config \<Rightarrow> 'rc LB \<Rightarrow> Config" where
  "reload_cfg c lb =
     (if reload_gate_change (lb_cfg lb) c \<and> tracker_Count (lb_trk lb) \<noteq> 0
      then c\<lparr>cf_Backpressure := cf_Backpressure (lb_cfg lb), cf_AdmissionWaitTimeout := cf_AdmissionWaitTimeout (lb_cfg lb)\<rparr>
      else c)"

definition reload_gate :: "Config \<Rightarrow> 'rc LB \<Rightarrow> GateKind \<times> TokenGate" where
  "reload_gate c lb =
     (if reload_gate_change (lb_cfg lb) c \<and> tracker_Count (lb_trk lb) = 0 then admission_New c True else lb_gate lb)"

lemma setUpstreams_keeps:
  assumes "setUpstreams ups lb = (e, lb')"
  shows "lb_gate lb' = lb_gate lb" "lb_trk lb' = lb_trk lb" "lb_queue lb' = lb_queue lb"
    "lb_waiters lb' = lb_waiters lb" "lb_selector lb' = lb_selector lb" "lb_conns lb' = lb_conns lb"
    "lb_cfg lb' = lb_cfg lb" "lb_dialer lb' = lb_dialer lb"
  using assms by (auto simp: setUpstreams_def Let_def split: option.splits prod.splits)

lemma reload_cases:
  obtains (error) err where "reloadFromConfig env new lb = (Some err, lb)"
    | (applied) c ups d lb1 where "Validate new = (None, c)"
      "BuildUpstreams (keep_immutable (lb_cfg lb) c) = Inr ups"
      "NewFromConfig env (reload_cfg (keep_immutable (lb_cfg lb) c) lb) = Inr d"
      "setUpstreams ups lb = (None, lb1)"
      "reloadFromConfig env new lb = (None, lb1\<lparr>lb_cfg := reload_cfg (keep_immutable (lb_cfg lb) c) lb,
         lb_dialer := d, lb_gate := reload_gate (keep_immutable (lb_cfg lb) c) lb\<rparr>)"
proof -
  obtain e c where v: "Validate new = (e, c)" by fastforce
  let ?k = "keep_immutable (lb_cfg lb) c"
  note def = reloadFromConfig_def [of env new lb] v
  show thesis
  proof (cases "e \<noteq> None \<or> cf_Upstreams ?k = [] \<or> isl (BuildUpstreams ?k)")
    case True
    then have "\<exists>err. reloadFromConfig env new lb = (Some err, lb)"
      by (cases e; cases "BuildUpstreams ?k") (auto simp: def Let_def)
    then show ?thesis using error by blast
  next
    case False
    then obtain ups where b: "e = None" "cf_Upstreams ?k \<noteq> []" "BuildUpstreams ?k = Inr ups"
      by (cases "BuildUpstreams ?k") auto
    obtain e1 lb1 where s: "setUpstreams ups lb = (e1, lb1)" by fastforce
    have r: "reloadFromConfig env new lb =
      (case NewFromConfig env (reload_cfg ?k lb) of
         Inl err \<Rightarrow> (Some (Errorf ''transport: %w'' [FErr err]), lb)
       | Inr d \<Rightarrow> (case e1 of Some err \<Rightarrow> (Some (Errorf ''set upstreams: %w'' [FErr err]), lb1)
           | None \<Rightarrow> (None, lb1\<lparr>lb_cfg := reload_cfg ?k lb, lb_dialer := d, lb_gate := reload_gate ?k lb\<rparr>)))"
      using b s setUpstreams_keeps(1) [OF s]
      by (auto simp: def Let_def reload_cfg_def reload_gate_def reload_gate_change_def split: sum.split option.split)
    show ?thesis
    proof (cases "NewFromConfig env (reload_cfg ?k lb)")
      case (Inl err)
      with r show ?thesis by (intro error) simp
    next
      case (Inr d)
      show ?thesis
      proof (cases e1)
        case (Some err)
        with s setUpstreams_error [of ups lb err lb1] r Inr show ?thesis by (intro error) simp
      next
        case None
        show ?thesis by (rule applied [OF v [unfolded b(1)] b(3) Inr s [unfolded None]]) (simp add: r Inr None)
      qed
    qed
  qed
qed


lemma drop_metrics_None:
  "mt_UpActive m k = None \<Longrightarrow> mt_UpActive (fold (drop_metrics idx) es m) k = None"
  by (induction es arbitrary: m) (auto simp: drop_metrics_def mt_Delete_def split: prod.split)

lemma drop_metrics_mem:
  assumes "(i, (old, r)) \<in> set es" and "map_of idx i = None"
  shows "mt_UpActive (fold (drop_metrics idx) es m) (Addr old) = None"
  using assms(1)
proof (induction es arbitrary: m)
  case (Cons e es)
  show ?case
  proof (cases "e = (i, (old, r))")
    case True
    then have "mt_UpActive (drop_metrics idx e m) (Addr old) = None"
      using assms(2) by (simp add: drop_metrics_def mt_Delete_def)
    then show ?thesis using drop_metrics_None by simp
  next
    case False
    with Cons show ?thesis by simp
  qed
qed simp

text \<open>When a reload gives an upstream a new ID but keeps its address, the gauges of the new
  upstream are written first and then deleted as those of the old one: the pool has an upstream
  at that address, and no gauge.\<close>
theorem reload_drops_gauge:
  assumes "pool_inv lb" and "setUpstreams ups lb = (None, lb')" and "(old, r) \<in> set (lb_pool lb)"
    and "up_ID old \<notin> (\<lambda>u. up_ID (NormalizeID u)) ` set ups"
    and "u \<in> set ups" and "Addr (NormalizeID u) = Addr old"
  shows "mt_UpActive (lb_metrics lb') (Addr old) = None \<and> (\<exists>p\<in>set (lb_pool lb'). Addr (fst p) = Addr old)"
proof -
  let ?us = "sort_key up_Priority (map NormalizeID ups)"
  note ok = setUpstreams_ok [OF assms(1,2)]
  obtain m where m: "lb_metrics lb' = fold (drop_metrics (lb_byID lb')) (lb_byID lb) m"
    using assms(2) by (auto simp: setUpstreams_def Let_def split: option.splits prod.splits)
  have fst: "fst ` set (lb_pool lb') = set ?us" using ok(1) by (metis length_adopt_refs map_fst_zip set_map)
  then have "pooled_ID ` set (lb_pool lb') = (\<lambda>u. up_ID (NormalizeID u)) ` set ups"
    by (metis (no_types, lifting) image_cong image_image set_map set_sort)
  then have "map_of (lb_byID lb') (up_ID old) = None"
    using assms(4) ok(1,2) by (simp add: map_of_keyed_None)
  moreover have "(up_ID old, (old, r)) \<in> set (lb_byID lb)"
    using assms(1,3) by (force simp: pool_inv_def keyed_def)
  ultimately have "mt_UpActive (lb_metrics lb') (Addr old) = None" unfolding m by (intro drop_metrics_mem)
  moreover have "NormalizeID u \<in> fst ` set (lb_pool lb')" using fst assms(5) by simp
  ultimately show ?thesis using assms(6) by (metis imageE)
qed

section \<open>Health over time\<close>

definition health_ticks :: "(int \<times> gerror option) list \<Rightarrow> pooled \<Rightarrow> 'rc LB \<Rightarrow> 'rc LB" where
  "health_ticks ticks p lb = fold (\<lambda>(now, err) lb. snd (check_upstream now err p lb)) ticks lb"

lemma check_upstream_ok:
  "lb_cfg (snd (check_upstream now None p lb)) = lb_cfg lb \<and>
   us_lastFailureTS (lb_states (snd (check_upstream now None p lb)) (snd p)) = us_lastFailureTS (lb_states lb (snd p)) \<and>
   (us_healthy (lb_states lb (snd p)) \<or> \<not> backing_off (lb_cfg lb) now (lb_states lb (snd p)) \<longrightarrow>
     us_healthy (lb_states (snd (check_upstream now None p lb)) (snd p)))"
  by (simp add: check_upstream_def backing_off_def lb_markHealthy_def lb_recordSuccess_def MarkHealthy_def
      RecordSuccess_def Let_def)

lemma health_ticks_inv:
  assumes "\<forall>t\<in>set ticks. snd t = None"
    and "us_healthy (lb_states lb (snd p)) \<or>
      (\<exists>(now, err)\<in>set ticks. cf_RetryBackoff (lb_cfg lb) \<le> time_Sub now (us_lastFailureTS (lb_states lb (snd p))))"
  shows "us_healthy (lb_states (health_ticks ticks p lb) (snd p))"
  using assms
proof (induction ticks arbitrary: lb)
  case Nil
  then show ?case by (simp add: health_ticks_def)
next
  case (Cons t ticks)
  obtain now where t: "t = (now, None)" using Cons.prems(1) by (cases t) auto
  let ?lb = "snd (check_upstream now None p lb)"
  have "us_healthy (lb_states ?lb (snd p)) \<or>
      (\<exists>(now, err)\<in>set ticks. cf_RetryBackoff (lb_cfg ?lb) \<le> time_Sub now (us_lastFailureTS (lb_states ?lb (snd p))))"
    using Cons.prems(2) check_upstream_ok [of now p lb] by (auto simp: t backing_off_def)
  then have "us_healthy (lb_states (health_ticks ticks p ?lb) (snd p))"
    using Cons.prems(1) by (intro Cons.IH) auto
  then show ?case by (simp add: health_ticks_def t)
qed

text \<open>C31. An unhealthy upstream recovers: if it answers its probes, it is healthy after the first
  check that falls at least the retry backoff after its last failure, and stays so; until then
  it is not probed.\<close>
theorem health_recovers:
  assumes "\<forall>t\<in>set ticks. snd t = None"
    and "(now, None) \<in> set ticks" and "cf_RetryBackoff (lb_cfg lb) \<le> time_Sub now (us_lastFailureTS (lb_states lb (snd p)))"
  shows "us_healthy (lb_states (health_ticks ticks p lb) (snd p)) \<and>
    (\<forall>now' err. backing_off (lb_cfg lb) now' (lb_states lb (snd p)) \<longrightarrow> check_upstream now' err p lb = (False, lb))"
  using health_ticks_inv [of ticks lb p] assms by (auto simp: check_upstream_def)

section \<open>Witnesses\<close>

definition ex_up :: "string \<Rightarrow> string \<Rightarrow> Upstream" where
  "ex_up i host = \<lparr>up_ID = i, up_Host = host, up_Port = 1080, up_Username = [], up_Password = [], up_Weight = 1,
     up_Priority = 0, up_State = NewState\<rparr>"

definition ex_lb :: "unit LB" where
  "ex_lb = \<lparr>lb_cfg = ex_config, lb_configPath = [], lb_dialer = DirectDialer \<lparr>td_Timeout = 1, td_KeepAlive = 1\<rparr>,
     lb_selector = LeastActive, lb_rng = (\<lambda>_. 0), lb_pool = [(ex_up ''a'' ''h1'', 0), (ex_up ''b'' ''h2'', 1)],
     lb_byID = [(''a'', (ex_up ''a'' ''h1'', 0)), (''b'', (ex_up ''b'' ''h2'', 1))],
     lb_states = (\<lambda>_. NewState)(0 := NewState\<lparr>us_draining := True\<rparr>, 1 := NewState\<lparr>us_active := 1\<rparr>), lb_next = 2,
     lb_metrics = no_metrics, lb_queue = [], lb_waiters = [], lb_trk = (NewTracker, \<lambda>_. ex_session),
     lb_gate = admission_New ex_config True, lb_conns = {}\<rparr>"

lemma ex_lb_inv: "pool_inv ex_lb"
  by (simp add: pool_inv_def ex_lb_def ex_up_def keyed_def)

lemma ex_lb_max: "cf_MaxPerProxy (lb_cfg ex_lb) = 100"
  by (simp add: ex_lb_def ex_config_def Defaults_def)


theorem drain_starves_least_active_witness:
  "fst (pick ex_ctx ex_lb) = None \<and> free_slot ex_lb (ex_up ''b'' ''h2'', 1) \<and>
   \<not> us_draining (lb_states ex_lb 1)"
  using drain_starves_least_active [OF ex_lb_inv, of "(ex_up ''a'' ''h1'', 0)" ex_ctx] ex_lb_max
  by (simp add: ex_lb_def free_slot_def NewState_def)

lemma ex_set: "setUpstreams [ex_up ''c'' ''h1'', ex_up ''b'' ''h2''] ex_lb =
    (None, snd (setUpstreams [ex_up ''c'' ''h1'', ex_up ''b'' ''h2''] ex_lb))"
  using setUpstreams_None [of "[ex_up ''c'' ''h1'', ex_up ''b'' ''h2'']" ex_lb]
  by (simp add: prod_eq_iff) (simp add: NormalizeID_def ex_up_def)

definition ex_env :: "unit transport_env" where
  "ex_env = \<lparr>te_url_Parse = no_url,
     te_rest = \<lparr>rl_explicit = \<lambda>_ _. Inr (), rl_in_cluster = Inr (), rl_default = \<lambda>_. Inr ()\<rparr>,
     te_new_client = \<lambda>_. None\<rparr>"

theorem setUpstreams_spec_witness:
  "map fst (lb_pool (snd (setUpstreams [ex_up ''c'' ''h1'', ex_up ''b'' ''h2''] ex_lb))) =
     sort_key up_Priority (map NormalizeID [ex_up ''c'' ''h1'', ex_up ''b'' ''h2''])"
  using setUpstreams_spec [OF ex_lb_inv ex_set] by blast

theorem reload_drops_gauge_witness:
  "mt_UpActive (lb_metrics (snd (setUpstreams [ex_up ''c'' ''h1'', ex_up ''b'' ''h2''] ex_lb))) (Addr (ex_up ''a'' ''h1'')) = None"
  using reload_drops_gauge [OF ex_lb_inv ex_set, of "ex_up ''a'' ''h1''" 0 "ex_up ''c'' ''h1''"]
  by (simp add: NormalizeID_def ex_lb_def ex_up_def Addr_def)


theorem health_recovers_witness:
  "us_healthy (lb_states (health_ticks [(seconds 1, None), (seconds 100, None)] (ex_up ''a'' ''h1'', 0)
     (ex_lb\<lparr>lb_states := \<lambda>_. NewState\<lparr>us_healthy := False, us_lastFailureTS := 0\<rparr>\<rparr>)) 0)"
  using health_recovers [of "[(seconds 1, None), (seconds 100, None)]" "seconds 100"
      "ex_lb\<lparr>lb_states := \<lambda>_. NewState\<lparr>us_healthy := False, us_lastFailureTS := 0\<rparr>\<rparr>" "(ex_up ''a'' ''h1'', 0)"]
  by (simp add: seconds_def time_Sub_def ex_lb_def ex_config_def Defaults_def)

end
