(* ===== verification/Queue.thy ===== *)
theory Queue
  imports Balancer
begin

text \<open>
  Slots, waiters and dispatch under concurrency: \<open>acquireSlot\<close>, \<open>cancelWaiter\<close>, \<open>releaseSlot\<close>
  and \<open>dispatch\<close> of \<^verbatim>\<open>internal/balancer/queue.go\<close>.

  Every goroutine that takes part is a program counter; \<open>q_step\<close> lets any of them do its next
  atomic action: a section under the queue mutex, one operation on an upstream's state, or one
  channel operation.  Taking the snapshot for a strategy and asking it is one action; the slot
  is taken in a later one, when the snapshot may be out of date.  \<open>dispatch\<close> and \<open>releaseSlot\<close>
  call each other: the number in a program counter is how many calls of \<open>dispatch\<close> are to be
  resumed.  Health changes, draining, and the two writes of a reload happen at any time.
\<close>

section \<open>Goroutines\<close>

datatype qpc =
    QStart SelectCtx
  | QInc SelectCtx int pooled
  | QEnqueue SelectCtx
  | QWait nat
  | QCancel nat
  | QHold pooled
  | QRelease pooled nat
  | QDispatch nat
  | QPick nat nat
  | QTake nat int pooled nat
  | QDeliver nat pooled nat
  | QDone

record 'rc QS =
  q_lb :: "'rc LB"
  q_pcs :: "qpc list"

fun resume :: "nat \<Rightarrow> qpc" where
  "resume 0 = QDone"
| "resume (Suc d) = QDispatch d"

definition add_waiter :: "SelectCtx \<Rightarrow> 'rc LB \<Rightarrow> 'rc LB" where
  "add_waiter sc lb =
     lb\<lparr>lb_waiters := lb_waiters lb @ [\<lparr>w_ticket = None, w_sc = sc, w_canceled = False\<rparr>],
        lb_queue := lb_queue lb @ [length (lb_waiters lb)]\<rparr>"

definition set_waiter :: "nat \<Rightarrow> (waiter \<Rightarrow> waiter) \<Rightarrow> 'rc LB \<Rightarrow> 'rc LB" where
  "set_waiter w f lb = lb\<lparr>lb_waiters := (lb_waiters lb)[w := f (lb_waiters lb ! w)]\<rparr>"

text \<open>The section of \<open>cancelWaiter\<close> under the mutex, and the slot it has to give back.\<close>

definition cancel_waiter :: "nat \<Rightarrow> 'rc LB \<Rightarrow> pooled option \<times> 'rc LB" where
  "cancel_waiter w lb =
     (let lb1 = set_waiter w (w_canceled_update (\<lambda>_. True)) lb in
      if w \<in> set (lb_queue lb) then (None, lb1\<lparr>lb_queue := remove1 w (lb_queue lb)\<rparr>)
      else (w_ticket (lb_waiters lb ! w), set_waiter w (w_ticket_update (\<lambda>_. None)) lb1))"

text \<open>
  The second section of \<open>dispatch\<close>: hand the upstream to the waiter if it is still the head and
  not canceled; the flag tells whether it was delivered.
\<close>

definition deliver :: "nat \<Rightarrow> pooled \<Rightarrow> 'rc LB \<Rightarrow> bool \<times> 'rc LB" where
  "deliver w p lb =
     (case lb_queue lb of
        [] \<Rightarrow> (False, lb)
      | h # q \<Rightarrow>
          if h = w \<and> \<not> w_canceled (lb_waiters lb ! w) then
            (if w_ticket (lb_waiters lb ! w) = None
             then (True, set_waiter w (w_ticket_update (\<lambda>_. Some p)) (lb\<lparr>lb_queue := q\<rparr>))
             else (False, lb\<lparr>lb_queue := q\<rparr>))
          else (False, lb))"

inductive q_step :: "int \<Rightarrow> 'rc QS \<Rightarrow> 'rc QS \<Rightarrow> bool" for M where
  q_arrive: "q_step M s (s\<lparr>q_pcs := q_pcs s @ [QStart sc]\<rparr>)"
| q_none: "i < length (q_pcs s) \<Longrightarrow> q_pcs s ! i = QStart sc \<Longrightarrow> choose_upstream sc (q_lb s) = (None, lb) \<Longrightarrow>
    q_step M s (s\<lparr>q_lb := lb, q_pcs := (q_pcs s)[i := QEnqueue sc]\<rparr>)"
| q_some: "i < length (q_pcs s) \<Longrightarrow> q_pcs s ! i = QStart sc \<Longrightarrow> choose_upstream sc (q_lb s) = (Some p, lb) \<Longrightarrow>
    q_step M s (s\<lparr>q_lb := lb, q_pcs := (q_pcs s)[i := QInc sc (cf_MaxPerProxy (lb_cfg (q_lb s))) p]\<rparr>)"
| q_inc: "i < length (q_pcs s) \<Longrightarrow> q_pcs s ! i = QInc sc mx p \<Longrightarrow> take_slot mx p (q_lb s) = (ok, lb) \<Longrightarrow>
    q_step M s (s\<lparr>q_lb := lb, q_pcs := (q_pcs s)[i := if ok then QHold p else QEnqueue sc]\<rparr>)"
| q_enqueue: "i < length (q_pcs s) \<Longrightarrow> q_pcs s ! i = QEnqueue sc \<Longrightarrow>
    q_step M s (s\<lparr>q_lb := add_waiter sc (q_lb s), q_pcs := (q_pcs s)[i := QWait (length (lb_waiters (q_lb s)))]\<rparr>)"
| q_ticket: "i < length (q_pcs s) \<Longrightarrow> q_pcs s ! i = QWait w \<Longrightarrow> w_ticket (lb_waiters (q_lb s) ! w) = Some p \<Longrightarrow>
    q_step M s (s\<lparr>q_lb := set_waiter w (w_ticket_update (\<lambda>_. None)) (q_lb s), q_pcs := (q_pcs s)[i := QHold p]\<rparr>)"
| q_give_up: "i < length (q_pcs s) \<Longrightarrow> q_pcs s ! i = QWait w \<Longrightarrow>
    q_step M s (s\<lparr>q_pcs := (q_pcs s)[i := QCancel w]\<rparr>)"
| q_cancel: "i < length (q_pcs s) \<Longrightarrow> q_pcs s ! i = QCancel w \<Longrightarrow> cancel_waiter w (q_lb s) = (released, lb) \<Longrightarrow>
    q_step M s (s\<lparr>q_lb := lb,
      q_pcs := (q_pcs s)[i := case released of None \<Rightarrow> QDone | Some p \<Rightarrow> QRelease p 0]\<rparr>)"
| q_end: "i < length (q_pcs s) \<Longrightarrow> q_pcs s ! i = QHold p \<Longrightarrow>
    q_step M s (s\<lparr>q_pcs := (q_pcs s)[i := QRelease p 0]\<rparr>)"
| q_release: "i < length (q_pcs s) \<Longrightarrow> q_pcs s ! i = QRelease p d \<Longrightarrow>
    q_step M s (s\<lparr>q_lb := give_slot p (q_lb s), q_pcs := (q_pcs s)[i := QDispatch d]\<rparr>)"
| q_empty: "i < length (q_pcs s) \<Longrightarrow> q_pcs s ! i = QDispatch d \<Longrightarrow> lb_queue (q_lb s) = [] \<Longrightarrow>
    q_step M s (s\<lparr>q_pcs := (q_pcs s)[i := resume d]\<rparr>)"
| q_skip: "i < length (q_pcs s) \<Longrightarrow> q_pcs s ! i = QDispatch d \<Longrightarrow> lb_queue (q_lb s) = w # q \<Longrightarrow>
    w_canceled (lb_waiters (q_lb s) ! w) \<Longrightarrow>
    q_step M s (s\<lparr>q_lb := (q_lb s)\<lparr>lb_queue := q\<rparr>\<rparr>)"
| q_head: "i < length (q_pcs s) \<Longrightarrow> q_pcs s ! i = QDispatch d \<Longrightarrow> lb_queue (q_lb s) = w # q \<Longrightarrow>
    \<not> w_canceled (lb_waiters (q_lb s) ! w) \<Longrightarrow>
    q_step M s (s\<lparr>q_pcs := (q_pcs s)[i := QPick w d]\<rparr>)"
| q_pick_none: "i < length (q_pcs s) \<Longrightarrow> q_pcs s ! i = QPick w d \<Longrightarrow>
    choose_upstream (w_sc (lb_waiters (q_lb s) ! w)) (q_lb s) = (None, lb) \<Longrightarrow>
    q_step M s (s\<lparr>q_lb := lb, q_pcs := (q_pcs s)[i := resume d]\<rparr>)"
| q_pick_some: "i < length (q_pcs s) \<Longrightarrow> q_pcs s ! i = QPick w d \<Longrightarrow>
    choose_upstream (w_sc (lb_waiters (q_lb s) ! w)) (q_lb s) = (Some p, lb) \<Longrightarrow>
    q_step M s (s\<lparr>q_lb := lb, q_pcs := (q_pcs s)[i := QTake w (cf_MaxPerProxy (lb_cfg (q_lb s))) p d]\<rparr>)"
| q_take: "i < length (q_pcs s) \<Longrightarrow> q_pcs s ! i = QTake w mx p d \<Longrightarrow> take_slot mx p (q_lb s) = (ok, lb) \<Longrightarrow>
    q_step M s (s\<lparr>q_lb := lb, q_pcs := (q_pcs s)[i := if ok then QDeliver w p d else resume d]\<rparr>)"
| q_deliver: "i < length (q_pcs s) \<Longrightarrow> q_pcs s ! i = QDeliver w p d \<Longrightarrow> deliver w p (q_lb s) = (ok, lb) \<Longrightarrow>
    q_step M s (s\<lparr>q_lb := lb, q_pcs := (q_pcs s)[i := if ok then QDispatch d else QRelease p (Suc d)]\<rparr>)"
| q_healthy: "p \<in> set (lb_pool (q_lb s)) \<Longrightarrow> lb_markHealthy p (q_lb s) = (True, lb) \<Longrightarrow>
    q_step M s (s\<lparr>q_lb := lb, q_pcs := q_pcs s @ [QDispatch 0]\<rparr>)"
| q_failure: "q_step M s (s\<lparr>q_lb := lb_recordFailure p stage now (q_lb s)\<rparr>)"
| q_success: "q_step M s (s\<lparr>q_lb := lb_recordSuccess p (q_lb s)\<rparr>)"
| q_drain: "q_step M s (s\<lparr>q_lb := snd (lb_DrainUpstream j b (q_lb s))\<rparr>)"
| q_pool: "list_all (\<lambda>u. us_active (up_State u) = 0) ups \<Longrightarrow> setUpstreams ups (q_lb s) = (None, lb) \<Longrightarrow>
    q_step M s (s\<lparr>q_lb := lb\<rparr>)"
| q_config: "cf_MaxPerProxy c \<le> M \<Longrightarrow> q_step M s (s\<lparr>q_lb := (q_lb s)\<lparr>lb_cfg := c\<rparr>\<rparr>)"

section \<open>Invariant\<close>

fun pc_up :: "qpc \<Rightarrow> pooled option" where
  "pc_up (QInc _ _ p) = Some p"
| "pc_up (QHold p) = Some p"
| "pc_up (QRelease p _) = Some p"
| "pc_up (QTake _ _ p _) = Some p"
| "pc_up (QDeliver _ p _) = Some p"
| "pc_up _ = None"

fun pc_limit :: "qpc \<Rightarrow> int option" where
  "pc_limit (QInc _ mx _) = Some mx"
| "pc_limit (QTake _ mx _ _) = Some mx"
| "pc_limit _ = None"

text \<open>Which goroutines own a slot of a state, and which wait as a given waiter.\<close>

fun holds :: "stref \<Rightarrow> qpc \<Rightarrow> bool" where
  "holds r (QHold p) \<longleftrightarrow> snd p = r"
| "holds r (QRelease p _) \<longleftrightarrow> snd p = r"
| "holds r (QDeliver _ p _) \<longleftrightarrow> snd p = r"
| "holds r _ \<longleftrightarrow> False"

fun waits :: "nat \<Rightarrow> qpc \<Rightarrow> bool" where
  "waits w (QWait v) \<longleftrightarrow> v = w"
| "waits w (QCancel v) \<longleftrightarrow> v = w"
| "waits w _ \<longleftrightarrow> False"

definition ticket_for :: "stref \<Rightarrow> waiter \<Rightarrow> bool" where
  "ticket_for r w \<longleftrightarrow> (case w_ticket w of None \<Rightarrow> False | Some p \<Rightarrow> snd p = r)"

definition slots_inv :: "int \<Rightarrow> 'rc QS \<Rightarrow> bool" where
  "slots_inv M s \<longleftrightarrow> cf_MaxPerProxy (lb_cfg (q_lb s)) \<le> M \<and>
     list_all (\<lambda>pc. pred_option (\<lambda>mx. mx \<le> M) (pc_limit pc)) (q_pcs s) \<and>
     (\<forall>r. us_active (lb_states (q_lb s) r) = cnt (holds r) (q_pcs s) + cnt (ticket_for r) (lb_waiters (q_lb s))) \<and>
     (\<forall>r. cnt (holds r) (q_pcs s) + cnt (ticket_for r) (lb_waiters (q_lb s)) \<le> M)"

definition known :: "stref \<Rightarrow> pooled option \<Rightarrow> bool" where
  "known n = pred_option (\<lambda>p. snd p < n)"

definition refs_inv :: "'rc QS \<Rightarrow> bool" where
  "refs_inv s \<longleftrightarrow> pool_inv (q_lb s) \<and>
     list_all (\<lambda>pc. known (lb_next (q_lb s)) (pc_up pc)) (q_pcs s) \<and>
     list_all (\<lambda>w. known (lb_next (q_lb s)) (w_ticket w)) (lb_waiters (q_lb s))"

definition waiters_inv :: "'rc QS \<Rightarrow> bool" where
  "waiters_inv s \<longleftrightarrow> sorted_wrt (<) (lb_queue (q_lb s)) \<and>
     (\<forall>w\<in>set (lb_queue (q_lb s)). w < length (lb_waiters (q_lb s)) \<and>
        w_ticket (lb_waiters (q_lb s) ! w) = None \<and> \<not> w_canceled (lb_waiters (q_lb s) ! w)) \<and>
     (\<forall>w. cnt (waits w) (q_pcs s) \<le> 1) \<and> (\<forall>w. 0 < cnt (waits w) (q_pcs s) \<longrightarrow> w < length (lb_waiters (q_lb s))) \<and>
     (\<forall>w\<in>set (lb_queue (q_lb s)). cnt (waits w) (q_pcs s) = 1) \<and>
     (\<forall>w<length (lb_waiters (q_lb s)). w_ticket (lb_waiters (q_lb s) ! w) \<noteq> None \<longrightarrow> cnt (waits w) (q_pcs s) = 1)"

text \<open>What the operations keep.\<close>

lemma choose_same:
  assumes "pool_inv lb" and "choose_upstream sc lb = (res, lb')"
  shows "\<exists>sel g. lb' = lb\<lparr>lb_selector := sel, lb_rng := g\<rparr>" and "res = Some p \<Longrightarrow> p \<in> set (lb_pool lb)"
  using assms(2) by (cases rule: choose_upstream_cases [OF assms(1), of sc]; auto)+

lemma active_kept [simp]:
  "us_active (lb_states (lb_recordFailure p stage now lb) r) = us_active (lb_states lb r)"
  "us_active (lb_states (lb_recordSuccess p lb) r) = us_active (lb_states lb r)"
  "us_active (lb_states (snd (lb_DrainUpstream j b lb)) r) = us_active (lb_states lb r)"
  "us_active (lb_states (snd (lb_markHealthy p lb)) r) = us_active (lb_states lb r)"
  by (auto simp: lb_recordFailure_def lb_recordSuccess_def lb_DrainUpstream_def lb_markHealthy_def Let_def
      RecordFailure_def RecordSuccess_def SetDrain_def MarkHealthy_def split: option.splits prod.splits bool.splits)

lemma rest_kept:
  "\<exists>st m. lb_recordFailure p stage now lb = lb\<lparr>lb_states := st, lb_metrics := m\<rparr>"
  "\<exists>st m. lb_recordSuccess p lb = lb\<lparr>lb_states := st, lb_metrics := m\<rparr>"
  "\<exists>st m. snd (lb_DrainUpstream j b lb) = lb\<lparr>lb_states := st, lb_metrics := m\<rparr>"
  "\<exists>st m. snd (lb_markHealthy p lb) = lb\<lparr>lb_states := st, lb_metrics := m\<rparr>"
  "\<exists>st m. snd (take_slot mx p lb) = lb\<lparr>lb_states := st, lb_metrics := m\<rparr>"
  "\<exists>st m. give_slot p lb = lb\<lparr>lb_states := st, lb_metrics := m\<rparr>"
proof -
  have id: "lb = lb\<lparr>lb_states := lb_states lb, lb_metrics := lb_metrics lb\<rparr>"
    "lb\<lparr>lb_states := st\<rparr> = lb\<lparr>lb_states := st, lb_metrics := lb_metrics lb\<rparr>" for st
    by simp_all
  show "\<exists>st m. lb_recordFailure p stage now lb = lb\<lparr>lb_states := st, lb_metrics := m\<rparr>"
    and "\<exists>st m. give_slot p lb = lb\<lparr>lb_states := st, lb_metrics := m\<rparr>"
    by (auto simp: lb_recordFailure_def give_slot_def Let_def split: prod.splits)
  show "\<exists>st m. lb_recordSuccess p lb = lb\<lparr>lb_states := st, lb_metrics := m\<rparr>"
    and "\<exists>st m. snd (lb_DrainUpstream j b lb) = lb\<lparr>lb_states := st, lb_metrics := m\<rparr>"
    and "\<exists>st m. snd (lb_markHealthy p lb) = lb\<lparr>lb_states := st, lb_metrics := m\<rparr>"
    and "\<exists>st m. snd (take_slot mx p lb) = lb\<lparr>lb_states := st, lb_metrics := m\<rparr>"
    by (auto simp: lb_recordSuccess_def lb_DrainUpstream_def lb_markHealthy_def take_slot_def Let_def
        split: option.splits prod.splits bool.splits intro: id)
qed

lemma waiters_kept [simp]:
  "lb_waiters (lb_recordFailure p stage now lb) = lb_waiters lb" "lb_queue (lb_recordFailure p stage now lb) = lb_queue lb"
  "lb_waiters (lb_recordSuccess p lb) = lb_waiters lb" "lb_queue (lb_recordSuccess p lb) = lb_queue lb"
  "lb_waiters (snd (lb_DrainUpstream j b lb)) = lb_waiters lb" "lb_queue (snd (lb_DrainUpstream j b lb)) = lb_queue lb"
  "lb_waiters (give_slot p lb) = lb_waiters lb" "lb_queue (give_slot p lb) = lb_queue lb"
  using rest_kept(1) [of p stage now lb] rest_kept(2) [of p lb] rest_kept(3) [of j b lb] rest_kept(6) [of p lb]
  by auto

lemma list_all_update: "list_all P xs \<Longrightarrow> P y \<Longrightarrow> list_all P (xs[i := y])"
  using set_update_subset_insert [of xs i y] by (auto simp: list_all_iff)

lemma known_simps [simp]: "known n None" "known n (Some p) \<longleftrightarrow> snd p < n"
  by (simp_all add: known_def)

lemma known_mono: "list_all (\<lambda>x. known n (f x)) xs \<Longrightarrow> n \<le> n' \<Longrightarrow> list_all (\<lambda>x. known n' (f x)) xs"
  by (auto simp: list_all_iff known_def pred_option_def)

lemma pc_resume [simp]: "pc_up (resume d) = None" "pc_limit (resume d) = None" "\<not> holds r (resume d)" "\<not> waits w (resume d)"
  by (cases d; simp)+

lemma set_waiter_simps [simp]:
  "lb_states (set_waiter w f lb) = lb_states lb" "lb_next (set_waiter w f lb) = lb_next lb"
  "lb_queue (set_waiter w f lb) = lb_queue lb" "pool_inv (set_waiter w f lb) = pool_inv lb"
  "lb_waiters (set_waiter w f lb) = (lb_waiters lb)[w := f (lb_waiters lb ! w)]" "lb_cfg (set_waiter w f lb) = lb_cfg lb"
  by (simp_all add: set_waiter_def)

lemma refs_invD:
  assumes "refs_inv s"
  shows "pool_inv (q_lb s)" "p \<in> set (lb_pool (q_lb s)) \<Longrightarrow> snd p < lb_next (q_lb s)"
    "i < length (q_pcs s) \<Longrightarrow> known (lb_next (q_lb s)) (pc_up (q_pcs s ! i))"
    "w < length (lb_waiters (q_lb s)) \<Longrightarrow> known (lb_next (q_lb s)) (w_ticket (lb_waiters (q_lb s) ! w))"
  using assms by (auto simp: refs_inv_def list_all_length pool_inv_def)

lemma refs_step:
  assumes "q_step M s t" and "refs_inv s" and "waiters_inv s"
  shows "refs_inv t"
  using assms(1)
proof cases
  case (q_none i sc lb)
  from choose_same(1) [OF refs_invD(1) [OF assms(2)] q_none(4)] assms(2) q_none(2) show ?thesis
    unfolding q_none(1) by (auto simp: refs_inv_def list_all_update)
next
  case (q_some i sc p lb)
  from choose_same(1) [OF refs_invD(1) [OF assms(2)] q_some(4)]
    refs_invD(2) [OF assms(2) choose_same(2) [OF refs_invD(1) [OF assms(2)] q_some(4) refl]] assms(2) q_some(2) show ?thesis
    unfolding q_some(1) by (auto simp: refs_inv_def list_all_update)
next
  case (q_inc i sc mx p ok lb)
  with refs_invD(3) [OF assms(2) q_inc(2)] assms(2) rest_kept(5) [of mx p "q_lb s"] show ?thesis
    unfolding q_inc(1) by (auto simp: refs_inv_def list_all_update)
next
  case (q_take i w mx p d ok lb)
  with refs_invD(3) [OF assms(2) q_take(2)] assms(2) rest_kept(5) [of mx p "q_lb s"] show ?thesis
    unfolding q_take(1) by (auto simp: refs_inv_def list_all_update)
next
  case (q_pick_none i w d lb)
  from choose_same(1) [OF refs_invD(1) [OF assms(2)] q_pick_none(4)] assms(2) q_pick_none(2) show ?thesis
    unfolding q_pick_none(1) by (auto simp: refs_inv_def list_all_update)
next
  case (q_pick_some i w d p lb)
  from choose_same(1) [OF refs_invD(1) [OF assms(2)] q_pick_some(4)]
    refs_invD(2) [OF assms(2) choose_same(2) [OF refs_invD(1) [OF assms(2)] q_pick_some(4) refl]] assms(2) q_pick_some(2)
  show ?thesis
    unfolding q_pick_some(1) by (auto simp: refs_inv_def list_all_update)
next
  case (q_ticket i w p)
  with assms(3) cnt_pos [of i "q_pcs s" "waits w"] refs_invD(4) [OF assms(2), of w] assms(2) show ?thesis
    unfolding q_ticket(1) by (auto simp: refs_inv_def waiters_inv_def list_all_update)
next
  case (q_cancel i w released lb)
  with assms(3) cnt_pos [of i "q_pcs s" "waits w"] refs_invD(4) [OF assms(2), of w] assms(2) show ?thesis
    unfolding q_cancel(1)
    by (auto simp: refs_inv_def waiters_inv_def list_all_update cancel_waiter_def Let_def
        split: if_splits option.split)
next
  case (q_deliver i w p d ok lb)
  with refs_invD(3) [OF assms(2) q_deliver(2)] assms(2) show ?thesis
    unfolding q_deliver(1)
    by (auto simp: refs_inv_def list_all_update deliver_def split: if_splits list.splits)
next
  case (q_healthy p lb)
  with rest_kept(4) [of p "q_lb s"] assms(2) show ?thesis by (auto simp: refs_inv_def)
next
  case (q_pool ups lb)
  with assms(2) setUpstreams_inv [OF refs_invD(1) [OF assms(2)] q_pool(3)] setUpstreams_ok(3) [OF refs_invD(1) [OF assms(2)] q_pool(3)]
    setUpstreams_keeps [of ups "q_lb s" None lb]
  show ?thesis by (auto simp: refs_inv_def intro: known_mono)
next
  case (q_failure p stage now)
  with rest_kept(1) [of p stage now "q_lb s"] assms(2) show ?thesis by (auto simp: refs_inv_def)
next
  case (q_success p)
  with rest_kept(2) [of p "q_lb s"] assms(2) show ?thesis by (auto simp: refs_inv_def)
next
  case (q_drain j b)
  with rest_kept(3) [of j b "q_lb s"] assms(2) show ?thesis by (auto simp: refs_inv_def)
next
  case (q_release i p d)
  with rest_kept(6) [of p "q_lb s"] assms(2) show ?thesis by (auto simp: refs_inv_def list_all_update)
next
  case (q_end i p)
  with refs_invD(3) [OF assms(2) q_end(2)] assms(2) show ?thesis by (auto simp: refs_inv_def list_all_update)
qed (use assms(2) in \<open>auto simp: refs_inv_def list_all_update add_waiter_def\<close>)

lemma cnt_zero: "(\<And>x. x \<in> set xs \<Longrightarrow> \<not> P x) \<Longrightarrow> cnt P xs = 0"
  by (induction xs) auto

lemma holds_up: "holds r pc \<Longrightarrow> known n (pc_up pc) \<Longrightarrow> r < n"
  by (cases pc) auto

text \<open>No goroutine and no ticket has a slot of a state that is not allocated yet.\<close>

lemma fresh_unheld:
  assumes "refs_inv s" and "lb_next (q_lb s) \<le> r"
  shows "cnt (holds r) (q_pcs s) = 0" "cnt (ticket_for r) (lb_waiters (q_lb s)) = 0"
  using assms
  by (auto intro!: cnt_zero simp: refs_inv_def list_all_iff ticket_for_def known_def dest: holds_up split: option.splits)
     (use holds_up known_def in fastforce)+

lemma ticket_for_simps [simp]:
  "ticket_for r \<lparr>w_ticket = None, w_sc = sc, w_canceled = c\<rparr> = False"
  "ticket_for r (w\<lparr>w_ticket := None\<rparr>) = False" "ticket_for r (w\<lparr>w_ticket := Some p\<rparr>) \<longleftrightarrow> snd p = r"
  "ticket_for r (w\<lparr>w_canceled := c\<rparr>) = ticket_for r w"
  "w_ticket w = None \<Longrightarrow> \<not> ticket_for r w" "w_ticket w = Some p \<Longrightarrow> ticket_for r w \<longleftrightarrow> snd p = r"
  by (simp_all add: ticket_for_def)

lemma slots_invD:
  assumes "slots_inv M s"
  shows "cf_MaxPerProxy (lb_cfg (q_lb s)) \<le> M"
    "us_active (lb_states (q_lb s) r) = cnt (holds r) (q_pcs s) + cnt (ticket_for r) (lb_waiters (q_lb s))"
    "cnt (holds r) (q_pcs s) + cnt (ticket_for r) (lb_waiters (q_lb s)) \<le> M" "i < length (q_pcs s) \<Longrightarrow> pred_option (\<lambda>mx. mx \<le> M) (pc_limit (q_pcs s ! i))"
  using assms unfolding slots_inv_def list_all_length by blast+

text \<open>Taking and giving back a slot, for the goroutine that does it.\<close>

lemma slots_inv_take:
  assumes "slots_inv M s" and "i < length (q_pcs s)" and "pc_limit (q_pcs s ! i) = Some mx"
    and "\<And>r. \<not> holds r (q_pcs s ! i)" and "take_slot mx p (q_lb s) = (ok, lb)"
    and "\<And>r. holds r pc \<longleftrightarrow> ok \<and> snd p = r" and "pc_limit pc = None"
  shows "slots_inv M (s\<lparr>q_lb := lb, q_pcs := (q_pcs s)[i := pc]\<rparr>)"
proof (cases rule: take_slot_cases [of mx p "q_lb s"])
  case full
  with assms show ?thesis by (auto simp: slots_inv_def cnt_update list_all_update)
next
  case (taken m)
  moreover have "mx \<le> M" using slots_invD(4) [OF assms(1,2)] assms(3) by simp
  ultimately show ?thesis
    using assms by (auto simp: slots_inv_def cnt_update list_all_update below_limit_def)
qed

lemma slots_inv_give:
  assumes "slots_inv M s" and "i < length (q_pcs s)" and "q_pcs s ! i = QRelease p d"
  shows "slots_inv M (s\<lparr>q_lb := give_slot p (q_lb s), q_pcs := (q_pcs s)[i := QDispatch d]\<rparr>)"
proof -
  have "0 < us_active (lb_states (q_lb s) (snd p))"
    using slots_invD(2) [OF assms(1)] cnt_pos [OF assms(2), of "holds (snd p)"] assms(3) cnt_nonneg
    by (smt (verit, best) holds.simps(2))
  then show ?thesis
    using assms by (auto simp: slots_inv_def cnt_update list_all_update give_slot_def Let_def DecActive_def
        intro: order_trans [of _ "us_active (lb_states (q_lb s) (snd p))"])
qed

text \<open>A goroutine moves on and no count of sessions changes.\<close>

lemma slots_inv_move:
  assumes "slots_inv M s" and "i < length (q_pcs s)" and "\<And>r. us_active (lb_states lb r) = us_active (lb_states (q_lb s) r)"
    and "lb_cfg lb = lb_cfg (q_lb s)" and "pred_option (\<lambda>mx. mx \<le> M) (pc_limit pc)"
    and "\<And>r. of_bool (holds r pc) + cnt (ticket_for r) (lb_waiters lb) =
      of_bool (holds r (q_pcs s ! i)) + cnt (ticket_for r) (lb_waiters (q_lb s))"
  shows "slots_inv M (s\<lparr>q_lb := lb, q_pcs := (q_pcs s)[i := pc]\<rparr>)"
proof -
  have "cnt (holds r) ((q_pcs s)[i := pc]) + cnt (ticket_for r) (lb_waiters lb) =
      cnt (holds r) (q_pcs s) + cnt (ticket_for r) (lb_waiters (q_lb s))" for r
    using assms(2) assms(6) [of r] by (simp add: cnt_update)
  with assms show ?thesis by (simp add: slots_inv_def list_all_update)
qed

lemma waiting_known:
  assumes "waiters_inv s" and "i < length (q_pcs s)" and "waits w (q_pcs s ! i)"
  shows "w < length (lb_waiters (q_lb s))"
  using assms cnt_pos [OF assms(2), of "waits w"] by (simp add: waiters_inv_def)

lemma slots_step:
  assumes "q_step M s t" and "slots_inv M s" and "refs_inv s" and "waiters_inv s"
  shows "slots_inv M t"
  using assms(1)
proof cases
  case (q_none i sc lb)
  from choose_same(1) [OF refs_invD(1) [OF assms(3)] q_none(4)] assms(2) q_none(2,3) show ?thesis
    unfolding q_none(1) by (intro slots_inv_move) auto
next
  case (q_some i sc p lb)
  from choose_same(1) [OF refs_invD(1) [OF assms(3)] q_some(4)] assms(2) q_some(2,3) slots_invD(1) [OF assms(2)] show ?thesis
    unfolding q_some(1) by (intro slots_inv_move) auto
next
  case (q_pick_none i w d lb)
  from choose_same(1) [OF refs_invD(1) [OF assms(3)] q_pick_none(4)] assms(2) q_pick_none(2,3) show ?thesis
    unfolding q_pick_none(1) by (intro slots_inv_move) auto
next
  case (q_pick_some i w d p lb)
  from choose_same(1) [OF refs_invD(1) [OF assms(3)] q_pick_some(4)] assms(2) q_pick_some(2,3) slots_invD(1) [OF assms(2)]
  show ?thesis
    unfolding q_pick_some(1) by (intro slots_inv_move) auto
next
  case (q_inc i sc mx p ok lb)
  with assms(2) show ?thesis unfolding q_inc(1) by (intro slots_inv_take) auto
next
  case (q_take i w mx p d ok lb)
  with assms(2) show ?thesis unfolding q_take(1) by (intro slots_inv_take) auto
next
  case (q_release i p d)
  with assms(2) show ?thesis unfolding q_release(1) by (intro slots_inv_give)
next
  case (q_enqueue i sc)
  with assms(2) show ?thesis unfolding q_enqueue(1) by (intro slots_inv_move) (auto simp: add_waiter_def)
next
  case (q_ticket i w p)
  with assms(2) waiting_known [OF assms(4) q_ticket(2), of w] show ?thesis
    unfolding q_ticket(1) by (intro slots_inv_move) (auto simp: cnt_update)
next
  case (q_cancel i w released lb)
  with assms(2) waiting_known [OF assms(4) q_cancel(2), of w] show ?thesis
    unfolding q_cancel(1) by (intro slots_inv_move) (auto simp: cnt_update cancel_waiter_def Let_def split: if_splits option.split)
next
  case (q_deliver i w p d ok lb)
  with assms(2,4) show ?thesis
    unfolding q_deliver(1)
    by (intro slots_inv_move) (auto simp: cnt_update deliver_def waiters_inv_def split: if_splits list.splits)
next
  case (q_healthy p lb)
  with rest_kept(4) [of p "q_lb s"] active_kept(4) [of p "q_lb s"] assms(2) show ?thesis by (auto simp: slots_inv_def)
next
  case (q_failure p stage now)
  with rest_kept(1) [of p stage now "q_lb s"] active_kept(1) [of p stage now "q_lb s"] assms(2) show ?thesis
    by (auto simp: slots_inv_def)
next
  case (q_success p)
  with rest_kept(2) [of p "q_lb s"] active_kept(2) [of p "q_lb s"] assms(2) show ?thesis by (auto simp: slots_inv_def)
next
  case (q_drain j b)
  with rest_kept(3) [of j b "q_lb s"] active_kept(3) [of j b "q_lb s"] assms(2) show ?thesis by (auto simp: slots_inv_def)
next
  case (q_pool ups lb)
  note keeps = setUpstreams_keeps [OF q_pool(3)]
  have "us_active (lb_states lb r) = us_active (lb_states (q_lb s) r)" for r
    using setUpstreams_states [OF q_pool(3), of r] q_pool(2) fresh_unheld [OF assms(3), of r] slots_invD(2) [OF assms(2), of r]
    by (auto simp: list_all_iff)
  with assms(2) keeps show ?thesis unfolding q_pool(1) by (simp add: slots_inv_def)
qed (use assms(2) in \<open>auto simp: slots_inv_def list_all_update cnt_update\<close>)

lemma waiters_inv_same:
  assumes "waiters_inv s" and "lb_queue lb = lb_queue (q_lb s)" and "lb_waiters lb = lb_waiters (q_lb s)"
    and "\<And>w. cnt (waits w) pcs = cnt (waits w) (q_pcs s)"
  shows "waiters_inv (s\<lparr>q_lb := lb, q_pcs := pcs\<rparr>)"
  using assms by (simp add: waiters_inv_def)

lemma waiters_inv_enqueue:
  assumes "waiters_inv s" and "i < length (q_pcs s)" and "q_pcs s ! i = QEnqueue sc"
  shows "waiters_inv (s\<lparr>q_lb := add_waiter sc (q_lb s), q_pcs := (q_pcs s)[i := QWait (length (lb_waiters (q_lb s)))]\<rparr>)"
proof -
  have "cnt (waits (length (lb_waiters (q_lb s)))) (q_pcs s) = 0"
    using assms(1) cnt_nonneg [of "waits (length (lb_waiters (q_lb s)))" "q_pcs s"]
    unfolding waiters_inv_def by (metis less_irrefl order_le_less)
  with assms show ?thesis
    by (auto simp: waiters_inv_def add_waiter_def cnt_update sorted_wrt_append nth_append less_Suc_eq)
qed

text \<open>The goroutine that waits as \<open>w\<close> stops waiting; \<open>w\<close> leaves the queue and has no ticket.\<close>

lemma waiters_inv_leave:
  assumes "waiters_inv s" and "i < length (q_pcs s)" and "waits w (q_pcs s ! i)" and "\<And>v. \<not> waits v pc"
    and "\<And>v. waits v (q_pcs s ! i) \<Longrightarrow> v = w"
    and "lb_waiters lb = (lb_waiters (q_lb s))[w := x]" and "w_ticket x = None"
    and "lb_queue lb = remove1 w (lb_queue (q_lb s))"
  shows "waiters_inv (s\<lparr>q_lb := lb, q_pcs := (q_pcs s)[i := pc]\<rparr>)"
proof -
  have d: "distinct (lb_queue (q_lb s))"
    using assms(1) by (auto simp: waiters_inv_def strict_sorted_iff)
  have "cnt (waits w) (q_pcs s) \<le> 1" using assms(1) unfolding waiters_inv_def by blast
  moreover have "0 < cnt (waits w) (q_pcs s)" using assms(2,3) by (rule cnt_pos)
  ultimately have 1: "cnt (waits w) (q_pcs s) = 1" by linarith
  have c: "cnt (waits v) ((q_pcs s)[i := pc]) = (if v = w then 0 else cnt (waits v) (q_pcs s))" for v
  proof -
    have "waits v (q_pcs s ! i) \<longleftrightarrow> v = w" using assms(3,5) by blast
    with 1 assms(4) show ?thesis by (simp add: cnt_update [OF assms(2)])
  qed
  have "sorted_wrt (<) (remove1 w (lb_queue (q_lb s)))"
    using assms(1) by (auto simp: waiters_inv_def strict_sorted_iff sorted_remove1)
  with d assms(1,6-8) show ?thesis
    unfolding waiters_inv_def by (simp add: c nth_list_update)
qed

lemma waiters_step:
  assumes "q_step M s t" and "waiters_inv s" and "refs_inv s"
  shows "waiters_inv t"
  using assms(1)
proof cases
  case (q_none i sc lb)
  from choose_same(1) [OF refs_invD(1) [OF assms(3)] q_none(4)] assms(2) q_none(2,3) show ?thesis
    unfolding q_none(1) by (intro waiters_inv_same) (auto simp: cnt_update)
next
  case (q_some i sc p lb)
  from choose_same(1) [OF refs_invD(1) [OF assms(3)] q_some(4)] assms(2) q_some(2,3) show ?thesis
    unfolding q_some(1) by (intro waiters_inv_same) (auto simp: cnt_update)
next
  case (q_pick_none i w d lb)
  from choose_same(1) [OF refs_invD(1) [OF assms(3)] q_pick_none(4)] assms(2) q_pick_none(2,3) show ?thesis
    unfolding q_pick_none(1) by (intro waiters_inv_same) (auto simp: cnt_update)
next
  case (q_pick_some i w d p lb)
  from choose_same(1) [OF refs_invD(1) [OF assms(3)] q_pick_some(4)] assms(2) q_pick_some(2,3) show ?thesis
    unfolding q_pick_some(1) by (intro waiters_inv_same) (auto simp: cnt_update)
next
  case (q_inc i sc mx p ok lb)
  with rest_kept(5) [of mx p "q_lb s"] assms(2) show ?thesis
    unfolding q_inc(1) by (intro waiters_inv_same) (auto simp: cnt_update)
next
  case (q_take i w mx p d ok lb)
  with rest_kept(5) [of mx p "q_lb s"] assms(2) show ?thesis
    unfolding q_take(1) by (intro waiters_inv_same) (auto simp: cnt_update)
next
  case (q_enqueue i sc)
  with assms(2) show ?thesis unfolding q_enqueue(1) by (intro waiters_inv_enqueue)
next
  case (q_ticket i w p)
  moreover from this assms(2) waiting_known [OF assms(2) q_ticket(2), of w] have "w \<notin> set (lb_queue (q_lb s))"
    by (auto simp: waiters_inv_def)
  ultimately show ?thesis
    using assms(2) unfolding q_ticket(1) by (intro waiters_inv_leave) (auto simp: remove1_idem)
next
  case (q_cancel i w released lb)
  let ?x = "lb_waiters lb ! w"
  have "lb_waiters lb = (lb_waiters (q_lb s))[w := ?x] \<and> w_ticket ?x = None \<and> lb_queue lb = remove1 w (lb_queue (q_lb s))"
    using q_cancel(4) waiting_known [OF assms(2) q_cancel(2), of w] q_cancel(3) assms(2)
    by (auto simp: cancel_waiter_def Let_def remove1_idem waiters_inv_def split: if_splits)
  with q_cancel(2,3) assms(2) show ?thesis
    unfolding q_cancel(1) by (intro waiters_inv_leave [where x = ?x]) (auto split: option.split)
next
  case (q_skip i d w q)
  with assms(2) show ?thesis by (auto simp: waiters_inv_def)
next
  case (q_deliver i w p d ok lb)
  have c: "cnt (waits v) (q_pcs t) = cnt (waits v) (q_pcs s)" for v
    using q_deliver(1-3) by (simp add: cnt_update)
  from q_deliver(1,4) assms(2) show ?thesis
    unfolding waiters_inv_def c by (auto simp: deliver_def nth_list_update split: list.splits if_splits)
next
  case (q_healthy p lb)
  with rest_kept(4) [of p "q_lb s"] assms(2) show ?thesis by (auto simp: waiters_inv_def)
next
  case (q_pool ups lb)
  with setUpstreams_keeps [OF q_pool(3)] assms(2) show ?thesis by (simp add: waiters_inv_def)
qed (use assms(2) in \<open>simp_all add: waiters_inv_def cnt_update\<close>)

definition q_inv :: "int \<Rightarrow> 'rc QS \<Rightarrow> bool" where
  "q_inv M s \<longleftrightarrow> slots_inv M s \<and> refs_inv s \<and> waiters_inv s"

interpretation queue_sys: safety "q_step M" "q_inv M" for M
  by unfold_locales (auto simp: q_inv_def intro: slots_step refs_step waiters_step)

text \<open>A new balancer, with no goroutine at work.\<close>

lemma q_inv_New:
  assumes "balancer_New cfg path ups sel g h = Inr lb" and "list_all (\<lambda>u. us_active (up_State u) = 0) ups"
    and "cf_MaxPerProxy cfg \<le> M" and "0 \<le> M"
  shows "q_inv M \<lparr>q_lb = lb, q_pcs = []\<rparr>"
proof -
  obtain lb0 :: "'a LB" where lb0: "setUpstreams ups lb0 = (None, lb)" "lb_pool lb0 = []" "lb_byID lb0 = []"
      "lb_states lb0 = (\<lambda>_. NewState)" "lb_queue lb0 = []" "lb_waiters lb0 = []" "lb_cfg lb0 = cfg"
    using assms(1) by (auto simp: balancer_New_def split: prod.splits option.splits)
  then have "pool_inv lb0" by (simp add: pool_inv_def keyed_def)
  moreover have "us_active (lb_states lb r) = 0" for r
    using setUpstreams_states [OF lb0(1), of r] lb0(4) assms(2) by (auto simp: list_all_iff NewState_def)
  ultimately show ?thesis
    using setUpstreams_inv [OF _ lb0(1)] setUpstreams_keeps [OF lb0(1)] lb0 assms(3,4)
    by (simp add: q_inv_def slots_inv_def refs_inv_def waiters_inv_def)
qed

lemma all_done_idle:
  assumes "q_inv M s" and "list_all (\<lambda>pc. pc = QDone) (q_pcs s)"
  shows "us_active (lb_states (q_lb s) r) = 0" and "lb_queue (q_lb s) = []"
proof -
  have pcs: "cnt (holds r) (q_pcs s) = 0" "cnt (waits w) (q_pcs s) = 0" for w r
    using assms(2) by (auto intro!: cnt_zero simp: list_all_iff)
  have "w_ticket w = None" if "w \<in> set (lb_waiters (q_lb s))" for w
    using assms(1) that pcs(2) unfolding q_inv_def waiters_inv_def in_set_conv_nth by (metis zero_neq_one)
  then have "cnt (ticket_for r) (lb_waiters (q_lb s)) = 0" by (intro cnt_zero) simp
  with pcs(1) assms(1) show "us_active (lb_states (q_lb s) r) = 0" by (simp add: q_inv_def slots_inv_def)
  show "lb_queue (q_lb s) = []"
    using assms(1) pcs(2) by (cases "lb_queue (q_lb s)") (auto simp: q_inv_def waiters_inv_def)
qed

section \<open>Properties\<close>

text \<open>C1. No session slot is lost or given twice, in any interleaving of arriving sessions, waiters that time
  out, releases, dispatching, health changes, draining and reloads: the active count of every
  upstream is at any time the number of goroutines that own one of its slots plus the tickets
  delivered but not yet received, it stays between zero and the limit, and when every goroutine is
  done no upstream has an active session and nobody waits.\<close>
theorem slots_conserved:
  assumes "balancer_New cfg path ups sel g h = Inr lb" and "list_all (\<lambda>u. us_active (up_State u) = 0) ups"
    and "cf_MaxPerProxy cfg \<le> M" and "0 \<le> M" and "(q_step M)\<^sup>*\<^sup>* \<lparr>q_lb = lb, q_pcs = []\<rparr> s"
  shows "(\<forall>r. us_active (lb_states (q_lb s) r) = cnt (holds r) (q_pcs s) + cnt (ticket_for r) (lb_waiters (q_lb s)) \<and>
      0 \<le> us_active (lb_states (q_lb s) r) \<and> us_active (lb_states (q_lb s) r) \<le> M) \<and>
    (list_all (\<lambda>pc. pc = QDone) (q_pcs s) \<longrightarrow> lb_queue (q_lb s) = [] \<and> (\<forall>r. us_active (lb_states (q_lb s) r) = 0))"
proof -
  have inv: "q_inv M s" using queue_sys.inv_steps [OF assms(5) q_inv_New [OF assms(1-4)]] .
  have a: "us_active (lb_states (q_lb s) r) = cnt (holds r) (q_pcs s) + cnt (ticket_for r) (lb_waiters (q_lb s))"
    "cnt (holds r) (q_pcs s) + cnt (ticket_for r) (lb_waiters (q_lb s)) \<le> M" for r
    using inv unfolding q_inv_def by (blast dest: slots_invD)+
  moreover have "0 \<le> cnt (holds r) (q_pcs s) + cnt (ticket_for r) (lb_waiters (q_lb s))" for r by simp
  ultimately show ?thesis using all_done_idle [OF inv] by metis
qed

text \<open>C24. Waiters are served in the order in which they joined the queue: in every reachable state, the only
  step that puts an upstream into a waiter's channel is a delivery to the head of the queue, which
  is the waiter that joined first among those that wait, and it takes that waiter off the queue.\<close>
theorem queue_fifo:
  assumes "balancer_New cfg path ups sel g h = Inr lb" and "list_all (\<lambda>u. us_active (up_State u) = 0) ups"
    and "cf_MaxPerProxy cfg \<le> M" and "0 \<le> M" and "(q_step M)\<^sup>*\<^sup>* \<lparr>q_lb = lb, q_pcs = []\<rparr> s" and "q_step M s t"
    and "w < length (lb_waiters (q_lb s))" and "w_ticket (lb_waiters (q_lb s) ! w) = None"
    and "w_ticket (lb_waiters (q_lb t) ! w) = Some p"
  shows "lb_queue (q_lb s) = w # lb_queue (q_lb t) \<and> (\<forall>v\<in>set (lb_queue (q_lb t)). w < v)"
proof -
  have inv: "q_inv M s" using queue_sys.inv_steps [OF assms(5) q_inv_New [OF assms(1-4)]] .
  have pool: "pool_inv (q_lb s)" and srt: "sorted_wrt (<) (lb_queue (q_lb s))"
    using inv by (auto simp: q_inv_def refs_inv_def waiters_inv_def)
  from assms(6) have "lb_queue (q_lb s) = w # lb_queue (q_lb t)"
  proof cases
    case (q_deliver i v p' d ok lb')
    with assms(7-9) show ?thesis
      by (cases "v = w") (auto simp: deliver_def split: list.splits if_splits)
  next
    case (q_ticket i v p')
    with assms(7-9) show ?thesis by (cases "v = w") auto
  next
    case (q_cancel i v released lb')
    with assms(7-9) show ?thesis
      by (cases "v = w") (auto simp: cancel_waiter_def Let_def split: if_splits)
  next
    case (q_enqueue i sc)
    with assms(7-9) show ?thesis by (simp add: add_waiter_def nth_append)
  next
    case (q_pool ups' lb')
    with assms(7-9) setUpstreams_keeps(4) [OF q_pool(3)] show ?thesis by simp
  next
    case (q_inc i sc mx p' ok lb')
    with rest_kept(5) [of mx p' "q_lb s"] assms(8,9) show ?thesis by auto
  next
    case (q_take i v mx p' d ok lb')
    with rest_kept(5) [of mx p' "q_lb s"] assms(8,9) show ?thesis by auto
  next
    case (q_healthy p' lb')
    with rest_kept(4) [of p' "q_lb s"] assms(8,9) show ?thesis by auto
  qed (use assms(8,9) choose_same(1) [OF pool] in fastforce)+
  with srt show ?thesis by simp
qed

end
