(* ===== verification/Dispatch.thy ===== *)
theory Dispatch
  imports Queue
begin

text \<open>
  \<open>dispatch\<close> of \<^verbatim>\<open>internal/balancer/queue.go\<close> as the function one goroutine computes when no other
  runs, that it returns, what it leaves behind, and that the step relation of \<open>Queue\<close> has this
  run; and the wakeup that is lost when others do run.
\<close>

section \<open>The loop\<close>

text \<open>
  \<open>dispatch\<close> calls \<open>releaseSlot\<close>, which calls \<open>dispatch\<close>: that it returns is proved below.
\<close>

partial_function (option) dispatch :: "'rc LB \<Rightarrow> 'rc LB option" where
  "dispatch lb =
     (case lb_queue lb of
        [] \<Rightarrow> Some lb
      | w # q \<Rightarrow>
          if w_canceled (lb_waiters lb ! w) then dispatch (lb\<lparr>lb_queue := q\<rparr>)
          else (case pick (w_sc (lb_waiters lb ! w)) lb of
                  (None, lb1) \<Rightarrow> Some lb1
                | (Some p, lb1) \<Rightarrow>
                    (case deliver w p lb1 of
                       (delivered, lb2) \<Rightarrow>
                         if delivered then dispatch lb2 else Option.bind (dispatch (give_slot p lb2)) dispatch)))"

definition releaseSlot :: "pooled \<Rightarrow> 'rc LB \<Rightarrow> 'rc LB option" where
  "releaseSlot p lb = dispatch (give_slot p lb)"

text \<open>The queue holds waiters that have no ticket and are not canceled.\<close>

definition queue_ok :: "'rc LB \<Rightarrow> bool" where
  "queue_ok lb \<longleftrightarrow> distinct (lb_queue lb) \<and>
     (\<forall>w\<in>set (lb_queue lb). w < length (lb_waiters lb) \<and> w_ticket (lb_waiters lb ! w) = None \<and> \<not> w_canceled (lb_waiters lb ! w))"

lemma queue_ok_inv: "q_inv M s \<Longrightarrow> queue_ok (q_lb s)"
  by (auto simp: q_inv_def waiters_inv_def queue_ok_def strict_sorted_iff)

lemma deliver_head:
  assumes "queue_ok lb" and "lb_queue lb = w # q"
  shows "deliver w p lb = (True, set_waiter w (w_ticket_update (\<lambda>_. Some p)) (lb\<lparr>lb_queue := q\<rparr>))"
    and "queue_ok (snd (deliver w p lb))"
  using assms by (auto simp: queue_ok_def deliver_def nth_list_update)

text \<open>A pick that finds an upstream, or does not, and what it leaves of the queue.\<close>

lemma pick_effect:
  assumes "pool_inv lb" and "pick sc lb = (res, lb')"
  shows "pool_inv lb'" "lb_queue lb' = lb_queue lb" "lb_waiters lb' = lb_waiters lb" "lb_pool lb' = lb_pool lb"
    "us_draining (lb_states lb' r) = us_draining (lb_states lb r)" "lb_cfg lb' = lb_cfg lb"
    "lb_selector lb' = lb_selector (snd (choose_upstream sc lb))"
proof -
  obtain c lb1 where c: "choose_upstream sc lb = (c, lb1)" by fastforce
  from choose_same(1) [OF assms(1) c] obtain sel g where lb1: "lb1 = lb\<lparr>lb_selector := sel, lb_rng := g\<rparr>" by blast
  have "\<exists>st m. lb' = lb1\<lparr>lb_states := st, lb_metrics := m\<rparr> \<and> (\<forall>r. us_draining (st r) = us_draining (lb_states lb r))"
  proof (cases c)
    case None
    with assms(2) c have "lb' = lb1\<lparr>lb_states := lb_states lb, lb_metrics := lb_metrics lb\<rparr>" by (auto simp: pick_def lb1)
    then show ?thesis by blast
  next
    case (Some p)
    with assms(2) c have t: "lb' = snd (take_slot (cf_MaxPerProxy (lb_cfg lb)) p lb1)"
      by (auto simp: pick_def split: prod.splits bool.splits)
    show ?thesis
    proof (cases rule: take_slot_cases [of "cf_MaxPerProxy (lb_cfg lb)" p lb1])
      case full
      with t have "lb' = lb1\<lparr>lb_states := lb_states lb, lb_metrics := lb_metrics lb\<rparr>" by (simp add: lb1)
      then show ?thesis by blast
    next
      case (taken m)
      then have "us_draining (((lb_states lb1)(snd p := (lb_states lb1 (snd p))
            \<lparr>us_active := us_active (lb_states lb1 (snd p)) + 1,
             us_totalSessions := us_totalSessions (lb_states lb1 (snd p)) + 1\<rparr>)) r) = us_draining (lb_states lb r)" for r
        by (simp add: lb1)
      with t taken(1) show ?thesis by (metis snd_conv)
    qed
  qed
  with assms(1) lb1 c show "pool_inv lb'" "lb_queue lb' = lb_queue lb" "lb_waiters lb' = lb_waiters lb"
    "lb_pool lb' = lb_pool lb" "us_draining (lb_states lb' r) = us_draining (lb_states lb r)" "lb_cfg lb' = lb_cfg lb"
    "lb_selector lb' = lb_selector (snd (choose_upstream sc lb))"
    by auto
qed

text \<open>The strategies that choose whenever an upstream has room; round robin does not when its index overflows.\<close>

fun no_index :: "Selector \<Rightarrow> bool" where
  "no_index (RoundRobin _) = False"
| "no_index _ = True"

lemma no_index_ready: "no_index sel \<Longrightarrow> selector_ready pool (sel, g)"
  by (cases sel) auto

lemma no_index_choose: "no_index (lb_selector lb) \<Longrightarrow> no_index (lb_selector (snd (choose_upstream sc lb)))"
  by (cases "lb_selector lb") (auto simp: choose_upstream_def Let_def map_prod_def split: prod.splits)

lemma pick_result:
  assumes "pool_inv lb" and "no_index (lb_selector lb)" and "\<forall>p\<in>set (lb_pool lb). \<not> us_draining (lb_states lb (snd p))"
  shows "fst (pick sc lb) = None \<longleftrightarrow> (\<forall>p\<in>set (lb_pool lb). \<not> free_slot lb p)"
    and "fst (pick sc lb) = None \<Longrightarrow> lb_states (snd (pick sc lb)) = lb_states lb"
proof -
  have "(fst (pick sc lb) = None \<longleftrightarrow> (\<forall>p\<in>set (lb_pool lb). \<not> free_slot lb p)) \<and>
      (fst (pick sc lb) = None \<longrightarrow> lb_states (snd (pick sc lb)) = lb_states lb)"
  proof (cases rule: choose_upstream_cases [OF assms(1), of sc, case_names none some])
    case (none sel g)
    with no_index_ready [OF assms(2)] show ?thesis by (simp add: pick_def)
  next
    case (some p sel g)
    let ?lb = "lb\<lparr>lb_selector := sel, lb_rng := g\<rparr>"
    show ?thesis
    proof (cases rule: take_slot_cases [of "cf_MaxPerProxy (lb_cfg lb)" p ?lb])
      case full
      with some assms(3) show ?thesis by (auto simp: below_limit_def free_slot_def)
    next
      case (taken m)
      with some show ?thesis by (auto simp: pick_def)
    qed
  qed
  then show "fst (pick sc lb) = None \<longleftrightarrow> (\<forall>p\<in>set (lb_pool lb). \<not> free_slot lb p)"
    and "fst (pick sc lb) = None \<Longrightarrow> lb_states (snd (pick sc lb)) = lb_states lb" by blast+
qed

lemma dispatch_simps:
  assumes "queue_ok lb"
  shows "lb_queue lb = [] \<Longrightarrow> dispatch lb = Some lb"
    and "lb_queue lb = w # q \<Longrightarrow> pick (w_sc (lb_waiters lb ! w)) lb = (None, lb1) \<Longrightarrow> dispatch lb = Some lb1"
    and "lb_queue lb = w # q \<Longrightarrow> pool_inv lb \<Longrightarrow> pick (w_sc (lb_waiters lb ! w)) lb = (Some p, lb1) \<Longrightarrow>
      dispatch lb = dispatch (set_waiter w (w_ticket_update (\<lambda>_. Some p)) (lb1\<lparr>lb_queue := q\<rparr>))"
proof -
  show "lb_queue lb = [] \<Longrightarrow> dispatch lb = Some lb" by (subst dispatch.simps) simp
  show "lb_queue lb = w # q \<Longrightarrow> pick (w_sc (lb_waiters lb ! w)) lb = (None, lb1) \<Longrightarrow> dispatch lb = Some lb1"
    using assms by (subst dispatch.simps) (simp add: queue_ok_def)
  assume *: "lb_queue lb = w # q" "pool_inv lb" "pick (w_sc (lb_waiters lb ! w)) lb = (Some p, lb1)"
  have "queue_ok lb1" "lb_queue lb1 = w # q"
    using assms pick_effect(2,3) [OF *(2,3)] *(1) by (simp_all add: queue_ok_def)
  with deliver_head [of lb1 w q p] *(1,3) assms show
    "dispatch lb = dispatch (set_waiter w (w_ticket_update (\<lambda>_. Some p)) (lb1\<lparr>lb_queue := q\<rparr>))"
    by (subst dispatch.simps) (simp add: queue_ok_def)
qed

section \<open>Properties\<close>


lemmas q_then = converse_rtranclp_into_rtranclp [where r = "q_step M" for M]

lemma pick_run:
  assumes "pool_inv (q_lb s)" and "i < length (q_pcs s)" and "q_pcs s ! i = QPick w d"
    and "pick (w_sc (lb_waiters (q_lb s) ! w)) (q_lb s) = (res, lb1)"
  shows "(q_step M)\<^sup>*\<^sup>* s (s\<lparr>q_lb := lb1,
    q_pcs := (q_pcs s)[i := case res of None \<Rightarrow> resume d | Some p \<Rightarrow> QDeliver w p d]\<rparr>)"
proof -
  let ?sc = "w_sc (lb_waiters (q_lb s) ! w)" and ?mx = "cf_MaxPerProxy (lb_cfg (q_lb s))"
  obtain c lb0 where c: "choose_upstream ?sc (q_lb s) = (c, lb0)" by fastforce
  show ?thesis
  proof (cases c)
    case None
    with c assms q_pick_none [of i s w d lb0 M] show ?thesis by (auto simp: pick_def)
  next
    case (Some p)
    let ?s1 = "s\<lparr>q_lb := lb0, q_pcs := (q_pcs s)[i := QTake w ?mx p d]\<rparr>"
    obtain ok lb2 where t: "take_slot ?mx p lb0 = (ok, lb2)" by fastforce
    have "q_step M s ?s1" using c Some assms by (intro q_pick_some) simp_all
    moreover have "q_step M ?s1 (s\<lparr>q_lb := lb2, q_pcs := (q_pcs s)[i := if ok then QDeliver w p d else resume d]\<rparr>)"
      using q_take [of i ?s1 w ?mx p d ok lb2 M] t assms(2) by simp
    moreover have "res = (if ok then Some p else None) \<and> lb2 = lb1"
      using assms(4) c Some t by (auto simp: pick_def split: if_splits bool.splits)
    ultimately show ?thesis by (auto intro: q_then r_into_rtranclp split: option.split if_splits)
  qed
qed

text \<open>The function \<open>dispatch\<close> is what a goroutine does when the others stand still: in every state that satisfies
  the invariant it returns, and the step relation has a run that ends in its result.\<close>
theorem dispatch_runs:
  assumes "q_inv M s" and "i < length (q_pcs s)" and "q_pcs s ! i = QDispatch d"
  shows "\<exists>lb'. dispatch (q_lb s) = Some lb' \<and> (q_step M)\<^sup>*\<^sup>* s (s\<lparr>q_lb := lb', q_pcs := (q_pcs s)[i := resume d]\<rparr>)"
  using assms
proof (induction "lb_queue (q_lb s)" arbitrary: s)
  case Nil
  then have "dispatch (q_lb s) = Some (q_lb s)" by (intro dispatch_simps(1) queue_ok_inv) simp_all
  moreover have "q_step M s (s\<lparr>q_pcs := (q_pcs s)[i := resume d]\<rparr>)" using Nil by (intro q_empty) simp_all
  ultimately show ?case by auto
next
  case (Cons w q)
  note q = Cons.hyps(2) [symmetric]
  have ok: "queue_ok (q_lb s)" and pool: "pool_inv (q_lb s)"
    using queue_ok_inv [OF Cons.prems(1)] Cons.prems(1) by (simp_all add: q_inv_def refs_inv_def)
  let ?s1 = "s\<lparr>q_pcs := (q_pcs s)[i := QPick w d]\<rparr>"
  have 1: "q_step M s ?s1" using Cons.prems q ok by (intro q_head [of i s d w q]) (simp_all add: queue_ok_def)
  obtain res lb1 where pk: "pick (w_sc (lb_waiters (q_lb s) ! w)) (q_lb s) = (res, lb1)" by fastforce
  note run = pick_run [of ?s1 i w d res lb1 M]
  show ?case
  proof (cases res)
    case None
    have "dispatch (q_lb s) = Some lb1" using dispatch_simps(2) [OF ok q] pk None by simp
    with 1 run pool pk None Cons.prems(2) show ?thesis by (auto intro: q_then)
  next
    case (Some p)
    let ?s2 = "s\<lparr>q_lb := lb1, q_pcs := (q_pcs s)[i := QDeliver w p d]\<rparr>"
    let ?lb3 = "set_waiter w (w_ticket_update (\<lambda>_. Some p)) (lb1\<lparr>lb_queue := q\<rparr>)"
    let ?s3 = "s\<lparr>q_lb := ?lb3, q_pcs := (q_pcs s)[i := QDispatch d]\<rparr>"
    have "queue_ok lb1" "lb_queue lb1 = w # q"
      using ok pick_effect(2,3) [OF pool pk] q by (simp_all add: queue_ok_def)
    then have "deliver w p lb1 = (True, ?lb3)" by (rule deliver_head(1))
    then have 3: "q_step M ?s2 ?s3" using q_deliver [of i ?s2 w p d True ?lb3 M] Cons.prems(2) by simp
    have 2: "(q_step M)\<^sup>*\<^sup>* ?s1 ?s2" using run pool pk Some Cons.prems(2) by simp
    have run3: "(q_step M)\<^sup>*\<^sup>* s ?s3"
      using 1 2 3 by (meson q_then rtranclp.rtrancl_into_rtrancl)
    have "dispatch (q_lb s) = dispatch ?lb3" using dispatch_simps(3) [OF ok q pool] pk Some by simp
    moreover obtain lb' where "dispatch ?lb3 = Some lb'"
        "(q_step M)\<^sup>*\<^sup>* ?s3 (s\<lparr>q_lb := lb', q_pcs := (q_pcs s)[i := resume d]\<rparr>)"
      using Cons.hyps(1) [of ?s3] queue_sys.inv_steps [OF run3 Cons.prems(1)] Cons.prems(2) by auto
    ultimately show ?thesis using run3 by (auto intro: rtranclp_trans)
  qed
qed

text \<open>C40. A wakeup can be lost: a session that finds every slot taken joins the queue only later, and if the last
  holder releases its slot and dispatches in between, the session waits although the upstream is
  free, and nothing but another session, a health change or its own timeout ends the wait.\<close>
theorem lost_wakeup:
  assumes "pool_inv lb" and "lb_pool lb = [p]" and "cf_MaxPerProxy (lb_cfg lb) = 1"
    and "selector_ready (fst (currentPool lb)) (lb_selector lb, lb_rng lb)" and "us_healthy (lb_states lb (snd p))"
    and "us_active (lb_states lb (snd p)) = 0" and "\<not> us_draining (lb_states lb (snd p))"
    and "lb_queue lb = []" and "lb_waiters lb = []"
  shows "\<exists>s. (q_step M)\<^sup>*\<^sup>* \<lparr>q_lb = lb, q_pcs = []\<rparr> s \<and> q_pcs s = [QDone, QWait 0] \<and> lb_queue (q_lb s) = [0] \<and>
    lb_waiters (q_lb s) = [\<lparr>w_ticket = None, w_sc = sc, w_canceled = False\<rparr>] \<and> free_slot (q_lb s) p \<and> \<not> us_draining (lb_states (q_lb s) (snd p))"
proof -
  have free: "free_slot lb p" using assms(3,5,6) by (simp add: free_slot_def)
  obtain sel g where c1: "choose_upstream sc lb = (Some p, lb\<lparr>lb_selector := sel, lb_rng := g\<rparr>)"
    using free assms(2,4) by (cases rule: choose_upstream_cases [OF assms(1), of sc]) auto
  let ?lb1 = "lb\<lparr>lb_selector := sel, lb_rng := g\<rparr>"
  obtain lb2 where t: "take_slot 1 p ?lb1 = (True, lb2)" and
      lb2: "pool_inv lb2" "lb_pool lb2 = [p]" "us_active (lb_states lb2 (snd p)) = 1" "lb_cfg lb2 = lb_cfg lb" "lb_queue lb2 = []"
      "lb_waiters lb2 = []" "us_healthy (lb_states lb2 (snd p))" "\<not> us_draining (lb_states lb2 (snd p))"
    using assms by (cases rule: take_slot_cases [of 1 p ?lb1]) (auto simp: below_limit_def)
  then have "\<not> free_slot lb2 p" using assms(3) by (simp add: free_slot_def)
  then obtain sel' g' where c2: "choose_upstream sc lb2 = (None, lb2\<lparr>lb_selector := sel', lb_rng := g'\<rparr>)"
    using lb2(2) by (cases rule: choose_upstream_cases [OF lb2(1), of sc]) auto
  let ?S = "\<lambda>lb pcs. \<lparr>q_lb = lb, q_pcs = pcs\<rparr>" and ?lb3 = "lb2\<lparr>lb_selector := sel', lb_rng := g'\<rparr>"
  let ?lb4 = "give_slot p ?lb3"
  have "(q_step M)\<^sup>*\<^sup>* (?S lb []) (?S ?lb1 [QInc sc 1 p, QStart sc])"
    using q_arrive [of M "?S lb []" sc] q_arrive [of M "?S lb [QStart sc]" sc]
      q_some [of 0 "?S lb [QStart sc, QStart sc]" sc p ?lb1 M] c1 assms(3) by (simp add: q_then)
  also have "(q_step M)\<^sup>*\<^sup>* (?S ?lb1 [QInc sc 1 p, QStart sc]) (?S ?lb3 [QHold p, QEnqueue sc])"
    using q_inc [of 0 "?S ?lb1 [QInc sc 1 p, QStart sc]" sc 1 p True lb2 M] t
      q_none [of 1 "?S lb2 [QHold p, QStart sc]" sc ?lb3 M] c2 by (simp add: q_then)
  also have "(q_step M)\<^sup>*\<^sup>* (?S ?lb3 [QHold p, QEnqueue sc]) (?S ?lb4 [QDone, QEnqueue sc])"
    using q_end [of 0 "?S ?lb3 [QHold p, QEnqueue sc]" p M] q_release [of 0 "?S ?lb3 [QRelease p 0, QEnqueue sc]" p 0 M]
      q_empty [of 0 "?S ?lb4 [QDispatch 0, QEnqueue sc]" 0 M] lb2(5) by (simp add: q_then)
  also have "(q_step M)\<^sup>*\<^sup>* (?S ?lb4 [QDone, QEnqueue sc]) (?S (add_waiter sc ?lb4) [QDone, QWait 0])"
    using q_enqueue [of 1 "?S ?lb4 [QDone, QEnqueue sc]" sc M] lb2(6) by (simp add: q_then)
  finally have "(q_step M)\<^sup>*\<^sup>* (?S lb []) (?S (add_waiter sc ?lb4) [QDone, QWait 0])" .
  moreover have "free_slot (add_waiter sc ?lb4) p \<and> \<not> us_draining (lb_states (add_waiter sc ?lb4) (snd p))"
    using lb2 assms(3) by (simp add: add_waiter_def give_slot_def Let_def free_slot_def DecActive_def)
  ultimately show ?thesis
    using lb2(5,6) by (intro exI [of _ "?S (add_waiter sc ?lb4) [QDone, QWait 0]"]) (simp add: add_waiter_def)
qed

section \<open>Witnesses\<close>

text \<open>A balancer with one upstream that is down, and the same with the upstream up and one slot.\<close>

definition ex_down :: Upstream where
  "ex_down = (ex_up ''a'' ''h1'')\<lparr>up_State := NewState\<lparr>us_healthy := False\<rparr>\<rparr>"

definition ex_qlb :: "unit LB" where
  "ex_qlb = projr (balancer_New ex_config [] [ex_down] LeastActive (\<lambda>_. 0) (\<lambda>_. ex_session))"

lemma ex_new: "balancer_New ex_config [] [ex_down] LeastActive (\<lambda>_. 0) (\<lambda>_. ex_session) = Inr ex_qlb"
  by (simp add: ex_qlb_def balancer_New_def setUpstreams_def adopt_def NormalizeID_def ex_down_def ex_up_def Let_def)

lemma ex_qlb_simps [simp]:
  "lb_pool ex_qlb = [(ex_down, 0)]" "lb_states ex_qlb = (\<lambda>_. NewState)(0 := NewState\<lparr>us_healthy := False\<rparr>)"
  "lb_queue ex_qlb = []" "lb_waiters ex_qlb = []" "lb_cfg ex_qlb = ex_config" "lb_selector ex_qlb = LeastActive"
  by (simp_all add: ex_qlb_def balancer_New_def setUpstreams_def adopt_def NormalizeID_def ex_down_def ex_up_def Let_def)

lemma ex_q_inv: "q_inv 100 \<lparr>q_lb = ex_qlb, q_pcs = []\<rparr>"
  by (rule q_inv_New [OF ex_new]) (simp_all add: ex_down_def NewState_def ex_config_def Defaults_def)

lemma ex_qlb_inv: "pool_inv ex_qlb"
  using ex_q_inv by (simp add: q_inv_def refs_inv_def)

definition ex_one :: "unit LB" where
  "ex_one = ex_qlb\<lparr>lb_cfg := ex_config\<lparr>cf_MaxPerProxy := 1\<rparr>, lb_states := \<lambda>_. NewState\<rparr>"

lemma ex_one_inv: "pool_inv ex_one"
  using ex_qlb_inv by (simp add: ex_one_def)

theorem slots_conserved_witness:
  "us_active (lb_states (q_lb (\<lparr>q_lb = ex_qlb, q_pcs = [QStart ex_ctx]\<rparr> :: unit QS)) 0) \<le> 100"
proof -
  have "(q_step 100)\<^sup>*\<^sup>* \<lparr>q_lb = ex_qlb, q_pcs = []\<rparr> \<lparr>q_lb = ex_qlb, q_pcs = [QStart ex_ctx]\<rparr>"
    using q_arrive [of 100 "\<lparr>q_lb = ex_qlb, q_pcs = []\<rparr>" ex_ctx] by simp
  from slots_conserved [OF ex_new _ _ _ this] show ?thesis
    by (simp add: ex_down_def NewState_def ex_config_def Defaults_def)
qed

theorem queue_fifo_witness:
  "\<exists>s t :: unit QS. q_step 100 s t \<and> w_ticket (lb_waiters (q_lb t) ! 0) \<noteq> None \<and> lb_queue (q_lb s) = 0 # lb_queue (q_lb t)"
proof -
  let ?S = "\<lambda>lb pcs. \<lparr>q_lb = lb, q_pcs = pcs\<rparr> :: unit QS" and ?p = "(ex_down, 0)"
  obtain c lb1 where c: "choose_upstream ex_ctx ex_qlb = (c, lb1)" by fastforce
  have "c = None"
    using c by (cases rule: choose_upstream_cases [OF ex_qlb_inv, of ex_ctx]) (auto simp: free_slot_def NewState_def)
  from choose_same(1) [OF ex_qlb_inv c] obtain sel g where lb1: "lb1 = ex_qlb\<lparr>lb_selector := sel, lb_rng := g\<rparr>" by blast
  let ?lb2 = "add_waiter ex_ctx lb1"
  obtain lb3 where up: "lb_markHealthy ?p ?lb2 = (True, lb3)" and lb3: "lb_pool lb3 = [?p]" "lb_queue lb3 = [0]"
      "lb_waiters lb3 = [\<lparr>w_ticket = None, w_sc = ex_ctx, w_canceled = False\<rparr>]" "lb_selector lb3 = sel" "lb_cfg lb3 = ex_config"
      "us_healthy (lb_states lb3 0)" "us_active (lb_states lb3 0) = 0" "\<not> us_draining (lb_states lb3 0)"
    by (simp add: lb_markHealthy_def MarkHealthy_def add_waiter_def lb1 NewState_def Let_def)
  have "(q_step 100)\<^sup>*\<^sup>* (?S ex_qlb []) (?S ?lb2 [QWait 0])"
    using q_arrive [of 100 "?S ex_qlb []" ex_ctx] q_none [of 0 "?S ex_qlb [QStart ex_ctx]" ex_ctx lb1 100] c \<open>c = None\<close>
      q_enqueue [of 0 "?S lb1 [QEnqueue ex_ctx]" ex_ctx 100] by (simp add: q_then lb1)
  also have "(q_step 100)\<^sup>*\<^sup>* (?S ?lb2 [QWait 0]) (?S lb3 [QWait 0, QPick 0 0])"
    using q_healthy [of ?p "?S ?lb2 [QWait 0]" lb3 100] up q_head [of 1 "?S lb3 [QWait 0, QDispatch 0]" 0 0 "[]" 100] lb3(2,3)
    by (simp add: q_then) (simp add: q_then add_waiter_def lb1)
  finally have run: "(q_step 100)\<^sup>*\<^sup>* (?S ex_qlb []) (?S lb3 [QWait 0, QPick 0 0])" .
  have pool: "pool_inv lb3" using queue_sys.inv_steps [OF run ex_q_inv] by (simp add: q_inv_def refs_inv_def)
  have sel: "no_index (lb_selector lb3)" using no_index_choose [of ex_qlb ex_ctx] c lb1 lb3(4) by simp
  obtain res lb4 where pk: "pick ex_ctx lb3 = (res, lb4)" by fastforce
  have "res \<noteq> None"
    using pick_result(1) [OF pool sel, of ex_ctx] lb3 pk by (simp add: free_slot_def ex_config_def Defaults_def)
  then obtain p' where p': "res = Some p'" by blast
  have "lb_queue lb4 = [0]" "queue_ok lb4"
    using pick_effect(2,3) [OF pool pk] lb3(2,3) by (simp_all add: queue_ok_def)
  then obtain lb5 where d: "deliver 0 p' lb4 = (True, lb5)" "w_ticket (lb_waiters lb5 ! 0) = Some p'" "w_ticket (lb_waiters lb4 ! 0) = None"
    "0 < length (lb_waiters lb4)"
    using deliver_head(1) [of lb4 0 "[]" p'] by (auto simp: queue_ok_def)
  let ?s = "?S lb4 [QWait 0, QDeliver 0 p' 0]" and ?t = "?S lb5 [QWait 0, QDispatch 0]"
  have "(q_step 100)\<^sup>*\<^sup>* (?S ex_qlb []) ?s"
    using run pick_run [of "?S lb3 [QWait 0, QPick 0 0]" 1 0 0 res lb4 100] pool pk p' lb3(3) by simp
  moreover have st: "q_step 100 ?s ?t" using q_deliver [of 1 ?s 0 p' 0 True lb5 100] d(1) by simp
  ultimately have "lb_queue (q_lb ?s) = 0 # lb_queue (q_lb ?t)"
    using queue_fifo [OF ex_new _ _ _ _ st, of 0 p'] d by (simp add: ex_down_def NewState_def ex_config_def Defaults_def)
  with st d(2) show ?thesis by (intro exI [of _ ?s] exI [of _ ?t]) simp
qed

lemma ex_ready: "q_inv 100 \<lparr>q_lb = ex_qlb, q_pcs = [QDispatch 0]\<rparr>"
  using ex_q_inv by (simp add: q_inv_def slots_inv_def refs_inv_def waiters_inv_def)


theorem dispatch_runs_witness: "\<exists>lb'. dispatch ex_qlb = Some lb'"
  using dispatch_runs [OF ex_ready, of 0 0] by auto

theorem lost_wakeup_witness:
  "\<exists>s :: unit QS. (q_step 1)\<^sup>*\<^sup>* \<lparr>q_lb = ex_one, q_pcs = []\<rparr> s \<and> q_pcs s = [QDone, QWait 0] \<and> free_slot (q_lb s) (ex_down, 0)"
  using lost_wakeup [OF ex_one_inv, of "(ex_down, 0)" 1 ex_ctx] by (simp add: ex_one_def NewState_def) blast

end
