(* ===== verification/StreamConn.thy ===== *)
theory StreamConn
  imports Transport "HOL-Library.Sublist"
begin

text \<open>
  The connection on top of an exec stream: \<^verbatim>\<open>internal/transport/stream_conn.go\<close> and the read loop of
  \<^verbatim>\<open>internal/transport/wsexec.go\<close>.

  \<open>streamConn\<close> is shared by readers, writers, the write pump, the goroutine that feeds what the
  remote command prints, and whoever ends the stream.  A \<open>select\<close> is the list of its ready cases:
  the empty list is a goroutine that blocks, and Go may take any element.  \<open>y_step\<close> interleaves
  the goroutines; the two bodies guarded by a \<open>sync.Once\<close> are counters that say how far the one
  execution has come.  The record \<open>SCS\<close> also keeps what has passed each end of the connection.
\<close>

section \<open>The connection\<close>

record streamConn =
  sc_readCh :: "byte list list"
  sc_readChClosed :: bool
  sc_writeCh :: "byte list list"
  sc_pending :: "byte list"
  sc_localDone :: bool
  sc_remoteDone :: bool
  sc_ctxDone :: bool
  sc_remoteErr :: "gerror option"
  sc_readClosed :: bool
  sc_closing :: nat
  sc_finishing :: nat
  sc_readDeadline :: "int option"
  sc_writeDeadline :: "int option"

definition chan_size :: nat where
  "chan_size = 64"

definition newStreamConn :: streamConn where
  "newStreamConn = \<lparr>sc_readCh = [], sc_readChClosed = False, sc_writeCh = [], sc_pending = [], sc_localDone = False,
     sc_remoteDone = False, sc_ctxDone = False, sc_remoteErr = None, sc_readClosed = False, sc_closing = 0,
     sc_finishing = 0, sc_readDeadline = None, sc_writeDeadline = None\<rparr>"

definition errStreamClosed :: gerror where
  "errStreamClosed = errors_New ''stream closed''"

definition timeoutError :: "string \<Rightarrow> gerror" where
  "timeoutError op = (if op = [] then errors_New ''i/o timeout'' else Errorf ''%s: i/o timeout'' [FStr op])"

definition context_Canceled :: io_error where
  "context_Canceled = ErrOther ''context canceled''"

text \<open>A deadline of zero is none; the timer's channel is ready once the deadline has come.\<close>

definition deadlineTimer :: "int \<Rightarrow> int option \<Rightarrow> bool" where
  "deadlineTimer now dl = (case dl of None \<Rightarrow> False | Some t \<Rightarrow> t - now \<le> 0)"

definition remoteReadErr :: "streamConn \<Rightarrow> gerror" where
  "remoteReadErr c =
     (case sc_remoteErr c of
        None \<Rightarrow> IOErr EOF
      | Some err \<Rightarrow> if errors_Is err context_Canceled then IOErr EOF else err)"

definition sc_Read :: "int \<Rightarrow> nat \<Rightarrow> streamConn \<Rightarrow> ((gerror + byte list) \<times> streamConn) list" where
  "sc_Read now n c =
     (if n = 0 then [(Inr [], c)]
      else if sc_pending c \<noteq> [] then [(Inr (take n (sc_pending c)), c\<lparr>sc_pending := drop n (sc_pending c)\<rparr>)]
      else
        (case sc_readCh c of
           b # r \<Rightarrow> [(Inr (take n b), c\<lparr>sc_readCh := r, sc_pending := drop n b\<rparr>)]
         | [] \<Rightarrow> if sc_readChClosed c then [(Inl (remoteReadErr c), c)] else []) @
        (if deadlineTimer now (sc_readDeadline c) then [(Inl (timeoutError ''read''), c)] else []) @
        (if sc_localDone c then [(Inl (IOErr ErrClosed), c)] else []) @
        (if sc_ctxDone c then [(Inl (IOErr ErrClosed), c)] else []))"

definition sc_Write :: "int \<Rightarrow> byte list \<Rightarrow> streamConn \<Rightarrow> ((gerror + nat) \<times> streamConn) list" where
  "sc_Write now p c =
     (if p = [] then [(Inr 0, c)]
      else
        (if length (sc_writeCh c) < chan_size then [(Inr (length p), c\<lparr>sc_writeCh := sc_writeCh c @ [p]\<rparr>)] else []) @
        (if deadlineTimer now (sc_writeDeadline c) then [(Inl (timeoutError ''write''), c)] else []) @
        (if sc_localDone c then [(Inl (IOErr ErrClosed), c)] else []) @
        (if sc_remoteDone c then [(Inl errStreamClosed, c)] else []) @
        (if sc_ctxDone c then [(Inl (IOErr ErrClosed), c)] else []))"

definition SetReadDeadline :: "int option \<Rightarrow> streamConn \<Rightarrow> streamConn" where
  "SetReadDeadline t c = c\<lparr>sc_readDeadline := t\<rparr>"

definition SetWriteDeadline :: "int option \<Rightarrow> streamConn \<Rightarrow> streamConn" where
  "SetWriteDeadline t c = c\<lparr>sc_writeDeadline := t\<rparr>"

definition SetDeadline :: "int option \<Rightarrow> streamConn \<Rightarrow> streamConn" where
  "SetDeadline t c = SetWriteDeadline t (SetReadDeadline t c)"

text \<open>
  The bodies of \<open>closeOnce\<close> and \<open>remoteCloseOnce\<close>: the call that enters, then one action at a
  time; the flag tells that \<open>closeFn\<close> is called.
\<close>

definition sc_Close :: "streamConn \<Rightarrow> streamConn" where
  "sc_Close c = (if sc_closing c = 0 then c\<lparr>sc_ctxDone := True, sc_closing := 1\<rparr> else c)"

definition close_next :: "streamConn \<Rightarrow> bool \<times> streamConn" where
  "close_next c =
     (if sc_closing c = 1 then (True, c\<lparr>sc_closing := 2\<rparr>)
      else if sc_closing c = 2 then (False, c\<lparr>sc_localDone := True, sc_closing := 3\<rparr>)
      else (False, c))"

definition finishRemote :: "gerror option \<Rightarrow> streamConn \<Rightarrow> streamConn" where
  "finishRemote err c = (if sc_finishing c = 0 then c\<lparr>sc_remoteErr := err, sc_finishing := 1\<rparr> else c)"

definition finish_next :: "streamConn \<Rightarrow> bool \<times> streamConn" where
  "finish_next c =
     (if sc_finishing c = 1 then (False, c\<lparr>sc_remoteDone := True, sc_finishing := 2\<rparr>)
      else if sc_finishing c = 2 then (False, c\<lparr>sc_readClosed := True, sc_readChClosed := True, sc_finishing := 3\<rparr>)
      else if sc_finishing c = 3 then (True, c\<lparr>sc_finishing := 4\<rparr>)
      else if sc_finishing c = 4 then (False, c\<lparr>sc_ctxDone := True, sc_finishing := 5\<rparr>)
      else (False, c))"

section \<open>Standard error\<close>

record limitedBuffer =
  lim_limit :: int
  lim_buf :: "byte list"

definition newLimitedBuffer :: "int \<Rightarrow> limitedBuffer" where
  "newLimitedBuffer limit = \<lparr>lim_limit = limit, lim_buf = []\<rparr>"

definition lim_Write :: "byte list \<Rightarrow> limitedBuffer \<Rightarrow> nat \<times> limitedBuffer" where
  "lim_Write p b =
     (if lim_limit b \<le> 0 then (length p, b)
      else let remaining = lim_limit b - int (length (lim_buf b)) in
        if remaining \<le> 0 then (length p, b)
        else if remaining < int (length p) then (length p, b\<lparr>lim_buf := lim_buf b @ take (nat remaining) p\<rparr>)
        else (length p, b\<lparr>lim_buf := lim_buf b @ p\<rparr>))"

section \<open>The read loop of a raw exec stream\<close>

definition k8sChannelStdin :: byte where "k8sChannelStdin = 0"

definition k8sChannelStdout :: byte where "k8sChannelStdout = 1"

definition k8sChannelStderr :: byte where "k8sChannelStderr = 2"

definition k8sChannelError :: byte where "k8sChannelError = 3"

definition stdin_frame :: "byte list \<Rightarrow> byte list" where
  "stdin_frame b = k8sChannelStdin # b"

definition exec_error :: "byte list \<Rightarrow> limitedBuffer \<Rightarrow> gerror" where
  "exec_error data err =
     (let msg = TrimSpace (string_of data); stderrText = TrimSpace (string_of (lim_buf err)) in
      if msg \<noteq> [] \<and> stderrText \<noteq> [] then Errorf ''kubernetes exec error: %s: stderr: %s'' [FStr msg, FStr stderrText]
      else if msg \<noteq> [] then Errorf ''kubernetes exec error: %s'' [FStr msg]
      else if stderrText \<noteq> [] then Errorf ''kubernetes exec stderr: %s'' [FStr stderrText]
      else errors_New ''kubernetes exec error channel closed'')"

text \<open>
  The loop over what \<open>ReadMessage\<close> returns, a message with its type (text is 1, binary 2) or an
  error; it ends with the error it passes to \<open>finishRemote\<close>.  \<open>enqueue\<close> is \<open>enqueueRead\<close> on the
  connection, which may fail.  An exhausted list is a peer that sends nothing more.
\<close>

fun rawWSSReadLoop ::
  "(byte list \<Rightarrow> 's \<Rightarrow> gerror option \<times> 's) \<Rightarrow> (gerror + nat \<times> byte list) list \<Rightarrow> 's \<Rightarrow> limitedBuffer \<Rightarrow>
   gerror option \<times> 's \<times> limitedBuffer" where
  "rawWSSReadLoop enqueue [] s err = (None, s, err)"
| "rawWSSReadLoop enqueue (Inl e # ms) s err = (Some e, s, err)"
| "rawWSSReadLoop enqueue (Inr (msgType, payload) # ms) s err =
     (if msgType \<noteq> 2 \<and> msgType \<noteq> 1 then rawWSSReadLoop enqueue ms s err
      else
        (case payload of
           [] \<Rightarrow> rawWSSReadLoop enqueue ms s err
         | channel # data \<Rightarrow>
             if channel = k8sChannelStdout then
               (case enqueue data s of
                  (Some e, s') \<Rightarrow> (Some e, s', err)
                | (None, s') \<Rightarrow> rawWSSReadLoop enqueue ms s' err)
             else if channel = k8sChannelStderr then rawWSSReadLoop enqueue ms s (snd (lim_Write data err))
             else if channel = k8sChannelError then (Some (exec_error data err), s, err)
             else rawWSSReadLoop enqueue ms s err))"

section \<open>Goroutines\<close>

datatype pump_pc = PumpSelect | PumpSend "byte list" | PumpExit

datatype feed_pc = FeedIdle | FeedSelect "byte list" | FeedBlocked "byte list" | FeedError | FeedPanic

record SCS =
  y_c :: streamConn
  y_pump :: pump_pc
  y_feed :: feed_pc
  y_fed :: "byte list"
  y_got :: "byte list"
  y_written :: "byte list"
  y_sent :: "byte list"
  y_closeFn :: nat

definition y_init :: SCS where
  "y_init = \<lparr>y_c = newStreamConn, y_pump = PumpSelect, y_feed = FeedIdle, y_fed = [], y_got = [], y_written = [],
     y_sent = [], y_closeFn = 0\<rparr>"

text \<open>One round of \<open>writePump\<close>: the cases of its \<open>select\<close>.\<close>

definition writePump :: "streamConn \<Rightarrow> (pump_pc \<times> streamConn) list" where
  "writePump c =
     (case sc_writeCh c of
        b # r \<Rightarrow> [(if b = [] then PumpSelect else PumpSend b, c\<lparr>sc_writeCh := r\<rparr>)]
      | [] \<Rightarrow> []) @
     (if sc_localDone c \<or> sc_remoteDone c \<or> sc_ctxDone c then [(PumpExit, c)] else [])"

text \<open>
  \<open>enqueueRead\<close>: the check of the flag, then the \<open>select\<close>.  Its send is ready when the channel has
  room, and also when it is closed, where it panics.
\<close>

definition enqueueRead :: "byte list \<Rightarrow> streamConn \<Rightarrow> feed_pc" where
  "enqueueRead p c = (if p = [] then FeedIdle else if sc_readClosed c then FeedError else FeedSelect p)"

definition enqueue_select :: "byte list \<Rightarrow> streamConn \<Rightarrow> (feed_pc \<times> streamConn) list" where
  "enqueue_select b c =
     (if sc_readChClosed c then [(FeedPanic, c)]
      else if length (sc_readCh c) < chan_size then [(FeedIdle, c\<lparr>sc_readCh := sc_readCh c @ [b]\<rparr>)] else []) @
     (if sc_remoteDone c \<or> sc_localDone c \<or> sc_ctxDone c then [(FeedError, c)] else [])"

text \<open>
  A sender that is parked is woken by the first case that becomes ready: the channels that report
  the end are closed before \<open>readCh\<close>.
\<close>

definition enqueue_wake :: "byte list \<Rightarrow> streamConn \<Rightarrow> (feed_pc \<times> streamConn) list" where
  "enqueue_wake b c =
     (if \<not> sc_readChClosed c \<and> length (sc_readCh c) < chan_size then [(FeedIdle, c\<lparr>sc_readCh := sc_readCh c @ [b]\<rparr>)] else []) @
     (if sc_remoteDone c \<or> sc_localDone c \<or> sc_ctxDone c then [(FeedError, c)] else [])"

inductive y_step :: "SCS \<Rightarrow> SCS \<Rightarrow> bool" where
  y_read: "(Inr bs, c) \<in> set (sc_Read now n (y_c s)) \<Longrightarrow> y_step s (s\<lparr>y_c := c, y_got := y_got s @ bs\<rparr>)"
| y_read_err: "(Inl e, c) \<in> set (sc_Read now n (y_c s)) \<Longrightarrow> y_step s (s\<lparr>y_c := c\<rparr>)"
| y_write: "(Inr k, c) \<in> set (sc_Write now p (y_c s)) \<Longrightarrow> y_step s (s\<lparr>y_c := c, y_written := y_written s @ p\<rparr>)"
| y_write_err: "(Inl e, c) \<in> set (sc_Write now p (y_c s)) \<Longrightarrow> y_step s (s\<lparr>y_c := c\<rparr>)"
| y_deadline: "y_step s (s\<lparr>y_c := SetDeadline t (y_c s)\<rparr>)"
| y_read_deadline: "y_step s (s\<lparr>y_c := SetReadDeadline t (y_c s)\<rparr>)"
| y_write_deadline: "y_step s (s\<lparr>y_c := SetWriteDeadline t (y_c s)\<rparr>)"
| y_close: "y_step s (s\<lparr>y_c := sc_Close (y_c s)\<rparr>)"
| y_close_next: "close_next (y_c s) = (calls, c) \<Longrightarrow> y_step s (s\<lparr>y_c := c, y_closeFn := y_closeFn s + of_bool calls\<rparr>)"
| y_finish: "y_step s (s\<lparr>y_c := finishRemote err (y_c s)\<rparr>)"
| y_finish_next: "finish_next (y_c s) = (calls, c) \<Longrightarrow> y_step s (s\<lparr>y_c := c, y_closeFn := y_closeFn s + of_bool calls\<rparr>)"
| y_pump: "y_pump s = PumpSelect \<Longrightarrow> (pc, c) \<in> set (writePump (y_c s)) \<Longrightarrow> y_step s (s\<lparr>y_c := c, y_pump := pc\<rparr>)"
| y_send: "y_pump s = PumpSend b \<Longrightarrow> y_step s (s\<lparr>y_pump := PumpSelect, y_sent := y_sent s @ b\<rparr>)"
| y_send_err: "y_pump s = PumpSend b \<Longrightarrow> y_step s (s\<lparr>y_c := finishRemote (Some err) (y_c s), y_pump := PumpExit\<rparr>)"
| y_feed: "y_feed s = FeedIdle \<Longrightarrow> y_step s (s\<lparr>y_feed := enqueueRead p (y_c s)\<rparr>)"
| y_enqueue: "y_feed s = FeedSelect b \<Longrightarrow> (pc, c) \<in> set (enqueue_select b (y_c s)) \<Longrightarrow>
    y_step s (s\<lparr>y_c := c, y_feed := pc, y_fed := y_fed s @ (if pc = FeedIdle then b else [])\<rparr>)"
| y_block: "y_feed s = FeedSelect b \<Longrightarrow> enqueue_select b (y_c s) = [] \<Longrightarrow> y_step s (s\<lparr>y_feed := FeedBlocked b\<rparr>)"
| y_wake: "y_feed s = FeedBlocked b \<Longrightarrow> (pc, c) \<in> set (enqueue_wake b (y_c s)) \<Longrightarrow>
    y_step s (s\<lparr>y_c := c, y_feed := pc, y_fed := y_fed s @ (if pc = FeedIdle then b else [])\<rparr>)"

section \<open>Invariant\<close>

fun pump_ok :: "pump_pc \<Rightarrow> byte list \<Rightarrow> byte list \<Rightarrow> byte list list \<Rightarrow> bool" where
  "pump_ok PumpSelect written sent ch \<longleftrightarrow> written = sent @ concat ch"
| "pump_ok (PumpSend b) written sent ch \<longleftrightarrow> written = sent @ b @ concat ch"
| "pump_ok PumpExit written sent ch \<longleftrightarrow> prefix sent written"

lemma pump_ok_write: "pump_ok pc written sent ch \<Longrightarrow> pump_ok pc (written @ p) sent (ch @ [p])"
  by (cases pc) (auto intro: prefix_prefix)

lemma pump_ok_prefix: "pump_ok pc written sent ch \<Longrightarrow> prefix sent written"
  by (cases pc) auto

definition pump_inv :: "SCS \<Rightarrow> bool" where
  "pump_inv s \<longleftrightarrow> pump_ok (y_pump s) (y_written s) (y_sent s) (sc_writeCh (y_c s))"

definition once_ok :: "streamConn \<Rightarrow> nat \<Rightarrow> bool" where
  "once_ok c closeFn \<longleftrightarrow> sc_closing c \<le> 3 \<and> sc_finishing c \<le> 5 \<and>
     closeFn = of_bool (2 \<le> sc_closing c) + of_bool (4 \<le> sc_finishing c) \<and>
     sc_ctxDone c = (1 \<le> sc_closing c \<or> sc_finishing c = 5) \<and> sc_localDone c = (sc_closing c = 3) \<and>
     sc_remoteDone c = (2 \<le> sc_finishing c) \<and> sc_readClosed c = (3 \<le> sc_finishing c) \<and>
     sc_readChClosed c = (3 \<le> sc_finishing c)"

lemma once_ok_update [simp]:
  "once_ok (c\<lparr>sc_pending := pd\<rparr>) = once_ok c" "once_ok (c\<lparr>sc_readCh := rc\<rparr>) = once_ok c"
  "once_ok (c\<lparr>sc_writeCh := wc\<rparr>) = once_ok c" "once_ok (c\<lparr>sc_readDeadline := t\<rparr>) = once_ok c"
  "once_ok (c\<lparr>sc_writeDeadline := t\<rparr>) = once_ok c"
  by (simp_all add: once_ok_def fun_eq_iff)

lemma once_ok_Close: "once_ok c k \<Longrightarrow> once_ok (sc_Close c) k"
  by (auto simp: once_ok_def sc_Close_def)

lemma once_ok_finish: "once_ok c k \<Longrightarrow> once_ok (finishRemote err c) k"
  by (auto simp: once_ok_def finishRemote_def)

lemma once_ok_close_next: "once_ok c k \<Longrightarrow> close_next c = (calls, c') \<Longrightarrow> once_ok c' (k + of_bool calls)"
  by (auto simp: once_ok_def close_next_def split: if_splits)

lemma once_ok_finish_next: "once_ok c k \<Longrightarrow> finish_next c = (calls, c') \<Longrightarrow> once_ok c' (k + of_bool calls)"
  by (auto simp: once_ok_def finish_next_def split: if_splits)

definition once_inv :: "SCS \<Rightarrow> bool" where
  "once_inv s \<longleftrightarrow> once_ok (y_c s) (y_closeFn s)"

definition bytes_inv :: "SCS \<Rightarrow> bool" where
  "bytes_inv s \<longleftrightarrow> y_fed s = y_got s @ sc_pending (y_c s) @ concat (sc_readCh (y_c s)) \<and>
     length (sc_readCh (y_c s)) \<le> chan_size \<and> length (sc_writeCh (y_c s)) \<le> chan_size"

definition y_inv :: "SCS \<Rightarrow> bool" where
  "y_inv s \<longleftrightarrow> bytes_inv s \<and> pump_inv s \<and> once_inv s"

lemma y_init_inv: "y_inv y_init"
  by (simp add: y_inv_def bytes_inv_def y_init_def newStreamConn_def pump_inv_def once_inv_def once_ok_def)

lemmas sc_op_defs = SetDeadline_def SetReadDeadline_def SetWriteDeadline_def sc_Close_def finishRemote_def close_next_def finish_next_def

text \<open>What each \<open>select\<close> can do.\<close>

lemma sc_Read_ok:
  assumes "(Inr bs, c') \<in> set (sc_Read now n c)"
  obtains pd rc where "c' = c\<lparr>sc_pending := pd, sc_readCh := rc\<rparr>" "bs @ pd @ concat rc = sc_pending c @ concat (sc_readCh c)"
    "length rc \<le> length (sc_readCh c)" "length bs \<le> n"
proof (cases "n = 0 \<or> sc_pending c \<noteq> []")
  case True
  with assms have "c' = c\<lparr>sc_pending := drop n (sc_pending c), sc_readCh := sc_readCh c\<rparr>" "bs = take n (sc_pending c)"
    by (auto simp: sc_Read_def split: if_splits)
  then show thesis by (intro that [where pd = "drop n (sc_pending c)" and rc = "sc_readCh c"]) auto
next
  case False
  with assms obtain b r where "sc_readCh c = b # r" "bs = take n b" "c' = c\<lparr>sc_readCh := r, sc_pending := drop n b\<rparr>"
    by (cases "sc_readCh c") (auto simp: sc_Read_def split: if_splits)
  with False show thesis by (intro that [where pd = "drop n b" and rc = r]) auto
qed

lemma sc_Read_err: "(Inl e, c') \<in> set (sc_Read now n c) \<Longrightarrow> c' = c"
  by (cases "sc_readCh c") (auto simp: sc_Read_def split: if_splits)

lemma sc_Write_ok:
  assumes "(Inr k, c') \<in> set (sc_Write now p c)"
  obtains "p = []" "c' = c" | "length (sc_writeCh c) < chan_size" "c' = c\<lparr>sc_writeCh := sc_writeCh c @ [p]\<rparr>"
  using assms by (auto simp: sc_Write_def split: if_splits)

lemma sc_Write_err: "(Inl e, c') \<in> set (sc_Write now p c) \<Longrightarrow> c' = c"
  by (auto simp: sc_Write_def split: if_splits)

lemma writePump_cases:
  assumes "(pc, c') \<in> set (writePump c)"
  obtains b r where "sc_writeCh c = b # r" "pc = (if b = [] then PumpSelect else PumpSend b)" "c' = c\<lparr>sc_writeCh := r\<rparr>"
    | "pc = PumpExit" "c' = c"
  using assms by (cases "sc_writeCh c") (auto simp: writePump_def split: if_splits)

lemma enqueue_select_cases:
  assumes "(pc, c') \<in> set (enqueue_select b c)"
  obtains "pc = FeedIdle" "length (sc_readCh c) < chan_size" "c' = c\<lparr>sc_readCh := sc_readCh c @ [b]\<rparr>"
    | "pc \<noteq> FeedIdle" "c' = c"
  using assms by (auto simp: enqueue_select_def split: if_splits)

lemma enqueue_wake_cases:
  assumes "(pc, c') \<in> set (enqueue_wake b c)"
  obtains "pc = FeedIdle" "length (sc_readCh c) < chan_size" "c' = c\<lparr>sc_readCh := sc_readCh c @ [b]\<rparr>"
    | "pc \<noteq> FeedIdle" "c' = c"
  using assms by (auto simp: enqueue_wake_def split: if_splits)

lemma bytes_step: "y_step s t \<Longrightarrow> bytes_inv s \<Longrightarrow> bytes_inv t"
proof (induction rule: y_step.induct)
  case (y_read bs c now n s)
  from y_read(1) show ?case by (rule sc_Read_ok) (use y_read(2) in \<open>auto simp: bytes_inv_def\<close>)
next
  case (y_write k c now p s)
  from y_write(1) show ?case by (rule sc_Write_ok) (use y_write(2) in \<open>auto simp: bytes_inv_def\<close>)
next
  case (y_pump s pc c)
  from y_pump(2) show ?case by (rule writePump_cases) (use y_pump(3) in \<open>auto simp: bytes_inv_def\<close>)
next
  case (y_enqueue s b pc c)
  from y_enqueue(2) show ?case by (rule enqueue_select_cases) (use y_enqueue(3) in \<open>auto simp: bytes_inv_def\<close>)
next
  case (y_wake s b pc c)
  from y_wake(2) show ?case by (rule enqueue_wake_cases) (use y_wake(3) in \<open>auto simp: bytes_inv_def\<close>)
qed (auto simp: bytes_inv_def sc_op_defs dest!: sc_Read_err sc_Write_err split: if_splits)

lemma pump_step: "y_step s t \<Longrightarrow> pump_inv s \<Longrightarrow> pump_inv t"
proof (induction rule: y_step.induct)
  case (y_read bs c now n s)
  from y_read(1) show ?case by (rule sc_Read_ok) (use y_read(2) in \<open>simp add: pump_inv_def\<close>)
next
  case (y_write k c now p s)
  from y_write(1) show ?case
    by (rule sc_Write_ok) (use y_write(2) in \<open>simp_all add: pump_inv_def pump_ok_write\<close>)
next
  case (y_pump s pc c)
  from y_pump(2) show ?case by (rule writePump_cases) (use y_pump(1,3) in \<open>simp_all add: pump_inv_def\<close>)
next
  case (y_enqueue s b pc c)
  from y_enqueue(2) show ?case by (rule enqueue_select_cases) (use y_enqueue(3) in \<open>simp_all add: pump_inv_def\<close>)
next
  case (y_wake s b pc c)
  from y_wake(2) show ?case by (rule enqueue_wake_cases) (use y_wake(3) in \<open>simp_all add: pump_inv_def\<close>)
qed (auto simp: pump_inv_def sc_op_defs dest!: sc_Read_err sc_Write_err split: if_splits)

lemma once_step: "y_step s t \<Longrightarrow> once_inv s \<Longrightarrow> once_inv t"
proof (induction rule: y_step.induct)
  case (y_read bs c now n s)
  from y_read(1) show ?case by (rule sc_Read_ok) (use y_read(2) in \<open>simp add: once_inv_def\<close>)
next
  case (y_write k c now p s)
  from y_write(1) show ?case by (rule sc_Write_ok) (use y_write(2) in \<open>simp_all add: once_inv_def\<close>)
next
  case (y_pump s pc c)
  from y_pump(2) show ?case by (rule writePump_cases) (use y_pump(3) in \<open>simp_all add: once_inv_def\<close>)
next
  case (y_enqueue s b pc c)
  from y_enqueue(2) show ?case by (rule enqueue_select_cases) (use y_enqueue(3) in \<open>simp_all add: once_inv_def\<close>)
next
  case (y_wake s b pc c)
  from y_wake(2) show ?case by (rule enqueue_wake_cases) (use y_wake(3) in \<open>simp_all add: once_inv_def\<close>)
qed (auto simp: once_inv_def SetDeadline_def SetReadDeadline_def SetWriteDeadline_def
    intro: once_ok_Close once_ok_finish dest!: sc_Read_err sc_Write_err dest: once_ok_close_next once_ok_finish_next)

interpretation stream_sys: safety y_step y_inv
  by unfold_locales (simp add: y_inv_def bytes_step pump_step once_step)

section \<open>Properties\<close>

text \<open>C12. The exec connection is a faithful byte stream in both directions, whatever the interleaving: the bytes
  that reads have returned are a prefix of the bytes the remote printed, and what is missing is in
  the buffer in order; the bytes sent to the remote are a prefix of those written.  The buffers are
  bounded, \<open>closeFn\<close> is called at most once by each of the two ways to end, and a read reports the
  end of the stream only after every byte was returned, unless it reports a closed connection or a
  timeout.\<close>
theorem stream_integrity:
  assumes "y_step\<^sup>*\<^sup>* y_init s"
  shows "y_fed s = y_got s @ sc_pending (y_c s) @ concat (sc_readCh (y_c s)) \<and> prefix (y_sent s) (y_written s) \<and>
    length (sc_readCh (y_c s)) \<le> chan_size \<and> length (sc_writeCh (y_c s)) \<le> chan_size \<and> y_closeFn s \<le> 2 \<and>
    (\<forall>now n e c. (Inl e, c) \<in> set (sc_Read now n (y_c s)) \<and> e \<noteq> IOErr ErrClosed \<and> e \<noteq> timeoutError ''read'' \<longrightarrow>
       y_got s = y_fed s \<and> e = remoteReadErr (y_c s) \<and> 3 \<le> sc_finishing (y_c s))"
proof -
  have inv: "y_inv s" using stream_sys.inv_steps [OF assms y_init_inv] .
  have "y_got s = y_fed s \<and> e = remoteReadErr (y_c s) \<and> 3 \<le> sc_finishing (y_c s)"
    if "(Inl e, c) \<in> set (sc_Read now n (y_c s))" "e \<noteq> IOErr ErrClosed" "e \<noteq> timeoutError ''read''" for now n e c
    using that inv by (cases "sc_readCh (y_c s)")
      (auto simp: sc_Read_def y_inv_def bytes_inv_def once_inv_def once_ok_def split: if_splits)
  moreover have "y_closeFn s \<le> 2" using inv by (simp add: y_inv_def once_inv_def once_ok_def)
  ultimately show ?thesis
    using inv pump_ok_prefix by (auto simp: y_inv_def bytes_inv_def pump_inv_def)
qed


lemma y_then: "y_step s t \<Longrightarrow> y_step\<^sup>*\<^sup>* t u \<Longrightarrow> y_step\<^sup>*\<^sup>* s u"
  by (rule converse_rtranclp_into_rtranclp)

text \<open>The state a run reaches, for runs that exhibit a behaviour.\<close>

definition y_fed_once :: "byte list \<Rightarrow> SCS" where
  "y_fed_once b = y_init\<lparr>y_c := newStreamConn\<lparr>sc_readCh := [b]\<rparr>, y_fed := b\<rparr>"

lemma y_fed_once: "b \<noteq> [] \<Longrightarrow> y_step\<^sup>*\<^sup>* y_init (y_fed_once b)"
  using y_feed [of y_init b] y_enqueue [of "y_init\<lparr>y_feed := FeedSelect b\<rparr>" b FeedIdle "newStreamConn\<lparr>sc_readCh := [b]\<rparr>"]
  by (simp add: y_then enqueueRead_def enqueue_select_def y_init_def newStreamConn_def chan_size_def y_fed_once_def)

lemma finish_all:
  assumes "sc_finishing (y_c s) = 1"
  shows "y_step\<^sup>*\<^sup>* s (s\<lparr>y_c := (y_c s)\<lparr>sc_remoteDone := True, sc_readClosed := True, sc_readChClosed := True, sc_finishing := 3\<rparr>\<rparr>)"
    and "y_step\<^sup>*\<^sup>* s (s\<lparr>y_c := (y_c s)\<lparr>sc_remoteDone := True, sc_readClosed := True, sc_readChClosed := True, sc_ctxDone := True,
      sc_finishing := 5\<rparr>, y_closeFn := Suc (y_closeFn s)\<rparr>)"
proof -
  let ?c2 = "(y_c s)\<lparr>sc_remoteDone := True, sc_finishing := 2\<rparr>"
  let ?c3 = "?c2\<lparr>sc_readClosed := True, sc_readChClosed := True, sc_finishing := 3\<rparr>"
  let ?c4 = "?c3\<lparr>sc_finishing := 4\<rparr>"
  have "y_step s (s\<lparr>y_c := ?c2\<rparr>)" using y_finish_next [of s False ?c2] assms by (simp add: finish_next_def)
  moreover have "y_step (s\<lparr>y_c := ?c2\<rparr>) (s\<lparr>y_c := ?c3\<rparr>)"
    using y_finish_next [of "s\<lparr>y_c := ?c2\<rparr>" False ?c3] by (simp add: finish_next_def)
  ultimately have run3: "y_step\<^sup>*\<^sup>* s (s\<lparr>y_c := ?c3\<rparr>)" by (simp add: y_then)
  then show "y_step\<^sup>*\<^sup>* s (s\<lparr>y_c := (y_c s)\<lparr>sc_remoteDone := True, sc_readClosed := True, sc_readChClosed := True, sc_finishing := 3\<rparr>\<rparr>)"
    by simp
  have "y_step (s\<lparr>y_c := ?c3\<rparr>) (s\<lparr>y_c := ?c4, y_closeFn := Suc (y_closeFn s)\<rparr>)"
    using y_finish_next [of "s\<lparr>y_c := ?c3\<rparr>" True ?c4] by (simp add: finish_next_def)
  moreover have "y_step (s\<lparr>y_c := ?c4, y_closeFn := Suc (y_closeFn s)\<rparr>)
      (s\<lparr>y_c := ?c4\<lparr>sc_ctxDone := True, sc_finishing := 5\<rparr>, y_closeFn := Suc (y_closeFn s)\<rparr>)"
    using y_finish_next [of "s\<lparr>y_c := ?c4, y_closeFn := Suc (y_closeFn s)\<rparr>" False "?c4\<lparr>sc_ctxDone := True, sc_finishing := 5\<rparr>"]
    by (simp add: finish_next_def)
  ultimately show "y_step\<^sup>*\<^sup>* s (s\<lparr>y_c := (y_c s)\<lparr>sc_remoteDone := True, sc_readClosed := True, sc_readChClosed := True,
      sc_ctxDone := True, sc_finishing := 5\<rparr>, y_closeFn := Suc (y_closeFn s)\<rparr>)"
    using rtranclp_trans [OF run3] y_then by fastforce
qed

text \<open>C39. Data can be lost at the end of a stream: the remote prints bytes and ends without an error, nobody closes the
  connection, and a read is allowed to report a closed connection although the bytes are still in
  the buffer, because ending the remote side also cancels the context that \<open>Read\<close> watches.\<close>
theorem end_may_drop_data:
  assumes "b \<noteq> []" and "0 < n"
  shows "\<exists>s. y_step\<^sup>*\<^sup>* y_init s \<and> sc_closing (y_c s) = 0 \<and> sc_remoteErr (y_c s) = None \<and> y_fed s = b \<and> y_got s = [] \<and>
    (Inl (IOErr ErrClosed), y_c s) \<in> set (sc_Read now n (y_c s))"
proof -
  let ?s = "(y_fed_once b)\<lparr>y_c := finishRemote None (y_c (y_fed_once b))\<rparr>"
  have "y_step (y_fed_once b) ?s" by (rule y_finish)
  with y_fed_once [OF assms(1)] have "y_step\<^sup>*\<^sup>* y_init ?s" by (rule rtranclp.rtrancl_into_rtrancl)
  moreover have "sc_finishing (y_c ?s) = 1"
    by (simp add: finishRemote_def y_fed_once_def newStreamConn_def)
  note finish_all(2) [OF this]
  ultimately have "y_step\<^sup>*\<^sup>* y_init (?s\<lparr>y_c := (y_c ?s)\<lparr>sc_remoteDone := True, sc_readClosed := True, sc_readChClosed := True,
      sc_ctxDone := True, sc_finishing := 5\<rparr>, y_closeFn := Suc (y_closeFn ?s)\<rparr>)" (is "y_step\<^sup>*\<^sup>* y_init ?t") by (rule rtranclp_trans)
  then show ?thesis
    using assms(2) by (intro exI [of _ ?t])
      (auto simp: y_fed_once_def y_init_def newStreamConn_def finishRemote_def sc_Read_def)
qed

lemma send_on_closed:
  assumes "y_feed s = FeedSelect b" and "sc_readChClosed (y_c s)"
  shows "y_step s (s\<lparr>y_feed := FeedPanic\<rparr>)"
  using y_enqueue [OF assms(1), of FeedPanic "y_c s"] assms(2) by (simp add: enqueue_select_def)

text \<open>C38. The guard against sending on a closed channel does not hold: a sender that has read the flag and not yet
  entered its \<open>select\<close> panics if a failed write to the remote closes the channel in between.\<close>
theorem enqueue_may_panic:
  assumes "p \<noteq> []"
  shows "\<exists>s. y_step\<^sup>*\<^sup>* y_init s \<and> y_feed s = FeedPanic \<and> y_written s = p \<and> sc_closing (y_c s) = 0"
proof -
  let ?w = "newStreamConn\<lparr>sc_writeCh := [p]\<rparr>"
  let ?s1 = "y_init\<lparr>y_c := ?w, y_written := p\<rparr>"
  let ?s2 = "y_init\<lparr>y_written := p, y_pump := PumpSend p\<rparr>"
  let ?s3 = "?s2\<lparr>y_feed := FeedSelect [0]\<rparr>"
  let ?s4 = "?s3\<lparr>y_c := finishRemote (Some errStreamClosed) newStreamConn, y_pump := PumpExit\<rparr>"
  let ?c5 = "(y_c ?s4)\<lparr>sc_remoteDone := True, sc_readClosed := True, sc_readChClosed := True, sc_finishing := 3\<rparr>"
  let ?s5 = "?s4\<lparr>y_c := ?c5\<rparr>"
  have 1: "y_step\<^sup>*\<^sup>* y_init ?s2"
    using y_write [of "length p" ?w 0 p y_init] y_pump [of ?s1 "PumpSend p" newStreamConn] assms
    by (simp add: y_then sc_Write_def chan_size_def y_init_def newStreamConn_def writePump_def)
  have 2: "y_step\<^sup>*\<^sup>* ?s2 ?s4"
    using y_feed [of ?s2 "[0]"] y_send_err [of ?s3 p errStreamClosed]
    by (simp add: y_then enqueueRead_def y_init_def newStreamConn_def)
  have 3: "y_step\<^sup>*\<^sup>* ?s4 ?s5" by (rule finish_all(1)) (simp add: finishRemote_def newStreamConn_def)
  have 4: "y_step\<^sup>*\<^sup>* ?s5 (?s5\<lparr>y_feed := FeedPanic\<rparr>)"
    by (rule r_into_rtranclp, rule send_on_closed) simp_all
  show ?thesis
    using rtranclp_trans [OF rtranclp_trans [OF rtranclp_trans [OF 1 2] 3] 4]
    by (intro exI [of _ "?s5\<lparr>y_feed := FeedPanic\<rparr>"]) (simp add: finishRemote_def newStreamConn_def)
qed

text \<open>The bounded buffer keeps a prefix of what was written to it.\<close>

lemma lim_Write_take:
  "snd (lim_Write p \<lparr>lim_limit = L, lim_buf = take (nat L) ws\<rparr>) = \<lparr>lim_limit = L, lim_buf = take (nat L) (ws @ p)\<rparr>"
  by (auto simp: lim_Write_def Let_def nat_diff_distrib nat_le_iff)

text \<open>The data of one channel, and the messages up to the one that ends the stream.\<close>

fun channel_data :: "byte \<Rightarrow> (gerror + nat \<times> byte list) list \<Rightarrow> byte list" where
  "channel_data ch [] = []"
| "channel_data ch (Inr (t, c # data) # ms) = (if t \<in> {1, 2} \<and> c = ch then data else []) @ channel_data ch ms"
| "channel_data ch (_ # ms) = channel_data ch ms"

fun ends_stream :: "gerror + nat \<times> byte list \<Rightarrow> bool" where
  "ends_stream (Inl _) = True"
| "ends_stream (Inr (t, p)) \<longleftrightarrow> t \<in> {1, 2} \<and> p \<noteq> [] \<and> hd p = k8sChannelError"

lemma wss_loop:
  "\<exists>e. rawWSSReadLoop (\<lambda>d s. (None, s @ d)) ms out \<lparr>lim_limit = L, lim_buf = take (nat L) ws\<rparr> =
     (e, out @ channel_data k8sChannelStdout (takeWhile (\<lambda>m. \<not> ends_stream m) ms),
      \<lparr>lim_limit = L, lim_buf = take (nat L) (ws @ channel_data k8sChannelStderr (takeWhile (\<lambda>m. \<not> ends_stream m) ms))\<rparr>) \<and>
     (e = None \<longleftrightarrow> takeWhile (\<lambda>m. \<not> ends_stream m) ms = ms)"
proof (induction ms arbitrary: out ws)
  case (Cons m ms)
  have w: "snd (lim_Write p \<lparr>lim_limit = L, lim_buf = take (nat L) ws\<rparr>) = \<lparr>lim_limit = L, lim_buf = take (nat L) (ws @ p)\<rparr>" for p
    by (rule lim_Write_take)
  show ?case
  proof (cases m rule: ends_stream.cases)
    case (2 t p)
    with Cons [of out ws] Cons [of "out @ tl p" ws] Cons [of out "ws @ tl p"] w show ?thesis
      by (cases p) (auto simp: k8sChannelStdout_def k8sChannelStderr_def k8sChannelError_def)
  qed simp
qed simp

text \<open>C25. The read loop of a raw exec stream separates the channels: when the connection takes the data, what it is
  given is the concatenation of the standard output of all messages up to the one that ends the
  stream, in order; standard error is kept up to its limit; other channels and message types are
  ignored; and the loop ends exactly at a read error or an error-channel message.\<close>
theorem wss_demultiplex:
  "let (e, out, err) = rawWSSReadLoop (\<lambda>d s. (None, s @ d)) ms [] (newLimitedBuffer L);
       live = takeWhile (\<lambda>m. \<not> ends_stream m) ms
   in out = channel_data k8sChannelStdout live \<and> lim_buf err = take (nat L) (channel_data k8sChannelStderr live) \<and>
      (e = None \<longleftrightarrow> live = ms)"
  using wss_loop [of ms "[]" L "[]"] by (auto simp: newLimitedBuffer_def)

section \<open>Witnesses\<close>

theorem stream_integrity_witness: "y_fed (y_fed_once [1, 2]) = y_got (y_fed_once [1, 2]) @ [] @ concat [[1, 2]]"
  using stream_integrity [OF y_fed_once, of "[1, 2]"] by (simp add: y_fed_once_def newStreamConn_def)


theorem end_may_drop_data_witness:
  "\<exists>s. y_step\<^sup>*\<^sup>* y_init s \<and> y_fed s = [7] \<and> y_got s = [] \<and> (Inl (IOErr ErrClosed), y_c s) \<in> set (sc_Read 0 4 (y_c s))"
  using end_may_drop_data [of "[7]" 4 0] by auto

theorem enqueue_may_panic_witness: "\<exists>s. y_step\<^sup>*\<^sup>* y_init s \<and> y_feed s = FeedPanic \<and> y_written s = [9]"
  using enqueue_may_panic [of "[9]"] by auto

end
