(* ===== verification/UDP_Relay.thy ===== *)
theory UDP_Relay
  imports Socks5_UDP Balancer "HOL-Library.Sublist"
begin

text \<open>
  The UDP side of an association, \<^verbatim>\<open>internal/balancer/session_udp.go\<close>: the addresses that are bound,
  advertised and resolved, and the two goroutines that relay datagrams and share the pinned client
  address.

  \<open>up_iter\<close> and \<open>down_iter\<close> are one round of \<open>udpClientToUpstream\<close> and \<open>udpUpstreamToClient\<close> for
  what the socket returned; \<open>relay_step\<close> interleaves the rounds of both with the cancellation of
  their context.  The relay also keeps what was received on either socket.
\<close>

section \<open>Addresses\<close>

record UDPAddr =
  ua_IP :: ip
  ua_Port :: int

text \<open>The addresses of a \<^verbatim>\<open>net.Conn\<close>: a TCP address, or one of which only the text is known.\<close>

datatype net_addr = TCPAddr ip int | TextAddr string

fun addr_String :: "net_addr \<Rightarrow> string" where
  "addr_String (TCPAddr a port) = JoinHostPort (if a = [] then [] else ip_String a) (Itoa port)"
| "addr_String (TextAddr s) = s"

definition udpAddrEqual :: "UDPAddr \<Rightarrow> UDPAddr \<Rightarrow> bool" where
  "udpAddrEqual a b \<longleftrightarrow> ua_Port a = ua_Port b \<and> ip_Equal (ua_IP a) (ua_IP b)"

definition splitHost :: "string \<Rightarrow> string" where
  "splitHost addr = (case SplitHostPort addr of Inl _ \<Rightarrow> addr | Inr (h, _) \<Rightarrow> h)"

definition udpBindHost :: "Config \<Rightarrow> string" where
  "udpBindHost cfg = (if cf_UDPBindAddr cfg \<noteq> [] then cf_UDPBindAddr cfg else splitHost (cf_ListenAddr cfg))"

definition concrete_IP :: "ip \<Rightarrow> bool" where
  "concrete_IP a \<longleftrightarrow> a \<noteq> [] \<and> \<not> IsUnspecified a"

definition udpAdvertiseIP :: "Config \<Rightarrow> UDPAddr option \<Rightarrow> net_addr \<Rightarrow> gerror + ip" where
  "udpAdvertiseIP cfg udpLocal tcpLocal =
     (if cf_UDPAdvertiseAddr cfg \<noteq> [] then
        (case ParseIP (cf_UDPAdvertiseAddr cfg) of
           None \<Rightarrow> Inl (Errorf ''invalid udp_advertise %q'' [FStr (cf_UDPAdvertiseAddr cfg)])
         | Some a \<Rightarrow> Inr a)
      else if udpLocal \<noteq> None \<and> concrete_IP (ua_IP (the udpLocal)) then Inr (ua_IP (the udpLocal))
      else if (case tcpLocal of TCPAddr a _ \<Rightarrow> concrete_IP a | _ \<Rightarrow> False) then
        (case tcpLocal of TCPAddr a _ \<Rightarrow> Inr a)
      else
        (case SplitHostPort (addr_String tcpLocal) of
           Inr (host, _) \<Rightarrow>
             (case ParseIP host of
                Some a \<Rightarrow>
                  if \<not> IsUnspecified a then Inr a
                  else Inl (errors_New ''udp_advertise is required when UDP bind address is unspecified'')
              | None \<Rightarrow> Inl (errors_New ''udp_advertise is required when UDP bind address is unspecified''))
         | Inl _ \<Rightarrow> Inl (errors_New ''udp_advertise is required when UDP bind address is unspecified'')))"

text \<open>The nil address is the empty list.\<close>

definition tcpRemoteIP :: "net_addr \<Rightarrow> ip" where
  "tcpRemoteIP addr =
     (case addr of
        TCPAddr a _ \<Rightarrow> a
      | _ \<Rightarrow>
          (case SplitHostPort (addr_String addr) of
             Inl _ \<Rightarrow> []
           | Inr (host, _) \<Rightarrow> (case ParseIP host of None \<Rightarrow> [] | Some a \<Rightarrow> a)))"

text \<open>\<open>resolve\<close> is \<^verbatim>\<open>net.ResolveUDPAddr\<close>, which may ask the name service.\<close>

definition resolveUpstreamUDPAddr ::
  "(string \<Rightarrow> gerror + UDPAddr) \<Rightarrow> ClientRequestReply \<Rightarrow> string \<Rightarrow> gerror + UDPAddr" where
  "resolveUpstreamUDPAddr resolve reply tcpHost =
     (let resolve_host = (\<lambda>host. resolve (JoinHostPort host (Itoa (uint (rp_BindPort reply)))))
      in case rp_BindIP reply of
        Some a \<Rightarrow> resolve_host (if IsUnspecified a then tcpHost else ip_String a)
      | None \<Rightarrow>
          if rp_BindHost reply \<noteq> [] then resolve_host (rp_BindHost reply)
          else Inl (errors_New ''empty bind address in UDP_ASSOCIATE reply''))"

section \<open>The relay\<close>

type_synonym datagram = "byte list \<times> UDPAddr"

datatype loop_pc = LTop | LReading | LExit

record relay =
  rl_pin :: "UDPAddr option"
  rl_pktsUp :: int
  rl_pktsDown :: int
  rl_bytesUp :: int
  rl_bytesDown :: int
  rl_dropped :: "string list"
  rl_toUp :: "byte list list"
  rl_toClient :: "datagram list"
  rl_fromClient :: "datagram list"
  rl_fromUp :: "datagram list"
  rl_cancelled :: bool
  rl_up :: loop_pc
  rl_down :: loop_pc

definition relay_init :: relay where
  "relay_init = \<lparr>rl_pin = None, rl_pktsUp = 0, rl_pktsDown = 0, rl_bytesUp = 0, rl_bytesDown = 0, rl_dropped = [],
     rl_toUp = [], rl_toClient = [], rl_fromClient = [], rl_fromUp = [], rl_cancelled = False, rl_up = LTop, rl_down = LTop\<rparr>"

definition udp_drop :: "string \<Rightarrow> relay \<Rightarrow> relay" where
  "udp_drop reason s = s\<lparr>rl_dropped := rl_dropped s @ [reason]\<rparr>"

text \<open>
  A round after the check of the context: \<open>Inl\<close> is a read that failed, on which the loop returns
  whatever the error, and \<open>werr\<close> the outcome of the write.  The flag tells whether the loop goes
  on; \<^const>\<open>None\<close> would be a panic.
\<close>

definition up_forward :: "byte list \<Rightarrow> gerror option \<Rightarrow> relay \<Rightarrow> (bool \<times> relay) option" where
  "up_forward buf werr s =
     (case DecodeUDPDatagram buf of
        None \<Rightarrow> None
      | Some (Inl _) \<Rightarrow> Some (True, udp_drop ''decode_err_client'' s)
      | Some (Inr dg) \<Rightarrow>
          (case werr of
             Some err \<Rightarrow>
               if errors_Is err ErrClosed then Some (False, s)
               else Some (True, udp_drop ''upstream_write_err'' s)
           | None \<Rightarrow>
               Some (True, s\<lparr>rl_toUp := rl_toUp s @ [buf], rl_pktsUp := rl_pktsUp s + 1,
                 rl_bytesUp := rl_bytesUp s + int (length (ud_Data dg))\<rparr>)))"

definition up_iter ::
  "ip \<Rightarrow> gerror + datagram \<Rightarrow> gerror option \<Rightarrow> relay \<Rightarrow> (bool \<times> relay) option" where
  "up_iter allowedClientIP rres werr s0 =
     (case rres of
        Inl _ \<Rightarrow> Some (False, s0)
      | Inr (buf, src) \<Rightarrow>
          let s = s0\<lparr>rl_fromClient := rl_fromClient s0 @ [(buf, src)]\<rparr> in
          if allowedClientIP \<noteq> [] \<and> \<not> ip_Equal (ua_IP src) allowedClientIP
          then Some (True, udp_drop ''foreign_client_ip'' s)
          else if rl_pin s \<noteq> None \<and> \<not> udpAddrEqual (the (rl_pin s)) src
          then Some (True, udp_drop ''foreign_src'' s)
          else up_forward buf werr (if rl_pin s = None then s\<lparr>rl_pin := Some src\<rparr> else s))"

definition down_iter ::
  "UDPAddr \<Rightarrow> gerror + datagram \<Rightarrow> gerror option \<Rightarrow> relay \<Rightarrow> (bool \<times> relay) option" where
  "down_iter upUDPAddr rres werr s0 =
     (case rres of
        Inl _ \<Rightarrow> Some (False, s0)
      | Inr (buf, src) \<Rightarrow>
          let s = s0\<lparr>rl_fromUp := rl_fromUp s0 @ [(buf, src)]\<rparr> in
          if \<not> udpAddrEqual src upUDPAddr then Some (True, udp_drop ''foreign_upstream_src'' s)
          else
            (case DecodeUDPDatagram buf of
               None \<Rightarrow> None
             | Some (Inl _) \<Rightarrow> Some (True, udp_drop ''decode_err_upstream'' s)
             | Some (Inr dg) \<Rightarrow>
                 (case rl_pin s of
                    None \<Rightarrow> Some (True, udp_drop ''no_pin'' s)
                  | Some clientAddr \<Rightarrow>
                      (case werr of
                         Some err \<Rightarrow>
                           if errors_Is err ErrClosed then Some (False, s)
                           else Some (True, udp_drop ''client_write_err'' s)
                       | None \<Rightarrow>
                           Some (True, s\<lparr>rl_toClient := rl_toClient s @ [(buf, clientAddr)], rl_pktsDown := rl_pktsDown s + 1,
                             rl_bytesDown := rl_bytesDown s + int (length (ud_Data dg))\<rparr>)))))"

inductive relay_step :: "UDPAddr \<Rightarrow> ip \<Rightarrow> relay \<Rightarrow> relay \<Rightarrow> bool" for up allowed where
  up_check: "rl_up s = LTop \<Longrightarrow> relay_step up allowed s (s\<lparr>rl_up := if rl_cancelled s then LExit else LReading\<rparr>)"
| up_round: "rl_up s = LReading \<Longrightarrow> up_iter allowed rres werr s = Some (go, t) \<Longrightarrow>
    relay_step up allowed s (t\<lparr>rl_up := if go then LTop else LExit, rl_cancelled := rl_cancelled s \<or> \<not> go\<rparr>)"
| down_check: "rl_down s = LTop \<Longrightarrow> relay_step up allowed s (s\<lparr>rl_down := if rl_cancelled s then LExit else LReading\<rparr>)"
| down_round: "rl_down s = LReading \<Longrightarrow> down_iter up rres werr s = Some (go, t) \<Longrightarrow>
    relay_step up allowed s (t\<lparr>rl_down := if go then LTop else LExit, rl_cancelled := rl_cancelled s \<or> \<not> go\<rparr>)"
| relay_cancel: "relay_step up allowed s (s\<lparr>rl_cancelled := True\<rparr>)"

section \<open>What the relay lets through\<close>

definition accepted :: "ip \<Rightarrow> datagram \<Rightarrow> bool" where
  "accepted allowed d \<longleftrightarrow> allowed = [] \<or> ip_Equal (ua_IP (snd d)) allowed"

definition socks_datagram :: "byte list \<Rightarrow> bool" where
  "socks_datagram buf = (case DecodeUDPDatagram buf of Some (Inr _) \<Rightarrow> True | _ \<Rightarrow> False)"

definition payload_len :: "byte list \<Rightarrow> int" where
  "payload_len buf = (case DecodeUDPDatagram buf of Some (Inr dg) \<Rightarrow> int (length (ud_Data dg)) | _ \<Rightarrow> 0)"

text \<open>The datagrams that may be forwarded, given what was received and the pinned address.\<close>

definition may_go_up :: "ip \<Rightarrow> UDPAddr option \<Rightarrow> datagram list \<Rightarrow> byte list list" where
  "may_go_up allowed pin ds =
     (case pin of
        None \<Rightarrow> []
      | Some p \<Rightarrow> map fst (filter (\<lambda>d. accepted allowed d \<and> udpAddrEqual p (snd d) \<and> socks_datagram (fst d)) ds))"

definition may_go_down :: "UDPAddr \<Rightarrow> UDPAddr option \<Rightarrow> datagram list \<Rightarrow> datagram list" where
  "may_go_down up pin ds =
     (case pin of
        None \<Rightarrow> []
      | Some p \<Rightarrow> map (\<lambda>d. (fst d, p)) (filter (\<lambda>d. udpAddrEqual (snd d) up \<and> socks_datagram (fst d)) ds))"

definition relay_inv :: "UDPAddr \<Rightarrow> ip \<Rightarrow> relay \<Rightarrow> bool" where
  "relay_inv up allowed s \<longleftrightarrow>
     rl_pin s = map_option snd (List.find (accepted allowed) (rl_fromClient s)) \<and>
     subseq (rl_toUp s) (may_go_up allowed (rl_pin s) (rl_fromClient s)) \<and>
     subseq (rl_toClient s) (may_go_down up (rl_pin s) (rl_fromUp s)) \<and>
     rl_pktsUp s = int (length (rl_toUp s)) \<and> rl_pktsDown s = int (length (rl_toClient s)) \<and>
     rl_bytesUp s = (\<Sum>b\<leftarrow>rl_toUp s. payload_len b) \<and> rl_bytesDown s = (\<Sum>d\<leftarrow>rl_toClient s. payload_len (fst d)) \<and>
     length (rl_toUp s) + length (rl_toClient s) + length (rl_dropped s) \<le> length (rl_fromClient s) + length (rl_fromUp s) \<and>
     length (rl_fromClient s) + length (rl_fromUp s) \<le> length (rl_toUp s) + length (rl_toClient s) + length (rl_dropped s) +
       of_bool (rl_up s = LExit) + of_bool (rl_down s = LExit)"

lemma ip_Equal_refl [simp]: "ip_Equal a a"
  by (simp add: ip_Equal_def)

lemma udpAddrEqual_refl [simp]: "udpAddrEqual a a"
  by (simp add: udpAddrEqual_def)

lemma find_snoc: "List.find P (xs @ [x]) = (case List.find P xs of None \<Rightarrow> if P x then Some x else None | Some y \<Rightarrow> Some y)"
  by (induction xs) auto

lemma find_None_filter: "List.find P xs = None \<Longrightarrow> filter (\<lambda>x. P x \<and> Q x) xs = []"
  by (auto simp: find_None_iff filter_empty_conv)

lemma subseq_snoc: "subseq xs ys \<Longrightarrow> subseq xs (ys @ [y])" "subseq xs ys \<Longrightarrow> subseq (xs @ [y]) (ys @ [y])"
  by (auto intro: subseq_order.order_trans list_emb_append_mono)

lemma subseq_Nil_any: "subseq xs [] \<Longrightarrow> subseq xs ys"
  by (cases xs) auto

text \<open>The effect of receiving one more datagram on what may be forwarded.\<close>

lemma may_go_up_snoc:
  assumes "pin = map_option snd (List.find (accepted allowed) ds)"
    and "pin' = map_option snd (List.find (accepted allowed) (ds @ [(buf, src)]))"
  shows "may_go_up allowed pin' (ds @ [(buf, src)]) = may_go_up allowed pin ds @
    (if accepted allowed (buf, src) \<and> udpAddrEqual (the pin') src \<and> socks_datagram buf then [buf] else [])"
  using assms find_None_filter [of "accepted allowed" ds]
  by (cases "List.find (accepted allowed) ds") (auto simp: may_go_up_def find_snoc)

lemma may_go_down_snoc:
  "may_go_down up pin (ds @ [(buf, src)]) = may_go_down up pin ds @
    (case pin of Some p \<Rightarrow> if udpAddrEqual src up \<and> socks_datagram buf then [(buf, p)] else [] | None \<Rightarrow> [])"
  by (auto simp: may_go_down_def split: option.split)

lemma may_go_down_None: "may_go_down up None ds = []"
  by (simp add: may_go_down_def)

text \<open>A round with a datagram forwards it, drops it with a reason, or ends the loop.\<close>

lemma up_iter_cases:
  assumes "up_iter allowed (Inr (buf, src)) werr s = Some (go, t)"
    and pin: "rl_pin s = map_option snd (List.find (accepted allowed) (rl_fromClient s))"
  defines "pin' \<equiv> map_option snd (List.find (accepted allowed) (rl_fromClient s @ [(buf, src)]))"
  defines "s' \<equiv> s\<lparr>rl_fromClient := rl_fromClient s @ [(buf, src)], rl_pin := pin'\<rparr>"
  obtains (forward) dg where "accepted allowed (buf, src)" "udpAddrEqual (the pin') src" "DecodeUDPDatagram buf = Some (Inr dg)" "go"
      "t = s'\<lparr>rl_toUp := rl_toUp s @ [buf], rl_pktsUp := rl_pktsUp s + 1, rl_bytesUp := rl_bytesUp s + int (length (ud_Data dg))\<rparr>"
    | (drop) reason where "go" "t = s'\<lparr>rl_dropped := rl_dropped s @ [reason]\<rparr>"
    | (fatal) "\<not> go" "t = s'"
proof -
  let ?s1 = "s\<lparr>rl_fromClient := rl_fromClient s @ [(buf, src)]\<rparr>"
  have pins: "rl_pin s \<noteq> None \<or> \<not> accepted allowed (buf, src) \<Longrightarrow> pin' = rl_pin s"
      "rl_pin s = None \<Longrightarrow> accepted allowed (buf, src) \<Longrightarrow> pin' = Some src"
    using pin by (auto simp: pin'_def find_snoc split: option.splits)
  have same: "pin' = rl_pin s \<Longrightarrow> s' = ?s1" by (simp add: s'_def)
  show thesis
  proof (cases "accepted allowed (buf, src) \<and> (rl_pin s = None \<or> udpAddrEqual (the (rl_pin s)) src)")
    case False
    with assms(1) pins(1) obtain reason where "go" "t = ?s1\<lparr>rl_dropped := rl_dropped s @ [reason]\<rparr>" "pin' = rl_pin s"
      by (auto simp: up_iter_def accepted_def udp_drop_def Let_def split: if_splits)
    then show thesis using same by (intro drop) simp_all
  next
    case True
    then have s': "(if rl_pin ?s1 = None then ?s1\<lparr>rl_pin := Some src\<rparr> else ?s1) = s'"
      and eq: "udpAddrEqual (the pin') src"
      using pins same by (cases "rl_pin s"; auto simp: s'_def)+
    have up: "up_iter allowed (Inr (buf, src)) werr s = up_forward buf werr s'"
      using True unfolding s' [symmetric] by (auto simp: up_iter_def accepted_def Let_def)
    have keep: "rl_dropped s' = rl_dropped s" "rl_toUp s' = rl_toUp s" "rl_pktsUp s' = rl_pktsUp s" "rl_bytesUp s' = rl_bytesUp s"
      by (simp_all add: s'_def)
    show thesis
      using assms(1) True eq unfolding up up_forward_def
      by (auto simp: udp_drop_def keep split: option.splits sum.splits if_splits intro: forward drop fatal)
  qed
qed

lemma down_iter_cases:
  assumes "down_iter up (Inr (buf, src)) werr s = Some (go, t)"
  defines "s' \<equiv> s\<lparr>rl_fromUp := rl_fromUp s @ [(buf, src)]\<rparr>"
  obtains (forward) dg p where "udpAddrEqual src up" "DecodeUDPDatagram buf = Some (Inr dg)" "rl_pin s = Some p" "go"
      "t = s'\<lparr>rl_toClient := rl_toClient s @ [(buf, p)], rl_pktsDown := rl_pktsDown s + 1,
        rl_bytesDown := rl_bytesDown s + int (length (ud_Data dg))\<rparr>"
    | (drop) reason where "go" "t = s'\<lparr>rl_dropped := rl_dropped s @ [reason]\<rparr>"
    | (fatal) "\<not> go" "t = s'"
  using assms(1) unfolding down_iter_def Let_def
  by (auto simp: udp_drop_def s'_def split: option.splits sum.splits if_splits intro: that)

lemma payload_len_simp: "DecodeUDPDatagram buf = Some (Inr dg) \<Longrightarrow> socks_datagram buf \<and> payload_len buf = int (length (ud_Data dg))"
  by (simp add: socks_datagram_def payload_len_def)

lemma relay_inv_up:
  assumes "relay_inv up allowed s" and "rl_up s = LReading" and "up_iter allowed rres werr s = Some (go, t)"
  shows "relay_inv up allowed (t\<lparr>rl_up := if go then LTop else LExit, rl_cancelled := c\<rparr>)"
proof (cases rres)
  case (Inl e)
  with assms show ?thesis by (auto simp: up_iter_def relay_inv_def)
next
  case (Inr d)
  obtain buf src where d: "d = (buf, src)" by (cases d)
  have pin: "rl_pin s = map_option snd (List.find (accepted allowed) (rl_fromClient s))" using assms(1) by (simp add: relay_inv_def)
  let ?pin = "map_option snd (List.find (accepted allowed) (rl_fromClient s @ [(buf, src)]))"
  note up = may_go_up_snoc [OF pin refl, of buf src]
  have down: "subseq (rl_toClient s) (may_go_down up ?pin (rl_fromUp s))"
    using assms(1) by (cases "List.find (accepted allowed) (rl_fromClient s)")
      (auto simp: relay_inv_def may_go_down_None find_snoc dest: subseq_Nil_any)
  have sub: "subseq (rl_toUp s) (may_go_up allowed (map_option snd (List.find (accepted allowed) (rl_fromClient s))) (rl_fromClient s))"
    using assms(1) pin unfolding relay_inv_def by metis
  have iter: "up_iter allowed (Inr (buf, src)) werr s = Some (go, t)" using assms(3) Inr d by simp
  from iter pin show ?thesis
  proof (cases rule: up_iter_cases)
    case (forward dg)
    then show ?thesis
      using assms(1,2) down sub payload_len_simp [of buf dg] unfolding relay_inv_def
      by (simp add: up subseq_snoc)
  next
    case (drop reason)
    then show ?thesis
      using assms(1,2) down sub unfolding relay_inv_def by (simp add: up subseq_snoc)
  next
    case fatal
    then show ?thesis
      using assms(1,2) down sub unfolding relay_inv_def by (simp add: up subseq_snoc)
  qed
qed

lemma relay_inv_down:
  assumes "relay_inv up allowed s" and "rl_down s = LReading" and "down_iter up rres werr s = Some (go, t)"
  shows "relay_inv up allowed (t\<lparr>rl_down := if go then LTop else LExit, rl_cancelled := c\<rparr>)"
proof (cases rres)
  case (Inl e)
  with assms show ?thesis by (auto simp: down_iter_def relay_inv_def)
next
  case (Inr d)
  obtain buf src where d: "d = (buf, src)" by (cases d)
  let ?q = "map_option snd (List.find (accepted allowed) (rl_fromClient s))"
  have subs: "subseq (rl_toUp s) (may_go_up allowed ?q (rl_fromClient s))" "subseq (rl_toClient s) (may_go_down up ?q (rl_fromUp s))"
    using assms(1) unfolding relay_inv_def by metis+
  have "down_iter up (Inr (buf, src)) werr s = Some (go, t)" using assms(3) Inr d by simp
  then show ?thesis
  proof (cases rule: down_iter_cases)
    case (forward dg p)
    then show ?thesis
      using assms(1,2) subs payload_len_simp [of buf dg] unfolding relay_inv_def
      by (auto simp: may_go_down_snoc subseq_snoc)
  next
    case (drop reason)
    then show ?thesis
      using assms(1,2) subs unfolding relay_inv_def by (auto simp: may_go_down_snoc subseq_snoc split: option.split)
  next
    case fatal
    then show ?thesis
      using assms(1,2) subs unfolding relay_inv_def by (auto simp: may_go_down_snoc subseq_snoc split: option.split)
  qed
qed

interpretation relay_sys: safety "relay_step up allowed" "relay_inv up allowed" for up allowed
proof unfold_locales
  fix s t
  assume "relay_step up allowed s t" and inv: "relay_inv up allowed s"
  then show "relay_inv up allowed t"
  proof cases
    case (up_round rres werr go t')
    with relay_inv_up [OF inv] show ?thesis by blast
  next
    case (down_round rres werr go t')
    with relay_inv_down [OF inv] show ?thesis by blast
  qed (use inv in \<open>auto simp: relay_inv_def\<close>)
qed

lemma relay_init_inv: "relay_inv up allowed relay_init"
  by (simp add: relay_inv_def relay_init_def may_go_up_def may_go_down_def)

section \<open>Properties\<close>

text \<open>C14. An association relays for one client only, and verbatim: the pinned address is the source of the first
  datagram that came from the address of the control connection; what reaches the upstream is a
  subsequence of the well-formed datagrams from that address and source, unchanged and in order;
  what reaches the client goes to the pinned address and is a subsequence of the well-formed
  datagrams the upstream's relay address sent.  The counters are those of the forwarded datagrams
  and of their payload, every other datagram is counted as dropped except at most one per direction
  whose failed write ended the loop, and no round panics.\<close>
theorem udp_relay_confined:
  assumes "(relay_step up allowed)\<^sup>*\<^sup>* relay_init s"
  shows "rl_pin s = map_option snd (List.find (accepted allowed) (rl_fromClient s)) \<and>
    subseq (rl_toUp s) (may_go_up allowed (rl_pin s) (rl_fromClient s)) \<and>
    subseq (rl_toClient s) (may_go_down up (rl_pin s) (rl_fromUp s)) \<and>
    rl_pktsUp s = int (length (rl_toUp s)) \<and> rl_pktsDown s = int (length (rl_toClient s)) \<and>
    rl_bytesUp s = (\<Sum>b\<leftarrow>rl_toUp s. payload_len b) \<and> rl_bytesDown s = (\<Sum>d\<leftarrow>rl_toClient s. payload_len (fst d)) \<and>
    length (rl_toUp s) + length (rl_toClient s) + length (rl_dropped s) \<le> length (rl_fromClient s) + length (rl_fromUp s) \<and>
    length (rl_fromClient s) + length (rl_fromUp s) \<le> length (rl_toUp s) + length (rl_toClient s) + length (rl_dropped s) + 2 \<and>
    up_iter allowed rres werr s \<noteq> None \<and> down_iter up rres werr s \<noteq> None"
proof -
  have "relay_inv up allowed s" using relay_sys.inv_steps [OF assms relay_init_inv] .
  moreover have "of_bool (rl_up s = LExit) + of_bool (rl_down s = LExit) \<le> (2 :: nat)" by simp
  moreover have "up_iter allowed rres werr s \<noteq> None"
    by (auto simp: up_iter_def up_forward_def Let_def Decode_total split: sum.splits option.splits)
  moreover have "down_iter up rres werr s \<noteq> None"
    by (auto simp: down_iter_def Let_def Decode_total split: sum.splits option.splits)
  ultimately show ?thesis unfolding relay_inv_def by linarith
qed

section \<open>Witnesses\<close>

definition ex_src :: UDPAddr where
  "ex_src = \<lparr>ua_IP = [10, 0, 0, 1], ua_Port = 5000\<rparr>"

definition ex_relay_addr :: UDPAddr where
  "ex_relay_addr = \<lparr>ua_IP = [10, 0, 0, 2], ua_Port = 6000\<rparr>"

definition ex_packet :: "byte list" where
  "ex_packet = [0, 0, 0, 1, 8, 8, 8, 8, 0, 53, 42]"

definition ex_relayed :: relay where
  "ex_relayed = relay_init\<lparr>rl_pin := Some ex_src, rl_toUp := [ex_packet], rl_pktsUp := 1, rl_bytesUp := 1,
     rl_fromClient := [(ex_packet, ex_src)]\<rparr>"

lemma ex_relayed_run: "(relay_step ex_relay_addr [10, 0, 0, 1])\<^sup>*\<^sup>* relay_init ex_relayed"
proof -
  have "relay_step ex_relay_addr [10, 0, 0, 1] relay_init (relay_init\<lparr>rl_up := LReading\<rparr>)"
    using up_check [of relay_init ex_relay_addr "[10, 0, 0, 1]"] by (simp add: relay_init_def)
  moreover have "up_iter [10, 0, 0, 1] (Inr (ex_packet, ex_src)) None (relay_init\<lparr>rl_up := LReading\<rparr>) =
      Some (True, ex_relayed\<lparr>rl_up := LReading\<rparr>)"
    by (simp add: up_iter_def up_forward_def ex_packet_def ex_src_def ex_relayed_def relay_init_def DecodeUDPDatagram_def
        go_index_def go_slice_def udp_port_data_def AtypIPv4_def Let_def)
  then have "relay_step ex_relay_addr [10, 0, 0, 1] (relay_init\<lparr>rl_up := LReading\<rparr>) ex_relayed"
    using up_round [of "relay_init\<lparr>rl_up := LReading\<rparr>" "[10, 0, 0, 1]" "Inr (ex_packet, ex_src)" None True
        "ex_relayed\<lparr>rl_up := LReading\<rparr>" ex_relay_addr]
    by (simp add: ex_relayed_def relay_init_def)
  ultimately show ?thesis by (rule converse_rtranclp_into_rtranclp [OF _ r_into_rtranclp])
qed

lemma ex_relayed_fields:
  "rl_toUp ex_relayed = [ex_packet]" "rl_pin ex_relayed = Some ex_src" "rl_fromClient ex_relayed = [(ex_packet, ex_src)]"
  "rl_bytesUp ex_relayed = 1"
  by (simp_all add: ex_relayed_def)

theorem udp_relay_confined_witness:
  "subseq (rl_toUp ex_relayed) (may_go_up [10, 0, 0, 1] (rl_pin ex_relayed) (rl_fromClient ex_relayed)) \<and>
   rl_bytesUp ex_relayed = (\<Sum>b\<leftarrow>rl_toUp ex_relayed. payload_len b) \<and> rl_toUp ex_relayed = [ex_packet]"
  using udp_relay_confined [OF ex_relayed_run, of "Inl (IOErr EOF)" None] ex_relayed_fields(1) by blast

end
