(* ===== verification/Session.thy ===== *)
theory Session
  imports Pipe UDP_Relay "HOL-Library.Multiset"
begin

text \<open>
  One client session from its first byte to its last deferred call: \<open>handleClient\<close>
  (\<^verbatim>\<open>internal/balancer/session.go\<close>), \<open>handleConnect\<close> and \<open>dialAndHandshakeUpstream\<close>
  (\<^verbatim>\<open>session_connect.go\<close>), \<open>handleUDPAssociate\<close> (\<^verbatim>\<open>session_udp.go\<close>) and \<open>probe\<close> (\<^verbatim>\<open>health.go\<close>).

  A handler is a function of the client's connection and of what the calls that leave the
  process returned: the slot that \<open>acquireSlot\<close> gave, the result of the dial, of the name service
  and of binding sockets, the state in which the tunnel or the datagram relay ended.  The protocol
  exchanges themselves run the functions of \<open>Socks5\<close>.  The result is the client's connection and
  the list of events, in order: what the handler did to the balancer, to sockets and to metrics,
  deferred calls included.  How the events about slots act on the shared balancer is the subject
  of \<open>Queue\<close>.
\<close>

section \<open>Events\<close>

datatype sock = ClientSock | UpSock

datatype sevent =
    TrackClient | UntrackClient | CloseClient
  | RejectedTotal string
  | SocksRequest string string
  | Sent "byte list"
  | SocksReply string
  | NoUpstream
  | Acquired pooled
  | ReleaseSlot pooled
  | AssignSession string int
  | Dialed string
  | OpenedUp
  | RecordedFailure pooled string
  | RecordedSuccess pooled
  | ObservedLatency pooled int
  | TrackUp | UntrackUp | CloseUp
  | ActiveSessions int
  | RunPipe conn conn
  | SessionBytes nat nat
  | OpenedSock sock ip
  | ClosedSock sock
  | UDPAssocActive int
  | RunRelay UDPAddr ip
  | UDPTotals int int int int
  | UpProbe string

text \<open>Writing to the client; the callers ignore the error.\<close>

definition client_Write :: "byte list \<Rightarrow> bufio \<Rightarrow> sevent list \<times> bufio" where
  "client_Write bs b = (case bufio_Write bs b of (_, _, b') \<Rightarrow> ([Sent bs], b'))"

definition send_reply :: "byte \<Rightarrow> bufio \<Rightarrow> sevent list \<times> bufio" where
  "send_reply code b =
     (case client_Write (ReplyBytes code) b of (evs, b') \<Rightarrow> (evs @ [SocksReply (ReplyLabel code)], b'))"

section \<open>Dialling\<close>

text \<open>\<open>dial\<close> is what \<open>DialContext\<close> returned and \<open>took\<close> how long dial and handshake lasted.\<close>

definition dialAndHandshakeUpstream ::
  "gerror + conn \<Rightarrow> int \<Rightarrow> pooled \<Rightarrow> sevent list \<times> (gerror + conn)" where
  "dialAndHandshakeUpstream dial took p =
     (case dial of
        Inl err \<Rightarrow> ([Dialed (Addr (fst p)), RecordedFailure p ''dial''], Inl err)
      | Inr c \<Rightarrow>
          (case run_state (ClientHandshake conn_io (up_Username (fst p)) (up_Password (fst p))) c of
             (Some err, _) \<Rightarrow>
               ([Dialed (Addr (fst p)), OpenedUp, RecordedFailure p ''handshake'', CloseUp], Inl err)
           | (None, c') \<Rightarrow> ([Dialed (Addr (fst p)), OpenedUp, ObservedLatency p took], Inr c')))"

definition probe :: "gerror + conn \<Rightarrow> Upstream \<Rightarrow> sevent list \<times> gerror option" where
  "probe dial u =
     (case dial of
        Inl err \<Rightarrow> ([Dialed (Addr u), UpProbe ''dial_err''], Some err)
      | Inr c \<Rightarrow>
          (case run_state (ClientHandshake conn_io (up_Username u) (up_Password u)) c of
             (Some err, _) \<Rightarrow> ([Dialed (Addr u), OpenedUp, CloseUp, UpProbe ''handshake_err''], Some err)
           | (None, _) \<Rightarrow> ([Dialed (Addr u), OpenedUp, CloseUp, UpProbe ''ok''], None)))"

section \<open>CONNECT\<close>

definition select_ctx :: "Config \<Rightarrow> net_addr \<Rightarrow> Request \<Rightarrow> SelectCtx" where
  "select_ctx cfg remote req =
     \<lparr>sc_ClientAddr = Some (addr_String remote), sc_DstHost = rq_DstLabel req, sc_DstPort = rq_Port req,
      sc_HashKey = cf_HashKey cfg\<rparr>"

record connect_env =
  ce_acquire :: "SelectCtx \<Rightarrow> pooled option"
  ce_dial :: "gerror + conn"
  ce_took :: int
  ce_pipe :: pipe

definition closing_up :: "pooled \<Rightarrow> sevent list" where
  "closing_up p = [CloseUp, UntrackUp, ReleaseSlot p]"

definition connect_upstream :: "connect_env \<Rightarrow> Request \<Rightarrow> pooled \<Rightarrow> conn \<Rightarrow> bufio \<Rightarrow> sevent list \<times> bufio" where
  "connect_upstream env req p up b =
     (case run_state (ClientConnect conn_io (rq_Atyp req) (rq_RawAddr req) (rq_Port req)) up of
        ((_, Some err), _) \<Rightarrow>
          (case send_reply RepGeneralFailure b of (evs, b') \<Rightarrow> ([RecordedFailure p ''connect''] @ evs, b'))
      | ((reply, None), up') \<Rightarrow>
          (case send_reply (rp_Rep reply) b of
             (evs, b') \<Rightarrow>
               if rp_Rep reply \<noteq> RepSuccess then (evs @ [RecordedSuccess p], b')
               else (evs @ [RecordedSuccess p, ActiveSessions 1, RunPipe (b_rd b') up', ActiveSessions (- 1),
                       SessionBytes (pp_up (ce_pipe env)) (pp_down (ce_pipe env))],
                     b'\<lparr>b_rd := pp_client (ce_pipe env)\<rparr>)))"

definition handleConnect :: "connect_env \<Rightarrow> Config \<Rightarrow> net_addr \<Rightarrow> Request \<Rightarrow> bufio \<Rightarrow> sevent list \<times> bufio" where
  "handleConnect env cfg remote req b =
     (case ce_acquire env (select_ctx cfg remote req) of
        None \<Rightarrow> (case send_reply RepGeneralFailure b of (evs, b') \<Rightarrow> ([NoUpstream] @ evs, b'))
      | Some p \<Rightarrow>
          let pre = [Acquired p, AssignSession (up_ID (fst p)) (up_Priority (fst p))] in
          (case dialAndHandshakeUpstream (ce_dial env) (ce_took env) p of
             (dialed, Inl err) \<Rightarrow>
               (case send_reply RepGeneralFailure b of (evs, b') \<Rightarrow> (pre @ dialed @ evs @ [ReleaseSlot p], b'))
           | (dialed, Inr up) \<Rightarrow>
               (case connect_upstream env req p up b of
                  (evs, b') \<Rightarrow> (pre @ dialed @ [TrackUp] @ evs @ closing_up p, b'))))"

section \<open>UDP ASSOCIATE\<close>

record udp_env =
  ue_acquire :: "SelectCtx \<Rightarrow> pooled option"
  ue_dial :: "gerror + conn"
  ue_took :: int
  ue_resolve :: "string \<Rightarrow> gerror + UDPAddr"
  ue_listen :: "sock \<Rightarrow> ip \<Rightarrow> gerror + UDPAddr"
  ue_tcpLocal :: net_addr
  ue_relay :: relay
  ue_client :: bufio

text \<open>The relay with the two sockets bound; the flag of \<open>Write\<close> is looked at here.\<close>

definition udp_run :: "udp_env \<Rightarrow> Config \<Rightarrow> net_addr \<Rightarrow> UDPAddr \<Rightarrow> UDPAddr \<Rightarrow> bufio \<Rightarrow> sevent list \<times> bufio" where
  "udp_run env cfg remote upUDPAddr localAddr b =
     (case udpAdvertiseIP cfg (Some localAddr) (ue_tcpLocal env) of
        Inl err \<Rightarrow> send_reply RepGeneralFailure b
      | Inr advertiseIP \<Rightarrow>
          let replyBytes = BuildReply RepSuccess (Some advertiseIP) (of_int (ua_Port localAddr)) in
          (case bufio_Write replyBytes b of
             (_, Some err, b') \<Rightarrow> ([Sent replyBytes], b')
           | (_, None, b') \<Rightarrow>
               let r = ue_relay env in
               ([Sent replyBytes, SocksReply (ReplyLabel RepSuccess), UDPAssocActive 1,
                 RunRelay upUDPAddr (tcpRemoteIP remote),
                 UDPTotals (rl_bytesUp r) (rl_bytesDown r) (rl_pktsUp r) (rl_pktsDown r), UDPAssocActive (- 1)],
                ue_client env)))"

definition udp_sockets :: "udp_env \<Rightarrow> Config \<Rightarrow> net_addr \<Rightarrow> UDPAddr \<Rightarrow> bufio \<Rightarrow> sevent list \<times> bufio" where
  "udp_sockets env cfg remote upUDPAddr b =
     (let bindIP = (case ParseIP (udpBindHost cfg) of None \<Rightarrow> IPv4zero | Some a \<Rightarrow> a) in
      case ue_listen env ClientSock bindIP of
        Inl err \<Rightarrow> send_reply RepGeneralFailure b
      | Inr localAddr \<Rightarrow>
          let upBindIP = (if ua_IP upUDPAddr \<noteq> [] \<and> To4 (ua_IP upUDPAddr) = None then IPv6unspecified else IPv4zero) in
          (case ue_listen env UpSock upBindIP of
             Inl err \<Rightarrow>
               (case send_reply RepGeneralFailure b of
                  (evs, b') \<Rightarrow> ([OpenedSock ClientSock bindIP] @ evs @ [ClosedSock ClientSock], b'))
           | Inr _ \<Rightarrow>
               (case udp_run env cfg remote upUDPAddr localAddr b of
                  (evs, b') \<Rightarrow>
                    ([OpenedSock ClientSock bindIP, OpenedSock UpSock upBindIP] @ evs @
                     [ClosedSock UpSock, ClosedSock ClientSock], b'))))"

definition associate_upstream ::
  "udp_env \<Rightarrow> Config \<Rightarrow> net_addr \<Rightarrow> Request \<Rightarrow> pooled \<Rightarrow> conn \<Rightarrow> bufio \<Rightarrow> sevent list \<times> bufio" where
  "associate_upstream env cfg remote req p up b =
     (case run_state (ClientUDPAssociate conn_io (rq_Atyp req) (rq_RawAddr req) (rq_Port req)) up of
        ((_, Some err), _) \<Rightarrow>
          (case send_reply RepGeneralFailure b of (evs, b') \<Rightarrow> ([RecordedFailure p ''udp_associate''] @ evs, b'))
      | ((reply, None), _) \<Rightarrow>
          if rp_Rep reply \<noteq> RepSuccess then send_reply (rp_Rep reply) b
          else
            (case resolveUpstreamUDPAddr (ue_resolve env) reply (up_Host (fst p)) of
               Inl err \<Rightarrow> (case send_reply RepGeneralFailure b of (evs, b') \<Rightarrow> ([RecordedSuccess p] @ evs, b'))
             | Inr upUDPAddr \<Rightarrow>
                 if ua_Port upUDPAddr = 0
                 then (case send_reply RepGeneralFailure b of (evs, b') \<Rightarrow> ([RecordedSuccess p] @ evs, b'))
                 else (case udp_sockets env cfg remote upUDPAddr b of (evs, b') \<Rightarrow> ([RecordedSuccess p] @ evs, b'))))"

definition handleUDPAssociate :: "udp_env \<Rightarrow> Config \<Rightarrow> net_addr \<Rightarrow> Request \<Rightarrow> bufio \<Rightarrow> sevent list \<times> bufio" where
  "handleUDPAssociate env cfg remote req b =
     (case ue_acquire env (select_ctx cfg remote req) of
        None \<Rightarrow> (case send_reply RepGeneralFailure b of (evs, b') \<Rightarrow> ([NoUpstream] @ evs, b'))
      | Some p \<Rightarrow>
          let pre = [Acquired p, AssignSession (up_ID (fst p)) (up_Priority (fst p))] in
          (case dialAndHandshakeUpstream (ue_dial env) (ue_took env) p of
             (dialed, Inl err) \<Rightarrow>
               (case send_reply RepGeneralFailure b of (evs, b') \<Rightarrow> (pre @ dialed @ evs @ [ReleaseSlot p], b'))
           | (dialed, Inr up) \<Rightarrow>
               (case associate_upstream env cfg remote req p up b of
                  (evs, b') \<Rightarrow> (pre @ dialed @ [TrackUp] @ evs @ closing_up p, b'))))"

section \<open>The session\<close>

definition handle_request ::
  "connect_env \<Rightarrow> udp_env \<Rightarrow> Config \<Rightarrow> net_addr \<Rightarrow> Request \<Rightarrow> bufio \<Rightarrow> sevent list \<times> bufio" where
  "handle_request cenv uenv cfg remote req b =
     (if rq_Cmd req = CmdConnect then handleConnect cenv cfg remote req b
      else if rq_Cmd req = CmdUDPAssociate then
        (if \<not> cf_UDPEnabled cfg then send_reply RepCommandNotSupported b
         else handleUDPAssociate uenv cfg remote req b)
      else send_reply RepCommandNotSupported b)"

text \<open>What greeting and request have already written to the client is seen in the connection only.\<close>

definition session_body ::
  "connect_env \<Rightarrow> udp_env \<Rightarrow> Config \<Rightarrow> net_addr \<Rightarrow> conn \<Rightarrow> sevent list \<times> bufio" where
  "session_body cenv uenv cfg remote client =
     (case run_state (ReadGreeting bufio_io) (NewReaderSize client) of
        (Some err, b1) \<Rightarrow> ([RejectedTotal ''greet_failed''], b1)
      | (None, b1) \<Rightarrow>
          (case run_state (ReadRequest bufio_io) b1 of
             ((Inl err, replyWritten), b2) \<Rightarrow>
               ([SocksRequest ''unknown'' ''parse_err''] @
                (if replyWritten \<noteq> 0 then [SocksReply (ReplyLabel replyWritten)] else []), b2)
           | ((Inr req, _), b2) \<Rightarrow>
               (case handle_request cenv uenv cfg remote req b2 of
                  (evs, b3) \<Rightarrow> ([SocksRequest (AtypLabel (rq_Atyp req)) ''ok''] @ evs, b3))))"

definition handleClient ::
  "connect_env \<Rightarrow> udp_env \<Rightarrow> Config \<Rightarrow> net_addr \<Rightarrow> conn \<Rightarrow> sevent list \<times> bufio" where
  "handleClient cenv uenv cfg remote client =
     (case session_body cenv uenv cfg remote client of
        (evs, b) \<Rightarrow> ([TrackClient] @ evs @ [CloseClient, UntrackClient], b))"

section \<open>The ledger of resources\<close>

text \<open>
  A session may hold its client connection, the slot of an upstream, a connection to it, the two
  sockets and entries in the set of tracked connections.  \<open>ledger\<close> runs through the events and
  fails on an event that is out of order: opening a second slot or connection, using or giving
  back what is not held, giving back the slot while the connection or a socket is still open, or
  starting a tunnel or a relay without what it needs.
\<close>

datatype resource = RClient | RSlot pooled | RUp | RTracked | RSock sock

fun ledger_step :: "sevent \<Rightarrow> resource multiset \<Rightarrow> resource multiset option" where
  "ledger_step TrackClient R = (if R = {#} then Some {#RClient, RTracked#} else None)"
| "ledger_step CloseClient R = (if R = {#RClient, RTracked#} then Some {#RTracked#} else None)"
| "ledger_step UntrackClient R = (if R = {#RTracked#} then Some {#} else None)"
| "ledger_step (Acquired p) R = (if R = {#RClient, RTracked#} then Some (add_mset (RSlot p) R) else None)"
| "ledger_step (ReleaseSlot p) R = (if R = {#RSlot p, RClient, RTracked#} then Some (R - {#RSlot p#}) else None)"
| "ledger_step OpenedUp R = (if RUp \<notin># R then Some (add_mset RUp R) else None)"
| "ledger_step CloseUp R = (if RUp \<in># R then Some (R - {#RUp#}) else None)"
| "ledger_step TrackUp R = (if RUp \<in># R \<and> count R RTracked = 1 then Some (add_mset RTracked R) else None)"
| "ledger_step UntrackUp R = (if count R RTracked = 2 then Some (R - {#RTracked#}) else None)"
| "ledger_step (OpenedSock k _) R = (if RUp \<in># R \<and> RSock k \<notin># R then Some (add_mset (RSock k) R) else None)"
| "ledger_step (ClosedSock k) R = (if RSock k \<in># R then Some (R - {#RSock k#}) else None)"
| "ledger_step (RecordedFailure p _) R = (if RSlot p \<in># R then Some R else None)"
| "ledger_step (RecordedSuccess p) R = (if RSlot p \<in># R \<and> RUp \<in># R then Some R else None)"
| "ledger_step (RunPipe _ _) R = (if RClient \<in># R \<and> RUp \<in># R then Some R else None)"
| "ledger_step (RunRelay _ _) R =
     (if RClient \<in># R \<and> RUp \<in># R \<and> RSock ClientSock \<in># R \<and> RSock UpSock \<in># R then Some R else None)"
| "ledger_step (Sent _) R = (if RClient \<in># R then Some R else None)"
| "ledger_step _ R = Some R"

fun ledger :: "sevent list \<Rightarrow> resource multiset \<Rightarrow> resource multiset option" where
  "ledger [] R = Some R"
| "ledger (e # es) R = (case ledger_step e R of None \<Rightarrow> None | Some R' \<Rightarrow> ledger es R')"

lemma ledger_append: "ledger (xs @ ys) R = (case ledger xs R of None \<Rightarrow> None | Some R' \<Rightarrow> ledger ys R')"
  by (induction xs arbitrary: R) (auto split: option.split)

lemma ledger_reply [simp]: "RClient \<in># R \<Longrightarrow> ledger (fst (send_reply code b)) R = Some R"
  by (simp add: send_reply_def client_Write_def split: prod.split)

text \<open>With a slot and a tracked connection to its upstream, the rest of a handler keeps what is held.\<close>

abbreviation serving :: "pooled \<Rightarrow> resource multiset" where
  "serving p \<equiv> {#RTracked, RUp, RSlot p, RClient, RTracked#}"

lemma ledger_connect: "ledger (fst (connect_upstream env req p up b)) (serving p) = Some (serving p)"
  by (simp add: connect_upstream_def ledger_append case_prod_unfold split: option.split)

lemma ledger_udp_run:
  "RClient \<in># R \<Longrightarrow> RUp \<in># R \<Longrightarrow> RSock ClientSock \<in># R \<Longrightarrow> RSock UpSock \<in># R \<Longrightarrow>
   ledger (fst (udp_run env cfg remote up local b)) R = Some R"
  by (simp add: udp_run_def ledger_append case_prod_unfold Let_def split: sum.split option.split)

lemma ledger_sockets: "ledger (fst (udp_sockets env cfg remote up b)) (serving p) = Some (serving p)"
  using ledger_udp_run [of "add_mset (RSock UpSock) (add_mset (RSock ClientSock) (serving p))" env cfg remote up _ b]
  by (simp add: udp_sockets_def ledger_append case_prod_unfold Let_def split: sum.split)

lemma ledger_associate: "ledger (fst (associate_upstream env cfg remote req p up b)) (serving p) = Some (serving p)"
  by (simp add: associate_upstream_def ledger_append case_prod_unfold ledger_sockets split: option.split sum.split)

lemma ledger_dial:
  "ledger (fst (dialAndHandshakeUpstream dial took p)) {#RSlot p, RClient, RTracked#} =
     Some (case snd (dialAndHandshakeUpstream dial took p) of
       Inl _ \<Rightarrow> {#RSlot p, RClient, RTracked#} | Inr _ \<Rightarrow> {#RUp, RSlot p, RClient, RTracked#})"
  by (simp add: dialAndHandshakeUpstream_def case_prod_unfold split: sum.split option.split)

lemma ledger_closing: "ledger (closing_up p) (serving p) = Some {#RClient, RTracked#}"
  by (simp add: closing_up_def)

lemma ledger_handlers:
  "ledger (fst (handleConnect cenv cfg remote req b)) {#RClient, RTracked#} = Some {#RClient, RTracked#}"
  "ledger (fst (handleUDPAssociate uenv cfg remote req b)) {#RClient, RTracked#} = Some {#RClient, RTracked#}"
  by (simp_all add: handleConnect_def handleUDPAssociate_def ledger_append case_prod_unfold Let_def
      ledger_dial ledger_connect ledger_associate ledger_closing split: option.split sum.split)

text \<open>A connection that takes everything written to it keeps doing so.\<close>

lemma ReadGreeting_wres: "run_state (ReadGreeting stream_io) s = (r, s') \<Longrightarrow> st_wres s = [] \<Longrightarrow> st_wres s' = []"
  by (auto simp: ReadGreeting_def stream_ReadFull_def split: if_splits sum.splits)

lemma ClientHandshake_wres: "run_state (ClientHandshake stream_io u p) s = (r, s') \<Longrightarrow> st_wres s = [] \<Longrightarrow> st_wres s' = []"
  by (auto simp: ClientHandshake_def userPassAuth_def stream_ReadFull_def Let_def split: if_splits sum.splits)

lemma send_reply_out:
  assumes "c_wres (b_rd b) = []"
  shows "b_buf (snd (send_reply code b)) = b_buf b" "c_in (b_rd (snd (send_reply code b))) = c_in (b_rd b)"
    "c_out (b_rd (snd (send_reply code b))) = c_out (b_rd b) @ ReplyBytes code"
  using assms by (simp_all add: send_reply_def client_Write_def bufio_Write_def conn_Write_def)

text \<open>The only event that starts a tunnel.\<close>

lemma reply_no_pipe: "RunPipe c u \<notin> set (fst (send_reply code b))"
  by (simp add: send_reply_def client_Write_def split: prod.split)

lemma connect_pipe:
  assumes "RunPipe c u \<in> set (fst (connect_upstream env req p up b))"
  obtains reply where "run_state (ClientConnect conn_io (rq_Atyp req) (rq_RawAddr req) (rq_Port req)) up = ((reply, None), u)"
    "rp_Rep reply = RepSuccess" "c = b_rd (snd (send_reply RepSuccess b))"
  using assms by (auto simp: connect_upstream_def reply_no_pipe case_prod_unfold prod_eq_iff split: option.splits if_splits)

lemma dial_no_pipe: "RunPipe c u \<notin> set (fst (dialAndHandshakeUpstream dial took p))"
  by (auto simp: dialAndHandshakeUpstream_def split: sum.split prod.split option.split)

lemma udp_no_pipe: "RunPipe c u \<notin> set (fst (handleUDPAssociate env cfg remote req b))"
  by (auto simp: handleUDPAssociate_def associate_upstream_def udp_sockets_def udp_run_def closing_up_def case_prod_unfold Let_def
      reply_no_pipe dial_no_pipe split: option.splits sum.splits if_splits)

lemma handleConnect_pipe:
  assumes "RunPipe c u \<in> set (fst (handleConnect env cfg remote req b))"
  obtains p evs up where "ce_acquire env (select_ctx cfg remote req) = Some p"
    "dialAndHandshakeUpstream (ce_dial env) (ce_took env) p = (evs, Inr up)"
    "RunPipe c u \<in> set (fst (connect_upstream env req p up b))"
proof (cases "ce_acquire env (select_ctx cfg remote req)")
  case None
  with assms show thesis by (simp add: handleConnect_def reply_no_pipe case_prod_unfold)
next
  case (Some p)
  obtain evs r where d: "dialAndHandshakeUpstream (ce_dial env) (ce_took env) p = (evs, r)" by fastforce
  with dial_no_pipe [of c u "ce_dial env" "ce_took env" p] have "RunPipe c u \<notin> set evs" by simp
  with assms Some d that show thesis
    by (cases r) (auto simp: handleConnect_def reply_no_pipe case_prod_unfold Let_def closing_up_def)
qed

lemma session_pipe:
  assumes "RunPipe c u \<in> set (fst (handleClient cenv uenv cfg remote client))"
  obtains b1 req code b2 where "run_state (ReadGreeting bufio_io) (NewReaderSize client) = (None, b1)"
    "run_state (ReadRequest bufio_io) b1 = ((Inr req, code), b2)" "rq_Cmd req = CmdConnect"
    "RunPipe c u \<in> set (fst (handleConnect cenv cfg remote req b2))"
  using assms
  by (auto simp: handleClient_def session_body_def handle_request_def reply_no_pipe udp_no_pipe
      split: prod.splits option.splits sum.splits if_splits)
     (metis fst_conv reply_no_pipe udp_no_pipe that)+

section \<open>Properties\<close>

text \<open>C2. Whatever the client, the upstream, the name service and the network do, a session keeps its books: a slot it
  acquired is released exactly once, after the connection to the upstream and both UDP sockets are
  closed and that connection is no longer tracked; failures and successes are recorded only for
  the upstream whose slot is held; nothing is written to the client after it is closed; a tunnel or
  relay runs only with everything it uses open; and at the end nothing is left open or tracked.\<close>
theorem session_balanced: "ledger (fst (handleClient cenv uenv cfg remote client)) {#} = Some {#}"
  by (simp add: handleClient_def session_body_def handle_request_def ledger_append case_prod_unfold ledger_handlers
      split: option.split sum.split)

lemma dial_up:
  assumes "dialAndHandshakeUpstream dial took p = (evs, Inr up)"
  obtains up0 where "dial = Inr up0"
    "run_state (ClientHandshake conn_io (up_Username (fst p)) (up_Password (fst p))) up0 = (None, up)"
  using assms by (auto simp: dialAndHandshakeUpstream_def split: sum.splits prod.splits option.splits)

lemma upstream_sent:
  assumes "run_state (ClientHandshake conn_io user pass) up0 = (r, up)"
    and "run_state (ClientConnect conn_io atyp raw port) up = (res, u)" and "c_wres up0 = []"
  shows "c_out u = c_out up0 @ client_greeting user pass @
    (if asks_creds (concat (c_in up0)) user pass then auth_message user pass else []) @ request_bytes CmdConnect atyp raw port"
proof -
  note hs = st_simD [OF tcp.ClientHandshake_sim assms(1)]
  have "st_wres (conn_stream up0) = []" using assms(3) by (simp add: conn_stream_def)
  with ClientHandshake_stream(1) [OF hs] ClientHandshake_wres [OF hs] have
    "st_wres (conn_stream up) = []" "c_out up = c_out up0 @ client_greeting user pass @
      (if asks_creds (concat (c_in up0)) user pass then auth_message user pass else [])"
    by (simp_all add: conn_stream_def)
  with clientRequest_out [OF st_simD [OF tcp.clientRequest_sim assms(2) [unfolded ClientConnect_def]]] show ?thesis
    by (simp add: conn_stream_def)
qed


text \<open>Reading through the session's buffered reader: from its buffer, and from a segment that fits it.\<close>

lemma ReadFull_buffered:
  "n \<le> length (b_buf b) \<Longrightarrow> ReadFull bufio_io n b = (Inr (take n (b_buf b)), b\<lparr>b_buf := drop n (b_buf b)\<rparr>)"
  by (cases n) (auto simp: ReadFull_def bufio_io_def bufio_Read_def ReadFull_loop.simps)

lemma ReadFull_segment:
  assumes "b_buf b = []" and "dropWhile (\<lambda>seg. seg = []) (c_in (b_rd b)) = seg # segs" and "0 < n" and "n \<le> length seg"
    and "n < bufio_size" and "length seg \<le> bufio_size"
  shows "ReadFull bufio_io n b = (Inr (take n seg), \<lparr>b_buf = drop n seg, b_rd = (b_rd b)\<lparr>c_in := [] # segs\<rparr>\<rparr>)"
  using assms by (cases n) (auto simp: ReadFull_def bufio_io_def bufio_Read_def conn_Read_def ReadFull_loop.simps)

text \<open>A client that sends data together with its CONNECT request leaves it in the reader's buffer.\<close>

lemma pipelined_read:
  assumes "c_in client = [Version, 1, AuthNone] # (request_bytes CmdConnect AtypIPv4 raw port @ data) # segs"
    and "length raw = 4" and "length data + 10 \<le> bufio_size" and "c_wres client = []"
  defines "b1 \<equiv> \<lparr>b_buf = [], b_rd = client\<lparr>c_in := [] # (request_bytes CmdConnect AtypIPv4 raw port @ data) # segs,
      c_out := c_out client @ [Version, AuthNone]\<rparr>\<rparr>"
  shows "run_state (ReadGreeting bufio_io) (NewReaderSize client) = (None, b1)"
    and "run_state (ReadRequest bufio_io) b1 =
      ((Inr \<lparr>rq_Cmd = CmdConnect, rq_Atyp = AtypIPv4, rq_RawAddr = raw, rq_Port = port, rq_DstLabel = ip_String raw\<rparr>, 0),
       b1\<lparr>b_buf := data, b_rd := (b_rd b1)\<lparr>c_in := [] # segs\<rparr>\<rparr>)"
proof -
  let ?b0 = "\<lparr>b_buf = [AuthNone], b_rd = client\<lparr>c_in := [] # (request_bytes CmdConnect AtypIPv4 raw port @ data) # segs\<rparr>\<rparr>"
  have 1: "ReadFull bufio_io 2 (NewReaderSize client) = (Inr [Version, 1], ?b0)"
    using ReadFull_segment [of "NewReaderSize client" "[Version, 1, AuthNone]" "(request_bytes CmdConnect AtypIPv4 raw port @ data) # segs" 2]
      assms(1) by (simp add: NewReaderSize_def bufio_size_def numeral_2_eq_2)
  have 2: "ReadFull bufio_io (Suc 0) ?b0 = (Inr [AuthNone], ?b0\<lparr>b_buf := []\<rparr>)"
    using ReadFull_buffered [of "Suc 0" ?b0] by simp
  from 1 2 assms(4) show "run_state (ReadGreeting bufio_io) (NewReaderSize client) = (None, b1)"
    by (simp add: ReadGreeting_def rd_def wr_def bufio_io_def bufio_Write_def conn_Write_def b1_def proto_consts)
  let ?seg = "request_bytes CmdConnect AtypIPv4 raw port @ data"
  let ?b2 = "\<lparr>b_buf = raw @ put_u16 port @ data, b_rd = (b_rd b1)\<lparr>c_in := [] # segs\<rparr>\<rparr>"
  have seg: "take 4 ?seg = [Version, CmdConnect, 0, AtypIPv4]" "drop 4 ?seg = raw @ put_u16 port @ data" "request_bytes CmdConnect AtypIPv4 raw port \<noteq> []"
    "length ?seg = 10 + length data"
    using assms(2) by (simp_all add: request_bytes_def put_u16_def numeral_eq_Suc)
  have 3: "ReadFull bufio_io 4 b1 = (Inr [Version, CmdConnect, 0, AtypIPv4], ?b2)"
    using ReadFull_segment [of b1 ?seg segs 4] seg assms(3) by (simp add: b1_def bufio_size_def)
  have 4: "ReadFull bufio_io 4 ?b2 = (Inr raw, ?b2\<lparr>b_buf := put_u16 port @ data\<rparr>)"
    using ReadFull_buffered [of 4 ?b2] assms(2) by simp
  have 5: "ReadFull bufio_io 2 (?b2\<lparr>b_buf := put_u16 port @ data\<rparr>) = (Inr (put_u16 port), ?b2\<lparr>b_buf := data\<rparr>)"
    using ReadFull_buffered [of 2 "?b2\<lparr>b_buf := put_u16 port @ data\<rparr>"] by (simp add: put_u16_def)
  from 3 4 5 show "run_state (ReadRequest bufio_io) b1 =
      ((Inr \<lparr>rq_Cmd = CmdConnect, rq_Atyp = AtypIPv4, rq_RawAddr = raw, rq_Port = port, rq_DstLabel = ip_String raw\<rparr>, 0),
       b1\<lparr>b_buf := data, b_rd := (b_rd b1)\<lparr>c_in := [] # segs\<rparr>\<rparr>)"
    by (simp add: ReadRequest_def readDest_def readPort_def rd_def b1_def CmdConnect_def CmdUDPAssociate_def)
qed

text \<open>C37. Data that a client sends in the same segment as its CONNECT request is lost: \<open>handleClient\<close> parses the request
  through a buffered reader and the tunnel reads the connection itself, so the bytes the reader has
  taken stay in its buffer.  The tunnel starts, the client is told that the request succeeded, and in
  no run of the tunnel does the upstream receive a byte of that data.\<close>
theorem pipelined_data_lost:
  assumes "c_in client = [Version, 1, AuthNone] # (request_bytes CmdConnect AtypIPv4 raw port @ data) # segs"
    and "length raw = 4" and "length data + 10 \<le> bufio_size" and "c_wres client = []"
    and "\<And>sc. ce_acquire cenv sc = Some p" and "ce_dial cenv = Inr up0"
    and "run_state (ClientHandshake conn_io (up_Username (fst p)) (up_Password (fst p))) up0 = (None, up)"
    and "run_state (ClientConnect conn_io AtypIPv4 raw port) up = ((reply, None), u)" and "rp_Rep reply = RepSuccess"
  shows "\<exists>c. RunPipe c u \<in> set (fst (handleClient cenv uenv cfg remote client)) \<and>
    concat (c_in client) = [Version, 1, AuthNone] @ request_bytes CmdConnect AtypIPv4 raw port @ data @ concat segs \<and>
    (\<forall>idle hc hu q. (pipe_step idle hc hu)\<^sup>*\<^sup>* (pipe_start c u) q \<longrightarrow>
       c_out (pp_upstream q) = c_out u @ take (pp_up q) (concat segs))"
proof -
  let ?b2 = "\<lparr>b_buf = data, b_rd = client\<lparr>c_out := c_out client @ [Version, AuthNone], c_in := [] # segs\<rparr>\<rparr>"
  let ?c = "b_rd (snd (send_reply RepSuccess ?b2))"
  note reads = pipelined_read [OF assms(1-4)]
  have "RunPipe ?c u \<in> set (fst (handleClient cenv uenv cfg remote client))"
    using reads assms(5-9)
    by (simp add: handleClient_def session_body_def handle_request_def handleConnect_def dialAndHandshakeUpstream_def
        connect_upstream_def case_prod_unfold Let_def)
  moreover have "concat (c_in ?c) = concat segs" using send_reply_out(2) [of ?b2 RepSuccess] assms(4) by simp
  moreover have "c_out (pp_upstream q) = c_out u @ take (pp_up q) (concat (c_in ?c))"
    if "(pipe_step idle hc hu)\<^sup>*\<^sup>* (pipe_start ?c u) q" for idle hc hu q
    using pipe_prefix [OF that] by blast
  ultimately show ?thesis using assms(1) by (intro exI [of _ ?c]) simp
qed

section \<open>Witnesses\<close>

definition ex_cenv :: connect_env where
  "ex_cenv = \<lparr>ce_acquire = \<lambda>_. Some (ex_up ''a'' ''h1'', 0),
     ce_dial = Inr \<lparr>c_in = [[5, 0], [5, 0, 0, 1], [0, 0, 0, 0, 0, 0]], c_end = EOF, c_out = [], c_wres = []\<rparr>,
     ce_took = 1, ce_pipe = ex_pipe\<rparr>"

definition ex_uenv :: udp_env where
  "ex_uenv = \<lparr>ue_acquire = \<lambda>_. None, ue_dial = Inl (IOErr EOF), ue_took = 0, ue_resolve = \<lambda>_. Inl (IOErr EOF),
     ue_listen = \<lambda>_ _. Inl (IOErr EOF), ue_tcpLocal = TextAddr [], ue_relay = relay_init,
     ue_client = \<lparr>b_buf = [], b_rd = \<lparr>c_in = [], c_end = EOF, c_out = [], c_wres = []\<rparr>\<rparr>\<rparr>"

definition ex_peer :: conn where
  "ex_peer = \<lparr>c_in = [[5, 1, 0], request_bytes CmdConnect AtypIPv4 [10, 0, 0, 7] 80 @ [71, 69, 84]], c_end = EOF, c_out = [], c_wres = []\<rparr>"

definition ex_up_end :: conn where
  "ex_up_end = \<lparr>c_in = [[]], c_end = EOF, c_out = [5, 1, 0, 5, 1, 0, 1, 10, 0, 0, 7, 0, 80], c_wres = []\<rparr>"

lemma ex_up_runs:
  "run_state (ClientHandshake conn_io [] []) \<lparr>c_in = [[5, 0], [5, 0, 0, 1], [0, 0, 0, 0, 0, 0]], c_end = EOF, c_out = [], c_wres = []\<rparr> =
     (None, \<lparr>c_in = [[], [5, 0, 0, 1], [0, 0, 0, 0, 0, 0]], c_end = EOF, c_out = [5, 1, 0], c_wres = []\<rparr>)"
  "run_state (ClientConnect conn_io AtypIPv4 [10, 0, 0, 7] 80)
     \<lparr>c_in = [[], [5, 0, 0, 1], [0, 0, 0, 0, 0, 0]], c_end = EOF, c_out = [5, 1, 0], c_wres = []\<rparr> =
     ((\<lparr>rp_Rep = 0, rp_BindAtyp = 1, rp_BindIP = Some [0, 0, 0, 0], rp_BindHost = [], rp_BindPort = 0\<rparr>, None), ex_up_end)"
  by code_simp+

theorem pipelined_data_lost_witness:
  "\<exists>c. RunPipe c ex_up_end \<in> set (fst (handleClient ex_cenv ex_uenv ex_config (TextAddr []) ex_peer)) \<and>
     (\<forall>q. (pipe_step 0 True True)\<^sup>*\<^sup>* (pipe_start c ex_up_end) q \<longrightarrow> c_out (pp_upstream q) = c_out ex_up_end)"
  using pipelined_data_lost [of ex_peer "[10, 0, 0, 7]" 80 "[71, 69, 84]" "[]" ex_cenv "(ex_up ''a'' ''h1'', 0)" _ _ _ ex_up_end ex_uenv
      ex_config "TextAddr []", OF _ _ _ _ _ _ _ ex_up_runs(2)] ex_up_runs(1)
  by (simp add: ex_peer_def ex_cenv_def ex_up_def bufio_size_def proto_consts) blast

lemma ex_session_pipe:
  "RunPipe \<lparr>c_in = [[]], c_end = EOF, c_out = [5, 0, 5, 0, 0, 1, 0, 0, 0, 0, 0, 0], c_wres = []\<rparr> ex_up_end \<in>
     set (fst (handleClient ex_cenv ex_uenv ex_config (TextAddr []) ex_peer))"
  by code_simp


end
