(* ===== verification/Registry.thy ===== *)
theory Registry
  imports GoStd Complex_Main
begin

text \<open>
  The collectors of \<^verbatim>\<open>internal/metrics/metrics.go\<close> and their registration.  The registry is
  Prometheus' own code and enters as the two operations that are called, \<open>Register\<close> and
  \<open>Unregister\<close>; what is relied on is their documented contract \<open>registry_ok\<close>: a collector is
  refused exactly when one with the same descriptor, its name and constant labels, is already
  registered, and a refused registration changes nothing.
\<close>

section \<open>Collectors\<close>

datatype collector_kind = Counter | Gauge | Histogram "rat list"

record collector =
  co_kind :: collector_kind
  co_Name :: string
  co_Help :: string
  co_ConstLabels :: "(string \<times> string) list"
  co_labels :: "string list"

definition co_desc :: "collector \<Rightarrow> string \<times> (string \<times> string) list" where
  "co_desc c = (co_Name c, co_ConstLabels c)"

definition latencyBuckets :: "rat list" where
  "latencyBuckets = [5 / 1000, 1 / 100, 25 / 1000, 5 / 100, 1 / 10, 25 / 100, 5 / 10, 1, 5 / 2, 5, 10, 30]"

definition durBuckets :: "rat list" where
  "durBuckets = [1 / 10, 1, 10, 30, 60, 300, 900, 1800, 3600]"

definition group_collector :: "string \<Rightarrow> collector_kind \<Rightarrow> string \<Rightarrow> string \<Rightarrow> string list \<Rightarrow> collector" where
  "group_collector grp k name help labels =
     \<lparr>co_kind = k, co_Name = name, co_Help = help, co_ConstLabels = [(''group'', grp)], co_labels = labels\<rparr>"

text \<open>The collectors of a group, in the order in which they are registered.\<close>

definition frontend_collectors :: "string \<Rightarrow> collector list" where
  "frontend_collectors grp =
    [group_collector grp Gauge ''s5lb_strategy_info'' ''Active load-balancing strategy (always 1).'' [''strategy''],
     group_collector grp Gauge ''s5lb_backpressure_info'' ''Active backpressure strategy (always 1).'' [''strategy''],
     group_collector grp Counter ''s5lb_connections_accepted_total'' ''TCP connections accepted on the frontend listener.'' [],
     group_collector grp Counter ''s5lb_connections_rejected_total''
       ''Connections rejected/terminated, partitioned by reason.'' [''reason''],
     group_collector grp Counter ''s5lb_backpressure_evictions_total'' ''Sessions evicted to admit a new client.'' [],
     group_collector grp Gauge ''s5lb_active_sessions'' ''TCP tunneling sessions currently active.'' [],
     group_collector grp Gauge ''s5lb_admission_inflight'' ''Clients currently holding an admission slot.'' [],
     group_collector grp Gauge ''s5lb_queue_depth'' ''Clients waiting for an upstream slot.'' [],
     group_collector grp (Histogram latencyBuckets) ''s5lb_queue_wait_seconds''
       ''Time spent queued waiting for an upstream slot.'' [],
     group_collector grp (Histogram durBuckets) ''s5lb_session_duration_seconds'' ''End-to-end tunneled session duration.'' [],
     group_collector grp Counter ''s5lb_session_bytes_total'' ''Bytes copied during TCP tunneling, by direction.''
       [''direction''],
     group_collector grp Counter ''s5lb_socks_request_total'' ''SOCKS5 requests by address type and outcome.''
       [''atyp'', ''result''],
     group_collector grp Counter ''s5lb_socks_reply_total'' ''SOCKS5 replies sent to clients, by code.'' [''code'']]"

definition upstream_collectors :: "string \<Rightarrow> collector list" where
  "upstream_collectors grp =
    [group_collector grp Counter ''s5lb_upstream_selected_total'' ''Sessions selecting each upstream.'' [''upstream''],
     group_collector grp Gauge ''s5lb_upstream_active'' ''Active sessions per upstream.'' [''upstream''],
     group_collector grp Gauge ''s5lb_upstream_healthy'' ''1 if upstream is healthy, 0 otherwise.'' [''upstream''],
     group_collector grp Counter ''s5lb_upstream_sessions_total'' ''Total sessions dispatched to each upstream.'' [''upstream''],
     group_collector grp Counter ''s5lb_upstream_failures_total'' ''Upstream failures by stage.'' [''upstream'', ''stage''],
     group_collector grp (Histogram latencyBuckets) ''s5lb_upstream_dial_seconds'' ''Upstream TCP dial latency.'' [''upstream''],
     group_collector grp (Histogram latencyBuckets) ''s5lb_upstream_handshake_seconds''
       ''Upstream SOCKS5 handshake latency.'' [''upstream''],
     group_collector grp (Histogram latencyBuckets) ''s5lb_upstream_probe_seconds'' ''Active health probe latency.''
       [''upstream'', ''result''],
     group_collector grp Gauge ''s5lb_upstream_ewma_latency_seconds''
       ''EWMA of (dial+handshake) latency per upstream, seconds.'' [''upstream'']]"

definition udp_collectors :: "string \<Rightarrow> collector list" where
  "udp_collectors grp =
    [group_collector grp Gauge ''s5lb_udp_associations_active'' ''Active UDP_ASSOCIATE sessions.'' [],
     group_collector grp (Histogram durBuckets) ''s5lb_udp_session_duration_seconds'' ''UDP_ASSOCIATE session duration.'' [],
     group_collector grp Counter ''s5lb_udp_packets_total'' ''UDP datagrams relayed, by direction.'' [''direction''],
     group_collector grp Counter ''s5lb_udp_bytes_total'' ''UDP payload bytes relayed, by direction.'' [''direction''],
     group_collector grp Counter ''s5lb_udp_dropped_total'' ''UDP datagrams dropped, by reason.'' [''reason'']]"

definition group_collectors :: "string \<Rightarrow> collector list" where
  "group_collectors grp = frontend_collectors grp @ upstream_collectors grp @ udp_collectors grp"

section \<open>Registration\<close>

record 'r Registerer =
  rg_Register :: "collector \<Rightarrow> 'r \<Rightarrow> gerror option \<times> 'r"
  rg_Unregister :: "collector \<Rightarrow> 'r \<Rightarrow> bool \<times> 'r"

definition unregister_all :: "'r Registerer \<Rightarrow> collector list \<Rightarrow> 'r \<Rightarrow> 'r" where
  "unregister_all R cs r = fold (\<lambda>c r. snd (rg_Unregister R c r)) cs r"

fun register_loop ::
  "'r Registerer \<Rightarrow> string \<Rightarrow> collector list \<Rightarrow> collector list \<Rightarrow> 'r \<Rightarrow> gerror option \<times> 'r" where
  "register_loop R grp registered [] r = (None, r)"
| "register_loop R grp registered (c # cs) r =
     (case rg_Register R c r of
        (Some err, r') \<Rightarrow>
          (Some (Errorf ''register metrics for group %q: %w'' [FStr grp, FErr err]), unregister_all R registered r')
      | (None, r') \<Rightarrow> register_loop R grp (registered @ [c]) cs r')"

definition metrics_New :: "'r Registerer \<Rightarrow> string \<Rightarrow> 'r \<Rightarrow> (gerror + collector list) \<times> 'r" where
  "metrics_New R grp r =
     (case register_loop R grp [] (group_collectors grp) r of
        (Some err, r') \<Rightarrow> (Inl err, r')
      | (None, r') \<Rightarrow> (Inr (group_collectors grp), r'))"

definition metrics_Unregister :: "'r Registerer \<Rightarrow> collector list \<Rightarrow> 'r \<Rightarrow> 'r" where
  "metrics_Unregister R cs r = unregister_all R cs r"

definition RegisterBuildInfo :: "'r Registerer \<Rightarrow> 'r \<Rightarrow> gerror option \<times> 'r" where
  "RegisterBuildInfo R r =
     (case rg_Register R \<lparr>co_kind = Gauge, co_Name = ''s5lb_build_info'', co_Help = ''Build info; always 1.'',
         co_ConstLabels = [], co_labels = [''version'', ''commit'', ''goversion'', ''build_date'']\<rparr> r of
        (Some err, r') \<Rightarrow> (Some (Errorf ''register build_info: %w'' [FErr err]), r')
      | (None, r') \<Rightarrow> (None, r'))"

definition RegisterRuntime :: "'r Registerer \<Rightarrow> collector \<Rightarrow> collector \<Rightarrow> 'r \<Rightarrow> gerror option \<times> 'r" where
  "RegisterRuntime R goCollector processCollector r =
     (case rg_Register R goCollector r of
        (Some err, r') \<Rightarrow> (Some (Errorf ''register go collector: %w'' [FErr err]), r')
      | (None, r') \<Rightarrow>
          (case rg_Register R processCollector r' of
             (Some err, r'') \<Rightarrow> (Some (Errorf ''register process collector: %w'' [FErr err]), r'')
           | (None, r'') \<Rightarrow> (None, r'')))"

section \<open>Correctness\<close>

definition registry_ok :: "'r Registerer \<Rightarrow> ('r \<Rightarrow> (string \<times> (string \<times> string) list) set) \<Rightarrow> bool" where
  "registry_ok R ids \<longleftrightarrow>
     (\<forall>c r. (fst (rg_Register R c r) = None \<longleftrightarrow> co_desc c \<notin> ids r) \<and>
            ids (snd (rg_Register R c r)) = insert (co_desc c) (ids r) \<and>
            ids (snd (rg_Unregister R c r)) = ids r - {co_desc c})"

lemma registry_okD:
  assumes "registry_ok R ids"
  shows "fst (rg_Register R c r) = None \<longleftrightarrow> co_desc c \<notin> ids r"
    "ids (snd (rg_Register R c r)) = insert (co_desc c) (ids r)" "ids (snd (rg_Unregister R c r)) = ids r - {co_desc c}"
  using assms by (auto simp: registry_ok_def)

abbreviation group_descs :: "string \<Rightarrow> (string \<times> (string \<times> string) list) set" where
  "group_descs grp \<equiv> co_desc ` set (group_collectors grp)"

lemma group_descs_eq: "group_descs grp = (\<lambda>n. (n, [(''group'', grp)])) ` co_Name ` set (group_collectors [])"
  by (simp add: group_collectors_def frontend_collectors_def upstream_collectors_def udp_collectors_def
      group_collector_def co_desc_def)

lemma group_descs_disjoint: "grp \<noteq> grp' \<Longrightarrow> group_descs grp \<inter> group_descs grp' = {}"
  unfolding group_descs_eq by auto

lemma group_collectors_nonempty [simp]: "group_collectors grp \<noteq> []"
  by (simp add: group_collectors_def frontend_collectors_def)

lemma distinct_names: "distinct (map co_Name (group_collectors []))"
  by code_simp

lemma distinct_group_collectors: "distinct (map co_desc (group_collectors grp))"
proof -
  have "map co_Name (group_collectors grp) = map co_Name (group_collectors [])"
    by (simp add: group_collectors_def frontend_collectors_def upstream_collectors_def udp_collectors_def group_collector_def)
  with distinct_names have "distinct (map fst (map co_desc (group_collectors grp)))" by (simp add: comp_def co_desc_def)
  then show ?thesis using distinct_map by blast
qed

lemma unregister_all_ids:
  "registry_ok R ids \<Longrightarrow> ids (unregister_all R cs r) = ids r - co_desc ` set cs"
  by (induction cs arbitrary: r) (auto simp: unregister_all_def registry_okD(3))

lemma register_loop_ids:
  assumes "registry_ok R ids" and "distinct (map co_desc (registered @ cs))"
    and "ids r = base \<union> co_desc ` set registered" and "base \<inter> co_desc ` set registered = {}"
  shows "(fst (register_loop R grp registered cs r) = None \<longleftrightarrow> base \<inter> co_desc ` set cs = {}) \<and>
    ids (snd (register_loop R grp registered cs r)) =
      (if base \<inter> co_desc ` set cs = {} then base \<union> co_desc ` set (registered @ cs) else base)"
  using assms(2-4)
proof (induction cs arbitrary: registered r)
  case Nil
  then show ?case by simp
next
  case (Cons c cs)
  note ok = registry_okD [OF assms(1)]
  obtain e r' where reg: "rg_Register R c r = (e, r')" by fastforce
  with ok(1,2) [of c r] have e: "e = None \<longleftrightarrow> co_desc c \<notin> ids r" and r': "ids r' = insert (co_desc c) (ids r)" by simp_all
  have c: "co_desc c \<notin> co_desc ` set registered" using Cons.prems(1) by auto
  show ?case
  proof (cases e)
    case None
    with e c Cons.prems(2) have "co_desc c \<notin> base" by blast
    with Cons.IH [of "registered @ [c]" r'] Cons.prems r' reg None show ?thesis by auto
  next
    case (Some err)
    with e c Cons.prems(2) have "co_desc c \<in> base" by blast
    with reg Some r' Cons.prems(2,3) unregister_all_ids [OF assms(1), of registered r'] show ?thesis by auto
  qed
qed

lemma metrics_New_ids:
  assumes "registry_ok R ids" and "metrics_New R grp r = (res, r')"
  shows "(case res of Inl _ \<Rightarrow> ids r \<inter> group_descs grp \<noteq> {} \<and> ids r' = ids r
     | Inr cs \<Rightarrow> cs = group_collectors grp \<and> ids r \<inter> group_descs grp = {} \<and> ids r' = ids r \<union> group_descs grp)"
proof -
  obtain e r1 where reg: "register_loop R grp [] (group_collectors grp) r = (e, r1)" by fastforce
  with register_loop_ids [OF assms(1), of "[]" "group_collectors grp" r "ids r" grp] distinct_group_collectors [of grp]
  have "e = None \<longleftrightarrow> ids r \<inter> group_descs grp = {}"
    "ids r1 = (if ids r \<inter> group_descs grp = {} then ids r \<union> group_descs grp else ids r)" by simp_all
  moreover from reg assms(2) have "res = (case e of None \<Rightarrow> Inr (group_collectors grp) | Some err \<Rightarrow> Inl err)" "r' = r1"
    by (simp_all add: metrics_New_def split: option.splits)
  ultimately show ?thesis by (cases e) simp_all
qed

text \<open>C1. Registering the metrics of a group is all or nothing: \<open>New\<close> succeeds exactly when no collector of the group is
  registered yet, and then registers all of them and nothing else; otherwise it fails and the
  registry is as before, the collectors registered until the failure being rolled back.
  \<open>Unregister\<close> undoes a successful \<open>New\<close>.\<close>
theorem metrics_New_atomic:
  assumes "registry_ok R ids" and "metrics_New R grp r = (res, r')"
  shows "((\<exists>cs. res = Inr cs) \<longleftrightarrow> ids r \<inter> group_descs grp = {}) \<and>
    (case res of Inl _ \<Rightarrow> ids r' = ids r
     | Inr cs \<Rightarrow> ids r' = ids r \<union> group_descs grp \<and> ids (metrics_Unregister R cs r') = ids r)"
  using metrics_New_ids [OF assms] unregister_all_ids [OF assms(1)]
  by (auto simp: metrics_Unregister_def split: sum.splits)

section \<open>Witness\<close>

definition list_registry :: "(string \<times> (string \<times> string) list) list Registerer" where
  "list_registry =
     \<lparr>rg_Register = \<lambda>c r. if co_desc c \<in> set r then (Some (errors_New ''duplicate metrics collector registration attempted''), r)
        else (None, co_desc c # r),
      rg_Unregister = \<lambda>c r. (co_desc c \<in> set r, removeAll (co_desc c) r)\<rparr>"

lemma list_registry_ok: "registry_ok list_registry set"
  by (auto simp: registry_ok_def list_registry_def)

theorem metrics_New_atomic_witness:
  "set (snd (metrics_New list_registry ''a'' [(''s5lb_udp_dropped_total'', [(''group'', ''a'')])])) =
     {(''s5lb_udp_dropped_total'', [(''group'', ''a'')])}"
  using metrics_New_atomic [OF list_registry_ok surjective_pairing,
      of "''a''" "[(''s5lb_udp_dropped_total'', [(''group'', ''a'')])]"]
  by (auto simp: group_collectors_def udp_collectors_def group_collector_def co_desc_def split: sum.splits)

end
