(* ===== verification/GoTime.thy ===== *)
theory GoTime
  imports GoStd
begin

text \<open>
  What the program prints of times: \<open>time.Duration.String\<close>, \<open>Duration.Milliseconds\<close>, and
  \<open>time.Time.Format\<close> with the layouts \<open>RFC3339\<close> and \<open>RFC3339Nano\<close> in UTC.  A duration is a
  number of nanoseconds and a time the number of nanoseconds since 1970-01-01.
\<close>

definition pad0 :: "nat \<Rightarrow> nat \<Rightarrow> string" where
  "pad0 w n = (let s = utoa n in replicate (w - length s) (CHR ''0'') @ s)"

text \<open>\<open>fmtFrac\<close>: the last \<open>prec\<close> digits after a point, without trailing zeros.\<close>

definition fmtFrac :: "nat \<Rightarrow> nat \<Rightarrow> string" where
  "fmtFrac v prec =
     (let ds = rev (dropWhile (\<lambda>c. c = CHR ''0'') (rev (pad0 prec (v mod 10 ^ prec))))
      in if v mod 10 ^ prec = 0 then [] else CHR ''.'' # ds)"

definition Duration_String :: "int \<Rightarrow> string" where
  "Duration_String d =
     (let u = nat \<bar>d\<bar>;
          body =
            (if u = 0 then ''0s''
             else if u < 10 ^ 3 then utoa u @ ''ns''
             else if u < 10 ^ 6 then utoa (u div 10 ^ 3) @ fmtFrac u 3 @ [CHR 0xC2, CHR 0xB5] @ ''s''
             else if u < 10 ^ 9 then utoa (u div 10 ^ 6) @ fmtFrac u 6 @ ''ms''
             else
               let s = u div 10 ^ 9; m = s div 60; h = m div 60
               in (if 0 < m then (if 0 < h then utoa h @ ''h'' else []) @ utoa (m mod 60) @ ''m'' else []) @
                  utoa (s mod 60) @ fmtFrac u 9 @ ''s'')
      in (if d < 0 then ''-'' else []) @ body)"

definition Milliseconds :: "int \<Rightarrow> int" where
  "Milliseconds d = (if d < 0 then - ((- d) div 10 ^ 6) else d div 10 ^ 6)"

text \<open>Year, month and day of a number of days since 1970-01-01 in the Gregorian calendar.\<close>

definition civil :: "int \<Rightarrow> int \<times> int \<times> int" where
  "civil days =
     (let z = days + 719468; era = z div 146097; doe = z mod 146097;
          yoe = (doe - doe div 1460 + doe div 36524 - doe div 146096) div 365;
          doy = doe - (365 * yoe + yoe div 4 - yoe div 100);
          mp = (5 * doy + 2) div 153;
          month = (if mp < 10 then mp + 3 else mp - 9)
      in (yoe + era * 400 + (if month \<le> 2 then 1 else 0), month, doy - (153 * mp + 2) div 5 + 1))"

definition format_UTC :: "string \<Rightarrow> int \<Rightarrow> string" where
  "format_UTC frac t =
     (let secs = t div 10 ^ 9; (y, mo, d) = civil (secs div 86400); s = nat (secs mod 86400)
      in (if y < 0 then ''-'' else []) @ pad0 4 (nat \<bar>y\<bar>) @ ''-'' @ pad0 2 (nat mo) @ ''-'' @ pad0 2 (nat d) @ ''T'' @
         pad0 2 (s div 3600) @ '':'' @ pad0 2 (s div 60 mod 60) @ '':'' @ pad0 2 (s mod 60) @ frac @ ''Z'')"

definition RFC3339 :: "int \<Rightarrow> string" where
  "RFC3339 t = format_UTC [] t"

definition RFC3339Nano :: "int \<Rightarrow> string" where
  "RFC3339Nano t = format_UTC (fmtFrac (nat (t mod 10 ^ 9)) 9) t"

text \<open>Instances, among them a leap day.\<close>

lemma utoa_step: "n < 10 \<Longrightarrow> utoa n = [digit_char n]" "10 \<le> n \<Longrightarrow> utoa n = utoa (n div 10) @ [digit_char (n mod 10)]"
  by (simp_all add: utoa.simps [of n])

lemma duration_examples:
  "Duration_String (20 * 10 ^ 9) = ''20s''" "Duration_String (5400 * 10 ^ 9) = ''1h30m0s''"
  "Duration_String 2500000000 = ''2.5s''"
  by (simp add: Duration_String_def fmtFrac_def pad0_def utoa_step, code_simp)+

lemma civil_examples: "civil 0 = (1970, 1, 1)" "civil 19782 = (2024, 2, 29)" "civil (- 1) = (1969, 12, 31)"
  by code_simp+

lemma time_examples:
  "RFC3339 0 = ''1970-01-01T00:00:00Z''" "RFC3339 (1709210096 * 10 ^ 9) = ''2024-02-29T12:34:56Z''"
  by (simp add: RFC3339_def format_UTC_def civil_examples pad0_def utoa_step, code_simp)+

end
