(* ===== verification/Manager.thy ===== *)
theory Manager
  imports Balancer Multiconfig Registry GoTime
begin

text \<open>
  The manager of the groups, \<^verbatim>\<open>internal/balancer/manager.go\<close>: one load balancer per group, built
  at start and by reloads, and the views of them that the admin server shows.

  Group entries are shared between the manager, the goroutines that serve them and those that
  drain removed ones, so they live in the list \<open>mg_entries\<close> and are referred to by their index.
  The registry, the transport and the loader of the configuration file are parameters.  What an
  operation does to the life of a group, calling its \<open>Shutdown\<close>, starting its \<open>Serve\<close> goroutine or
  the goroutine that drains it, is returned as a list of events in order; \<open>mg_draining\<close> holds the
  groups whose draining goroutine has not finished.
\<close>

section \<open>Public views\<close>

record PublicUpstreamSpec =
  pu_ID :: string
  pu_Host :: string
  pu_Port :: int
  pu_Weight :: int
  pu_Priority :: int
  pu_AuthConfigured :: bool

record PublicTransportConfig =
  pt_Type :: TransportType
  pt_KubeMode :: string
  pt_Namespace :: string
  pt_Pod :: string
  pt_Container :: string
  pt_HasHeaders :: bool
  pt_HasToken :: bool

record PublicConfig =
  pc_ListenAddr :: string
  pc_MaxPerProxy :: int
  pc_MaxClients :: int
  pc_HealthInterval :: string
  pc_RetryBackoff :: string
  pc_ConnectTimeout :: string
  pc_HandshakeTimeout :: string
  pc_QueueWaitTimeout :: string
  pc_FailureThreshold :: int
  pc_FailureWindow :: string
  pc_IdleTimeout :: string
  pc_TCPKeepAlive :: bool
  pc_Strategy :: string
  pc_HashKey :: HashKey
  pc_Backpressure :: BackpressureStrategy
  pc_AdmissionWaitTimeout :: string
  pc_UDPEnabled :: bool
  pc_UDPBindAddr :: string
  pc_UDPIdleTimeout :: string
  pc_Transport :: PublicTransportConfig
  pc_Upstreams :: "PublicUpstreamSpec list"

record GroupInfo =
  gi_Name :: string
  gi_Listen :: string
  gi_Strategy :: string
  gi_Config :: PublicConfig
  gi_Upstream :: "Snapshot list"

definition publicUpstream :: "UpstreamSpec \<Rightarrow> PublicUpstreamSpec" where
  "publicUpstream u =
     \<lparr>pu_ID = sp_ID u, pu_Host = sp_Host u, pu_Port = sp_Port u, pu_Weight = sp_Weight u, pu_Priority = sp_Priority u,
      pu_AuthConfigured = (sp_Username u \<noteq> [] \<or> sp_Password u \<noteq> [])\<rparr>"

definition publicConfig :: "Config \<Rightarrow> PublicConfig" where
  "publicConfig c =
     (let k = tc_Kubernetes (cf_Transport c) in
      \<lparr>pc_ListenAddr = cf_ListenAddr c,
       pc_MaxPerProxy = cf_MaxPerProxy c,
       pc_MaxClients = cf_MaxClients c,
       pc_HealthInterval = Duration_String (cf_HealthInterval c),
       pc_RetryBackoff = Duration_String (cf_RetryBackoff c),
       pc_ConnectTimeout = Duration_String (cf_ConnectTimeout c),
       pc_HandshakeTimeout = Duration_String (cf_HandshakeTimeout c),
       pc_QueueWaitTimeout = Duration_String (cf_QueueWaitTimeout c),
       pc_FailureThreshold = cf_FailureThreshold c,
       pc_FailureWindow = Duration_String (cf_FailureWindow c),
       pc_IdleTimeout = Duration_String (cf_IdleTimeout c),
       pc_TCPKeepAlive = cf_TCPKeepAlive c,
       pc_Strategy = cf_Strategy c,
       pc_HashKey = cf_HashKey c,
       pc_Backpressure = cf_Backpressure c,
       pc_AdmissionWaitTimeout = Duration_String (cf_AdmissionWaitTimeout c),
       pc_UDPEnabled = cf_UDPEnabled c,
       pc_UDPBindAddr = cf_UDPBindAddr c,
       pc_UDPIdleTimeout = Duration_String (cf_UDPIdleTimeout c),
       pc_Transport =
         \<lparr>pt_Type = tc_Type (cf_Transport c), pt_KubeMode = kt_Mode k, pt_Namespace = kt_Namespace k, pt_Pod = kt_Pod k,
          pt_Container = kt_Container k, pt_HasHeaders = (kt_Headers k \<noteq> []),
          pt_HasToken = (kt_BearerToken k \<noteq> [] \<or> kt_BearerTokenFile k \<noteq> [])\<rparr>,
       pc_Upstreams = map publicUpstream (cf_Upstreams c)\<rparr>)"

section \<open>State\<close>

record 'rc groupEntry =
  ge_name :: string
  ge_lb :: "'rc LB"
  ge_met :: "collector list"
  ge_retired :: bool

record ('rc, 'r) Manager =
  mg_entries :: "'rc groupEntry list"
  mg_groups :: "nat list"
  mg_byName :: "(string \<times> nat) list"
  mg_draining :: "nat list"
  mg_started :: bool
  mg_reg :: 'r
  mg_cfgPath :: string
  mg_version :: string
  mg_commit :: string

record ('rc, 'r) manager_env =
  me_transport :: "'rc transport_env"
  me_reg :: "'r Registerer"
  me_rng :: rng
  me_sessions :: sstore
  me_load :: "string \<Rightarrow> gerror + MultiConfig"

datatype mevent = StartGroup nat | ShutdownGroup nat | DrainLater nat

section \<open>Building groups\<close>

definition buildGroup ::
  "('rc, 'r) manager_env \<Rightarrow> string \<Rightarrow> Config \<Rightarrow> 'r \<Rightarrow> (gerror + 'rc groupEntry) \<times> 'r" where
  "buildGroup env cfgPath cfg r =
     (let name = (if cf_GroupName cfg = [] then ''default'' else cf_GroupName cfg); R = me_reg env in
      case BuildUpstreams cfg of
        Inl err \<Rightarrow> (Inl (Errorf ''build upstreams: %w'' [FErr err]), r)
      | Inr ups \<Rightarrow>
      if ups = [] then (Inl (errors_New ''at least one upstream is required''), r) else
      (case strategy_New (cf_Strategy cfg) of
         Inl err \<Rightarrow> (Inl (Errorf ''strategy %q: %w'' [FStr (cf_Strategy cfg), FErr err]), r)
       | Inr sel \<Rightarrow>
      (case metrics_New R name r of
         (Inl err, r1) \<Rightarrow> (Inl (Errorf ''metrics: %w'' [FErr err]), r1)
       | (Inr met, r1) \<Rightarrow>
      (case NewFromConfig (me_transport env) cfg of
         Inl err \<Rightarrow> (Inl (Errorf ''transport: %w'' [FErr err]), metrics_Unregister R met r1)
       | Inr dialer \<Rightarrow>
      (case balancer_New cfg cfgPath ups sel (me_rng env) (me_sessions env) of
         Inl err \<Rightarrow> (Inl (Errorf ''balancer: %w'' [FErr err]), metrics_Unregister R met r1)
       | Inr lb \<Rightarrow>
           (Inr \<lparr>ge_name = name, ge_lb = SetDialer (Some dialer) lb, ge_met = met, ge_retired = False\<rparr>, r1))))))"

fun build_groups :: "('rc, 'r) manager_env \<Rightarrow> Config list \<Rightarrow> ('rc, 'r) Manager \<Rightarrow> gerror option \<times> ('rc, 'r) Manager" where
  "build_groups env [] m = (None, m)"
| "build_groups env (cfg # cfgs) m =
     (case buildGroup env (mg_cfgPath m) cfg (mg_reg m) of
        (Inl err, r) \<Rightarrow> (Some (Errorf ''group %q: %w'' [FStr (cf_GroupName cfg), FErr err]), m\<lparr>mg_reg := r\<rparr>)
      | (Inr entry, r) \<Rightarrow>
          let i = length (mg_entries m) in
          build_groups env cfgs
            (m\<lparr>mg_entries := mg_entries m @ [entry], mg_groups := mg_groups m @ [i],
               mg_byName := AList.update (cf_GroupName cfg) i (mg_byName m), mg_reg := r\<rparr>))"

definition NewManager ::
  "('rc, 'r) manager_env \<Rightarrow> MultiConfig \<Rightarrow> string \<Rightarrow> string \<Rightarrow> string \<Rightarrow> 'r \<Rightarrow> (gerror + ('rc, 'r) Manager) \<times> 'r" where
  "NewManager env mc cfgPath version commit r =
     (case MultiConfig_Validate mc of
        (Some err, _) \<Rightarrow> (Inl (Errorf ''invalid config: %w'' [FErr err]), r)
      | (None, mc') \<Rightarrow>
          (case build_groups env (EffectiveGroups mc')
              \<lparr>mg_entries = [], mg_groups = [], mg_byName = [], mg_draining = [], mg_started = False, mg_reg = r,
               mg_cfgPath = cfgPath, mg_version = version, mg_commit = commit\<rparr> of
             (Some err, m) \<Rightarrow> (Inl err, mg_reg m)
           | (None, m) \<Rightarrow> (Inr m, mg_reg m)))"

section \<open>Supervision\<close>

definition startGroupLocked :: "('rc, 'r) Manager \<Rightarrow> nat \<Rightarrow> mevent list" where
  "startGroupLocked m i = (if mg_started m then [StartGroup i] else [])"

text \<open>The part of \<open>Start\<close> under \<open>startOnce\<close>; the loop follows.\<close>

definition Start_once :: "('rc, 'r) Manager \<Rightarrow> ('rc, 'r) Manager \<times> mevent list" where
  "Start_once m =
     (if mg_started m then (m, [])
      else let m' = m\<lparr>mg_started := True\<rparr> in (m', concat (map (startGroupLocked m') (mg_groups m'))))"

definition manager_Shutdown :: "('rc, 'r) Manager \<Rightarrow> mevent list" where
  "manager_Shutdown m = map ShutdownGroup (mg_groups m)"

datatype supervised = CtxDone | Served nat "gerror option"

text \<open>One round of the loop of \<open>Start\<close>: nothing if it goes on, otherwise what \<open>Start\<close> returns.\<close>

definition supervise :: "gerror \<Rightarrow> ('rc, 'r) Manager \<Rightarrow> supervised \<Rightarrow> (gerror option \<times> mevent list) option" where
  "supervise ctxErr m s =
     (case s of
        CtxDone \<Rightarrow> Some (Some ctxErr, manager_Shutdown m)
      | Served i err \<Rightarrow> if ge_retired (mg_entries m ! i) then None else Some (err, manager_Shutdown m))"

section \<open>Reload\<close>

type_synonym ('rc, 'r) reload_acc =
  "('rc, 'r) Manager \<times> (string \<times> nat) list \<times> nat list \<times> nat list \<times> gerror option"

definition reload_one :: "('rc, 'r) manager_env \<Rightarrow> Config \<Rightarrow> ('rc, 'r) reload_acc \<Rightarrow> ('rc, 'r) reload_acc" where
  "reload_one env cfg acc =
     (case acc of (m, newByName, newGroups, pendingStarts, lastErr) \<Rightarrow>
        let name = cf_GroupName cfg in
        case map_of (mg_byName m) name of
          Some i \<Rightarrow>
            let e = mg_entries m ! i in
            (case reloadFromConfig (me_transport env) cfg (ge_lb e) of
               (err, lb) \<Rightarrow>
                 (m\<lparr>mg_entries := (mg_entries m)[i := e\<lparr>ge_lb := lb\<rparr>]\<rparr>, AList.update name i newByName, newGroups @ [i],
                  pendingStarts, (case err of Some x \<Rightarrow> Some x | None \<Rightarrow> lastErr)))
        | None \<Rightarrow>
            (case buildGroup env (mg_cfgPath m) cfg (mg_reg m) of
               (Inl err, r) \<Rightarrow> (m\<lparr>mg_reg := r\<rparr>, newByName, newGroups, pendingStarts, Some err)
             | (Inr e, r) \<Rightarrow>
                 let i = length (mg_entries m) in
                 (m\<lparr>mg_entries := mg_entries m @ [e], mg_reg := r\<rparr>, AList.update name i newByName, newGroups @ [i],
                  pendingStarts @ [i], lastErr)))"

definition listen_of :: "('rc, 'r) Manager \<Rightarrow> nat \<Rightarrow> string" where
  "listen_of m i = cf_ListenAddr (lb_cfg (ge_lb (mg_entries m ! i)))"

definition removed_groups :: "('rc, 'r) Manager \<Rightarrow> (string \<times> nat) list \<Rightarrow> nat list" where
  "removed_groups m newByName = map snd (filter (\<lambda>(name, _). map_of newByName name = None) (mg_byName m))"

definition retire :: "nat \<Rightarrow> ('rc, 'r) Manager \<Rightarrow> ('rc, 'r) Manager" where
  "retire i m = m\<lparr>mg_entries := (mg_entries m)[i := (mg_entries m ! i)\<lparr>ge_retired := True\<rparr>]\<rparr>"

definition unregister_group :: "('rc, 'r) manager_env \<Rightarrow> nat \<Rightarrow> ('rc, 'r) Manager \<Rightarrow> ('rc, 'r) Manager" where
  "unregister_group env i m = m\<lparr>mg_reg := metrics_Unregister (me_reg env) (ge_met (mg_entries m ! i)) (mg_reg m)\<rparr>"

text \<open>The removed groups that hold the address of a new group are shut down first.\<close>

fun drain_clashing ::
  "('rc, 'r) manager_env \<Rightarrow> nat list \<Rightarrow> (string \<Rightarrow> nat list) \<Rightarrow> nat list \<Rightarrow> ('rc, 'r) Manager \<Rightarrow> nat list \<times> ('rc, 'r) Manager" where
  "drain_clashing env [] removedByListen drained m = (drained, m)"
| "drain_clashing env (p # ps) removedByListen drained m =
     (let listen = listen_of m p; olds = removedByListen listen in
      drain_clashing env ps (removedByListen(listen := [])) (drained @ olds) (fold (unregister_group env) olds m))"

definition reload_groups ::
  "('rc, 'r) manager_env \<Rightarrow> Config list \<Rightarrow> ('rc, 'r) Manager \<Rightarrow> gerror option \<times> ('rc, 'r) Manager \<times> mevent list" where
  "reload_groups env effs m =
     (case fold (reload_one env) effs (m, [], [], [], None) of
        (m1, newByName, newGroups, pendingStarts, lastErr) \<Rightarrow>
          let removed = removed_groups m1 newByName;
              m2 = fold retire removed m1;
              removedByListen = (\<lambda>l. filter (\<lambda>i. listen_of m2 i = l) removed);
              (drained, m3) = drain_clashing env pendingStarts removedByListen [] m2;
              later = filter (\<lambda>i. i \<notin> set drained) removed
          in (lastErr,
              m3\<lparr>mg_groups := newGroups, mg_byName := newByName, mg_draining := mg_draining m3 @ later\<rparr>,
              map ShutdownGroup drained @ map DrainLater later @ concat (map (startGroupLocked m3) pendingStarts)))"

definition load_valid :: "('rc, 'r) manager_env \<Rightarrow> string \<Rightarrow> gerror + gerror + MultiConfig" where
  "load_valid env path =
     (case me_load env path of
        Inl err \<Rightarrow> Inl err
      | Inr mc \<Rightarrow> Inr (case MultiConfig_Validate mc of (Some err, _) \<Rightarrow> Inl err | (None, mc') \<Rightarrow> Inr mc'))"

definition manager_Reload ::
  "('rc, 'r) manager_env \<Rightarrow> ('rc, 'r) Manager \<Rightarrow> gerror option \<times> ('rc, 'r) Manager \<times> mevent list" where
  "manager_Reload env m =
     (if mg_cfgPath m = [] then (Some (errors_New ''reload: no config path was supplied at startup''), m, [])
      else case load_valid env (mg_cfgPath m) of
        Inl err \<Rightarrow> (Some (Errorf ''reload: load: %w'' [FErr err]), m, [])
      | Inr (Inl err) \<Rightarrow> (Some (Errorf ''reload: validate: %w'' [FErr err]), m, [])
      | Inr (Inr mc) \<Rightarrow> reload_groups env (EffectiveGroups mc) m)"

definition ReloadGroup ::
  "('rc, 'r) manager_env \<Rightarrow> string \<Rightarrow> ('rc, 'r) Manager \<Rightarrow> gerror option \<times> ('rc, 'r) Manager" where
  "ReloadGroup env name m =
     (if mg_cfgPath m = []
      then (Some (Errorf ''reload group %q: no config path was supplied at startup'' [FStr name]), m)
      else case load_valid env (mg_cfgPath m) of
        Inl err \<Rightarrow> (Some (Errorf ''reload group %q: load: %w'' [FStr name, FErr err]), m)
      | Inr (Inl err) \<Rightarrow> (Some (Errorf ''reload group %q: validate: %w'' [FStr name, FErr err]), m)
      | Inr (Inr mc) \<Rightarrow>
          (case List.find (\<lambda>cfg. cf_GroupName cfg = name) (EffectiveGroups mc) of
             None \<Rightarrow> (Some (Errorf ''reload group %q: group not present in config'' [FStr name]), m)
           | Some selected \<Rightarrow>
               (case map_of (mg_byName m) name of
                  None \<Rightarrow> (Some (Errorf ''group %q not found'' [FStr name]), m)
                | Some i \<Rightarrow>
                    let e = mg_entries m ! i in
                    (case reloadFromConfig (me_transport env) selected (ge_lb e) of
                       (err, lb) \<Rightarrow> (err, m\<lparr>mg_entries := (mg_entries m)[i := e\<lparr>ge_lb := lb\<rparr>]\<rparr>)))))"

text \<open>The goroutine that drains a removed group, after its call of \<open>Shutdown\<close>.\<close>

definition finish_drain :: "('rc, 'r) manager_env \<Rightarrow> nat \<Rightarrow> ('rc, 'r) Manager \<Rightarrow> ('rc, 'r) Manager" where
  "finish_drain env i m = (unregister_group env i m)\<lparr>mg_draining := remove1 i (mg_draining m)\<rparr>"

section \<open>Queries\<close>

definition manager_Group :: "string \<Rightarrow> ('rc, 'r) Manager \<Rightarrow> 'rc LB option" where
  "manager_Group name m = map_option (\<lambda>i. ge_lb (mg_entries m ! i)) (map_of (mg_byName m) name)"

definition manager_Groups :: "('rc, 'r) Manager \<Rightarrow> 'rc groupEntry list" where
  "manager_Groups m = map ((!) (mg_entries m)) (mg_groups m)"

definition info :: "'rc groupEntry \<Rightarrow> GroupInfo" where
  "info e =
     (let cfg = lb_cfg (ge_lb e); (snaps, _) = currentPool (ge_lb e) in
      \<lparr>gi_Name = ge_name e, gi_Listen = cf_ListenAddr cfg, gi_Strategy = cf_Strategy cfg, gi_Config = publicConfig cfg,
       gi_Upstream = snaps\<rparr>)"

definition GroupInfos :: "('rc, 'r) Manager \<Rightarrow> GroupInfo list" where
  "GroupInfos m = map info (manager_Groups m)"

definition GroupInfoByName :: "string \<Rightarrow> ('rc, 'r) Manager \<Rightarrow> GroupInfo option" where
  "GroupInfoByName name m = map_option (\<lambda>i. info (mg_entries m ! i)) (map_of (mg_byName m) name)"

definition manager_AnyHealthy :: "('rc, 'r) Manager \<Rightarrow> bool" where
  "manager_AnyHealthy m = list_ex (\<lambda>e. lb_AnyHealthy (ge_lb e)) (manager_Groups m)"

fun drain_in :: "string \<Rightarrow> bool \<Rightarrow> nat list \<Rightarrow> ('rc, 'r) Manager \<Rightarrow> bool \<times> ('rc, 'r) Manager" where
  "drain_in uid drain [] m = (False, m)"
| "drain_in uid drain (i # gs) m =
     (let e = mg_entries m ! i in
      case lb_DrainUpstream uid drain (ge_lb e) of
        (True, lb) \<Rightarrow> (True, m\<lparr>mg_entries := (mg_entries m)[i := e\<lparr>ge_lb := lb\<rparr>]\<rparr>)
      | (False, _) \<Rightarrow> drain_in uid drain gs m)"

definition manager_DrainUpstream :: "string \<Rightarrow> bool \<Rightarrow> ('rc, 'r) Manager \<Rightarrow> bool \<times> ('rc, 'r) Manager" where
  "manager_DrainUpstream uid drain m = drain_in uid drain (mg_groups m) m"

definition SetUpstreamDrain :: "string \<Rightarrow> bool \<Rightarrow> ('rc, 'r) Manager \<Rightarrow> bool \<times> ('rc, 'r) Manager" where
  "SetUpstreamDrain uid drain m = manager_DrainUpstream uid drain m"

definition manager_Sessions :: "('rc, 'r) Manager \<Rightarrow> SessionSnapshot list option" where
  "manager_Sessions m = map_option concat (those (map (\<lambda>e. lb_Sessions (ge_lb e)) (manager_Groups m)))"

record upstreamStateItem =
  ui_ID :: string
  ui_Addr :: string
  ui_Healthy :: bool
  ui_Draining :: bool
  ui_Priority :: int
  ui_Weight :: int
  ui_Active :: int
  ui_EWMALatencyMS :: rat
  ui_TotalSessions :: uint64
  ui_TotalFailures :: uint64
  ui_ConsecutiveFailures :: int

record groupStateItem =
  gs_Name :: string
  gs_Strategy :: string
  gs_Backpressure :: string
  gs_ListenAddr :: string
  gs_UDPEnabled :: bool
  gs_MaxClients :: int
  gs_SessionCount :: int
  gs_Upstreams :: "upstreamStateItem list"

record stateResponse =
  sr_Version :: string
  sr_Commit :: string
  sr_Now :: string
  sr_SessionCount :: int
  sr_Groups :: "groupStateItem list"

definition state_item :: "Snapshot \<Rightarrow> upstreamStateItem" where
  "state_item s =
     \<lparr>ui_ID = sn_ID s, ui_Addr = sn_Addr s, ui_Healthy = sn_Healthy s, ui_Draining = sn_Draining s,
      ui_Priority = sn_Priority s, ui_Weight = sn_Weight s, ui_Active = sn_Active s,
      ui_EWMALatencyMS = sn_EWMALatency s * 1000, ui_TotalSessions = sn_TotalSessions s,
      ui_TotalFailures = sn_TotalFailures s, ui_ConsecutiveFailures = sn_ConsecutiveFailures s\<rparr>"

definition group_state :: "'rc groupEntry \<Rightarrow> groupStateItem" where
  "group_state e =
     (let cfg = lb_cfg (ge_lb e); (snaps, _) = currentPool (ge_lb e) in
      \<lparr>gs_Name = ge_name e, gs_Strategy = cf_Strategy cfg, gs_Backpressure = cf_Backpressure cfg,
       gs_ListenAddr = cf_ListenAddr cfg, gs_UDPEnabled = cf_UDPEnabled cfg, gs_MaxClients = cf_MaxClients cfg,
       gs_SessionCount = tracker_Count (lb_trk (ge_lb e)), gs_Upstreams = map state_item snaps\<rparr>)"

definition manager_State :: "int \<Rightarrow> ('rc, 'r) Manager \<Rightarrow> stateResponse" where
  "manager_State now m =
     (let groups = map group_state (manager_Groups m) in
      \<lparr>sr_Version = mg_version m, sr_Commit = mg_commit m, sr_Now = RFC3339 now,
       sr_SessionCount = sum_list (map gs_SessionCount groups), sr_Groups = groups\<rparr>)"

record sessionItem =
  si_ClientAddr :: string
  si_UpstreamID :: string
  si_UpstreamPriority :: int
  si_AdmittedAt :: string
  si_AgeMS :: int

definition session_item :: "int \<Rightarrow> SessionSnapshot \<Rightarrow> sessionItem" where
  "session_item now s =
     \<lparr>si_ClientAddr = ss_ClientAddr s, si_UpstreamID = ss_UpstreamID s, si_UpstreamPriority = ss_UpstreamPrio s,
      si_AdmittedAt = RFC3339Nano (ss_AdmittedAt s), si_AgeMS = Milliseconds (time_Sub now (ss_AdmittedAt s))\<rparr>"

definition manager_ActiveSessions :: "int \<Rightarrow> ('rc, 'r) Manager \<Rightarrow> sessionItem list option" where
  "manager_ActiveSessions now m = map_option (map (session_item now)) (manager_Sessions m)"

section \<open>The names of the groups\<close>

lemma EffectiveGroups_names: "map cf_GroupName (EffectiveGroups mc) = GroupNames mc"
  by (simp add: EffectiveGroups_def GroupNames_def effective_group_def)

lemma valid_names:
  assumes "MultiConfig_Validate mc = (None, mc')"
  shows "distinct (map cf_GroupName (EffectiveGroups mc'))" "[] \<notin> set (map cf_GroupName (EffectiveGroups mc'))"
proof -
  have "distinct (GroupNames mc') \<and> [] \<notin> set (GroupNames mc')"
  proof (cases "mc_Groups mc = []")
    case True
    with assms show ?thesis by (auto simp: MultiConfig_Validate_def GroupNames_def split: prod.splits)
  next
    case False
    with assms have "mc' = mc" "validate_names 0 {} (mc_Groups mc) = None"
      by (auto simp: MultiConfig_Validate_def split: option.splits)
    with False show ?thesis by (auto simp: validate_names_None GroupNames_def)
  qed
  then show "distinct (map cf_GroupName (EffectiveGroups mc'))" "[] \<notin> set (map cf_GroupName (EffectiveGroups mc'))"
    unfolding EffectiveGroups_names by blast+
qed

lemma load_valid_Inr:
  assumes "load_valid env path = Inr (Inr mc)"
  shows "distinct (map cf_GroupName (EffectiveGroups mc))" "[] \<notin> set (map cf_GroupName (EffectiveGroups mc))"
  using assms valid_names by (auto simp: load_valid_def split: sum.splits prod.splits option.splits)

section \<open>The invariant\<close>

abbreviation gname :: "('rc, 'r) Manager \<Rightarrow> nat \<Rightarrow> string" where
  "gname m i \<equiv> ge_name (mg_entries m ! i)"

definition entry_ok :: "'rc groupEntry \<Rightarrow> bool" where
  "entry_ok e \<longleftrightarrow> pool_inv (ge_lb e) \<and> \<not> ge_retired e \<and> ge_met e = group_collectors (ge_name e)"

text \<open>
  \<open>ids\<close> reads the descriptors off the registry and \<open>base\<close> are those that belong to no group.
\<close>

definition manager_inv ::
  "('r \<Rightarrow> (string \<times> (string \<times> string) list) set) \<Rightarrow> (string \<times> (string \<times> string) list) set \<Rightarrow> ('rc, 'r) Manager \<Rightarrow> bool" where
  "manager_inv ids base m \<longleftrightarrow>
     (\<forall>g. base \<inter> group_descs g = {}) \<and>
     (\<forall>i\<in>set (mg_groups m @ mg_draining m). i < length (mg_entries m)) \<and>
     distinct (mg_groups m @ mg_draining m) \<and> distinct (map (gname m) (mg_groups m @ mg_draining m)) \<and>
     mg_byName m = map (\<lambda>i. (gname m i, i)) (mg_groups m) \<and>
     (\<forall>i\<in>set (mg_groups m). entry_ok (mg_entries m ! i)) \<and>
     (\<forall>i\<in>set (mg_draining m). ge_retired (mg_entries m ! i) \<and> ge_met (mg_entries m ! i) = group_collectors (gname m i)) \<and>
     ids (mg_reg m) = base \<union> \<Union> (group_descs ` set (map (gname m) (mg_groups m @ mg_draining m)))"

lemma balancer_New_ok:
  assumes "balancer_New cfg path ups sel g h = Inr lb"
  shows "pool_inv lb" "lb_cfg lb = cfg"
proof -
  let ?lb = "\<lparr>lb_cfg = cfg, lb_configPath = path,
      lb_dialer = DirectDialer \<lparr>td_Timeout = cf_ConnectTimeout cfg, td_KeepAlive = seconds 30\<rparr>,
      lb_selector = sel, lb_rng = g, lb_pool = [], lb_byID = [], lb_states = (\<lambda>_. NewState), lb_next = 0,
      lb_metrics = no_metrics, lb_queue = [], lb_waiters = [], lb_trk = (NewTracker, h),
      lb_gate = admission_New cfg True, lb_conns = {}\<rparr>"
  have "setUpstreams ups ?lb = (None, lb)"
    using assms by (auto simp: balancer_New_def split: prod.splits option.splits)
  moreover have "pool_inv ?lb" by (simp add: pool_inv_def keyed_def)
  ultimately show "pool_inv lb" "lb_cfg lb = cfg"
    using setUpstreams_inv setUpstreams_keeps(7) by fastforce+
qed

lemma buildGroup_ids:
  assumes "registry_ok (me_reg env) ids" and "buildGroup env path cfg r = (res, r')" and "cf_GroupName cfg \<noteq> []"
  shows "(case res of
      Inl _ \<Rightarrow> ids r' = ids r
    | Inr e \<Rightarrow> ge_name e = cf_GroupName cfg \<and> entry_ok e \<and> lb_cfg (ge_lb e) = cfg \<and>
        ids r \<inter> group_descs (cf_GroupName cfg) = {} \<and> ids r' = ids r \<union> group_descs (cf_GroupName cfg))"
proof -
  obtain res1 r1 where new: "metrics_New (me_reg env) (cf_GroupName cfg) r = (res1, r1)" by fastforce
  note ids = metrics_New_ids [OF assms(1) new] and undo = unregister_all_ids [OF assms(1)]
  show ?thesis
  proof (cases res1)
    case (Inl err)
    with ids new assms(2,3) show ?thesis by (auto simp: buildGroup_def Let_def split: sum.splits if_splits)
  next
    case (Inr met)
    with ids have r1: "met = group_collectors (cf_GroupName cfg)" "ids r \<inter> group_descs (cf_GroupName cfg) = {}"
      "ids r1 = ids r \<union> group_descs (cf_GroupName cfg)" by simp_all
    with undo [of met r1] have "ids (metrics_Unregister (me_reg env) met r1) = ids r"
      by (simp add: metrics_Unregister_def) blast
    with r1 Inr new assms(2,3) show ?thesis
      by (simp add: buildGroup_def entry_ok_def SetDialer_def Let_def split: sum.splits if_splits)
         (use balancer_New_ok in \<open>auto\<close>)
  qed
qed

lemma reload_lb_keeps:
  assumes "reloadFromConfig tenv cfg lb = (err, lb')" and "pool_inv lb"
  shows "pool_inv lb'" "cf_ListenAddr (lb_cfg lb') = cf_ListenAddr (lb_cfg lb)"
proof -
  have "pool_inv lb' \<and> cf_ListenAddr (lb_cfg lb') = cf_ListenAddr (lb_cfg lb)"
  proof (cases rule: reload_cases [of tenv cfg lb, case_names error applied])
    case (error e)
    with assms show ?thesis by simp
  next
    case (applied c ups d lb1)
    with assms setUpstreams_inv [OF assms(2) applied(4)] show ?thesis
      by (auto simp: keep_immutable_def reload_cfg_def)
  qed
  then show "pool_inv lb'" "cf_ListenAddr (lb_cfg lb') = cf_ListenAddr (lb_cfg lb)" by simp_all
qed

section \<open>Reloading group by group\<close>

lemma update_new: "k \<notin> fst ` set al \<Longrightarrow> AList.update k v al = al @ [(k, v)]"
  by (induction al) auto

lemma find_append: "List.find P (xs @ ys) = (case List.find P xs of None \<Rightarrow> List.find P ys | Some x \<Rightarrow> Some x)"
  by (induction xs) auto

lemma update_keeps: "(\<And>e. f (g e) = f e) \<Longrightarrow> f (xs[i := g (xs ! i)] ! j) = f (xs ! j)"
  by (cases "i < length xs"; cases "i = j") (auto simp: list_update_beyond)

text \<open>What no reload changes of an entry.\<close>

definition static :: "'rc groupEntry \<Rightarrow> string \<times> collector list \<times> bool \<times> string" where
  "static e = (ge_name e, ge_met e, ge_retired e, cf_ListenAddr (lb_cfg (ge_lb e)))"

definition frame :: "('rc, 'r) Manager \<Rightarrow> ('rc, 'r) Manager \<Rightarrow> bool" where
  "frame m0 m \<longleftrightarrow> mg_groups m = mg_groups m0 \<and> mg_byName m = mg_byName m0 \<and> mg_draining m = mg_draining m0 \<and>
     mg_started m = mg_started m0 \<and> mg_cfgPath m = mg_cfgPath m0 \<and> length (mg_entries m0) \<le> length (mg_entries m) \<and>
     (\<forall>i<length (mg_entries m0). static (mg_entries m ! i) = static (mg_entries m0 ! i))"

text \<open>The balancer of a group once the configurations \<open>cs\<close> have been applied.\<close>

definition reloaded :: "('rc, 'r) manager_env \<Rightarrow> Config list \<Rightarrow> 'rc groupEntry \<Rightarrow> 'rc LB" where
  "reloaded env cs e =
     (case List.find (\<lambda>c. cf_GroupName c = ge_name e) cs of
        None \<Rightarrow> ge_lb e
      | Some cfg \<Rightarrow> snd (reloadFromConfig (me_transport env) cfg (ge_lb e)))"

definition kept_inv :: "('rc, 'r) manager_env \<Rightarrow> ('rc, 'r) Manager \<Rightarrow> Config list \<Rightarrow> ('rc, 'r) Manager \<Rightarrow> nat list \<Rightarrow> bool" where
  "kept_inv env m0 cs m ng \<longleftrightarrow>
     (\<forall>i\<in>set (mg_groups m0). entry_ok (mg_entries m ! i) \<and> ge_lb (mg_entries m ! i) = reloaded env cs (mg_entries m0 ! i) \<and>
        (gname m0 i \<in> cf_GroupName ` set cs \<longrightarrow> i \<in> set ng)) \<and>
     (\<forall>i\<in>set ng. i < length (mg_entries m) \<and> gname m i \<in> cf_GroupName ` set cs \<and>
        (i \<in> set (mg_groups m0) \<or> length (mg_entries m0) \<le> i \<and> entry_ok (mg_entries m ! i) \<and>
          lb_cfg (ge_lb (mg_entries m ! i)) \<in> set cs \<and> cf_GroupName (lb_cfg (ge_lb (mg_entries m ! i))) = gname m i))"

definition names_inv ::
  "('r \<Rightarrow> (string \<times> (string \<times> string) list) set) \<Rightarrow> (string \<times> (string \<times> string) list) set \<Rightarrow> ('rc, 'r) Manager \<Rightarrow>
   ('rc, 'r) Manager \<Rightarrow> nat list \<Rightarrow> bool" where
  "names_inv ids base m0 m pend \<longleftrightarrow>
     ids (mg_reg m) = base \<union> \<Union> (group_descs ` set (map (gname m) (mg_groups m0 @ mg_draining m0 @ pend))) \<and>
     distinct (map (gname m) (mg_groups m0 @ mg_draining m0 @ pend))"

definition acc_inv where
  "acc_inv env ids base m0 cs acc \<longleftrightarrow>
     (case acc of (m, nb, ng, pend, err) \<Rightarrow>
        frame m0 m \<and> kept_inv env m0 cs m ng \<and> names_inv ids base m0 m pend \<and>
        nb = map (\<lambda>i. (gname m i, i)) ng \<and> distinct (map (gname m) ng) \<and>
        pend = filter (\<lambda>i. length (mg_entries m0) \<le> i) ng \<and>
        (err = None \<longrightarrow> map (gname m) ng = map cf_GroupName cs))"

lemma frame_gname: "frame m0 m \<Longrightarrow> i < length (mg_entries m0) \<Longrightarrow> gname m i = gname m0 i"
  by (auto simp: frame_def static_def)

lemma reloaded_other: "ge_name e \<noteq> cf_GroupName cfg \<Longrightarrow> reloaded env (cs @ [cfg]) e = reloaded env cs e"
  by (auto simp: reloaded_def find_append split: option.split)

lemma reloaded_first: "cf_GroupName cfg \<notin> cf_GroupName ` set cs \<Longrightarrow> ge_name e = cf_GroupName cfg \<Longrightarrow> reloaded env cs e = ge_lb e \<and>
   reloaded env (cs @ [cfg]) e = snd (reloadFromConfig (me_transport env) cfg (ge_lb e))"
  by (auto simp: reloaded_def find_append find_Some_iff split: option.split) (metis image_eqI nth_mem)+

lemma acc_invD:
  assumes "acc_inv env ids base m0 cs (m, nb, ng, pend, err)"
  shows "frame m0 m" "kept_inv env m0 cs m ng" "names_inv ids base m0 m pend" "nb = map (\<lambda>i. (gname m i, i)) ng"
    "distinct (map (gname m) ng)" "pend = filter (\<lambda>i. length (mg_entries m0) \<le> i) ng"
    "err = None \<Longrightarrow> map (gname m) ng = map cf_GroupName cs"
  using assms unfolding acc_inv_def prod.case by blast+

lemma acc_inv_error:
  assumes "acc_inv env ids base m0 cs (m, nb, ng, pend, err)" and "ids r = ids (mg_reg m)"
    and "cf_GroupName cfg \<notin> gname m0 ` set (mg_groups m0)"
  shows "acc_inv env ids base m0 (cs @ [cfg]) (m\<lparr>mg_reg := r\<rparr>, nb, ng, pend, Some e)"
proof -
  note a = acc_invD [OF assms(1)]
  have "kept_inv env m0 (cs @ [cfg]) (m\<lparr>mg_reg := r\<rparr>) ng"
    unfolding kept_inv_def
  proof (intro conjI ballI)
    fix i
    assume i: "i \<in> set (mg_groups m0)"
    with assms(3) have "gname m0 i \<noteq> cf_GroupName cfg" by (metis imageI)
    with i a(2) reloaded_other [of "mg_entries m0 ! i" cfg env cs]
    show "entry_ok (mg_entries (m\<lparr>mg_reg := r\<rparr>) ! i)"
      "ge_lb (mg_entries (m\<lparr>mg_reg := r\<rparr>) ! i) = reloaded env (cs @ [cfg]) (mg_entries m0 ! i)"
      "gname m0 i \<in> cf_GroupName ` set (cs @ [cfg]) \<longrightarrow> i \<in> set ng"
      by (auto simp: kept_inv_def)
  next
    fix i
    assume "i \<in> set ng"
    with a(2) show "i < length (mg_entries (m\<lparr>mg_reg := r\<rparr>))" "gname (m\<lparr>mg_reg := r\<rparr>) i \<in> cf_GroupName ` set (cs @ [cfg])"
      "i \<in> set (mg_groups m0) \<or> length (mg_entries m0) \<le> i \<and> entry_ok (mg_entries (m\<lparr>mg_reg := r\<rparr>) ! i) \<and>
        lb_cfg (ge_lb (mg_entries (m\<lparr>mg_reg := r\<rparr>) ! i)) \<in> set (cs @ [cfg]) \<and>
        cf_GroupName (lb_cfg (ge_lb (mg_entries (m\<lparr>mg_reg := r\<rparr>) ! i))) = gname (m\<lparr>mg_reg := r\<rparr>) i"
      by (auto simp: kept_inv_def)
  qed
  moreover from a(1) have "frame m0 (m\<lparr>mg_reg := r\<rparr>)" by (simp add: frame_def)
  moreover from a(3) assms(2) have "names_inv ids base m0 (m\<lparr>mg_reg := r\<rparr>) pend" by (simp add: names_inv_def)
  ultimately show ?thesis using a(4-6) unfolding acc_inv_def prod.case by simp
qed

lemma acc_inv_new:
  assumes "acc_inv env ids base m0 cs (m, nb, ng, pend, err)" and "manager_inv ids base m0"
    and "cf_GroupName cfg \<notin> gname m0 ` set (mg_groups m0)" and "cf_GroupName cfg \<notin> cf_GroupName ` set cs"
    and "ge_name e = cf_GroupName cfg" "entry_ok e" "lb_cfg (ge_lb e) = cfg"
    and "ids (mg_reg m) \<inter> group_descs (cf_GroupName cfg) = {}" "ids r = ids (mg_reg m) \<union> group_descs (cf_GroupName cfg)"
  defines "i \<equiv> length (mg_entries m)"
  shows "acc_inv env ids base m0 (cs @ [cfg])
    (m\<lparr>mg_entries := mg_entries m @ [e], mg_reg := r\<rparr>, AList.update (cf_GroupName cfg) i nb, ng @ [i], pend @ [i], err)"
proof -
  let ?m = "m\<lparr>mg_entries := mg_entries m @ [e], mg_reg := r\<rparr>"
  note a = acc_invD [OF assms(1)]
  have lt: "\<forall>j\<in>set (mg_groups m0 @ mg_draining m0). j < length (mg_entries m0)" using assms(2) by (simp add: manager_inv_def)
  have old: "mg_entries ?m ! j = mg_entries m ! j" if "j < i" for j using that by (simp add: i_def nth_append)
  have new: "mg_entries ?m ! i = e" by (simp add: i_def)
  have ng: "\<forall>j\<in>set ng. j < i \<and> gname m j \<in> cf_GroupName ` set cs" using a(2) by (auto simp: kept_inv_def i_def)
  have len: "length (mg_entries m0) \<le> i" using a(1) by (simp add: frame_def i_def)
  have "set pend \<subseteq> set ng" using a(6) by auto
  with lt len have lt': "\<forall>j\<in>set (mg_groups m0 @ mg_draining m0 @ pend). j < i"
    using ng by (metis Un_iff order_less_le_trans set_append subsetD)
  have g: "\<forall>j\<in>set ng. gname ?m j = gname m j" "\<forall>j\<in>set (mg_groups m0 @ mg_draining m0 @ pend). gname ?m j = gname m j"
    using ng lt' old by simp_all
  have "frame m0 ?m" using a(1) len old by (auto simp: frame_def i_def)
  moreover have "kept_inv env m0 (cs @ [cfg]) ?m (ng @ [i])"
    unfolding kept_inv_def
  proof (intro conjI ballI)
    fix j
    assume j: "j \<in> set (mg_groups m0)"
    then have "j < i" using lt' by simp
    moreover from j assms(3) have "gname m0 j \<noteq> cf_GroupName cfg" by (metis imageI)
    ultimately
    show "entry_ok (mg_entries ?m ! j)" "ge_lb (mg_entries ?m ! j) = reloaded env (cs @ [cfg]) (mg_entries m0 ! j)"
      "gname m0 j \<in> cf_GroupName ` set (cs @ [cfg]) \<longrightarrow> j \<in> set (ng @ [i])"
      using j a(2) reloaded_other [of "mg_entries m0 ! j" cfg env cs] old [of j] by (auto simp: kept_inv_def)
  next
    fix j
    assume "j \<in> set (ng @ [i])"
    then consider "j \<in> set ng" "j < i" | "j = i" using ng by auto
    then show "j < length (mg_entries ?m)" "gname ?m j \<in> cf_GroupName ` set (cs @ [cfg])"
      "j \<in> set (mg_groups m0) \<or> length (mg_entries m0) \<le> j \<and> entry_ok (mg_entries ?m ! j) \<and>
        lb_cfg (ge_lb (mg_entries ?m ! j)) \<in> set (cs @ [cfg]) \<and> cf_GroupName (lb_cfg (ge_lb (mg_entries ?m ! j))) = gname ?m j"
      using a(2) old new assms(5-7) len by (cases; auto simp: kept_inv_def i_def)+
  qed
  moreover have "names_inv ids base m0 ?m (pend @ [i])"
  proof -
    let ?ns = "map (gname m) (mg_groups m0 @ mg_draining m0 @ pend)"
    have "cf_GroupName cfg \<notin> set ?ns"
    proof
      assume "cf_GroupName cfg \<in> set ?ns"
      then have "group_descs (cf_GroupName cfg) \<subseteq> ids (mg_reg m)" using a(3) unfolding names_inv_def by blast
      then have "group_descs (cf_GroupName cfg) = {}" using assms(8) inf_absorb2 by metis
      then show False using group_collectors_nonempty [of "cf_GroupName cfg"] by simp
    qed
    moreover have "map (gname ?m) (mg_groups m0 @ mg_draining m0 @ pend @ [i]) = ?ns @ [cf_GroupName cfg]"
      using g(2) new assms(5) by simp
    ultimately show ?thesis using a(3) assms(9) unfolding names_inv_def by (simp only: distinct_append set_append) auto
  qed
  moreover have "cf_GroupName cfg \<notin> fst ` set nb" using a(4) ng assms(4) by auto
  then have "AList.update (cf_GroupName cfg) i nb = map (\<lambda>j. (gname ?m j, j)) (ng @ [i])"
    using update_new [of "cf_GroupName cfg" nb i] a(4) g(1) new assms(5) by simp
  moreover have gm: "map (gname ?m) (ng @ [i]) = map (gname m) ng @ [cf_GroupName cfg]" using g(1) new assms(5) by simp
  have "distinct (map (gname ?m) (ng @ [i]))" unfolding gm using a(5) ng assms(4) by auto
  moreover have "pend @ [i] = filter (\<lambda>j. length (mg_entries m0) \<le> j) (ng @ [i])" using a(6) len by simp
  moreover have "err = None \<longrightarrow> map (gname ?m) (ng @ [i]) = map cf_GroupName (cs @ [cfg])" unfolding gm using a(7) by simp
  ultimately show ?thesis by (simp only: acc_inv_def prod.case)
qed

lemma manager_invD:
  assumes "manager_inv ids base m"
  shows "\<forall>g. base \<inter> group_descs g = {}" "\<forall>i\<in>set (mg_groups m @ mg_draining m). i < length (mg_entries m)"
    "distinct (mg_groups m @ mg_draining m)" "distinct (map (gname m) (mg_groups m @ mg_draining m))"
    "mg_byName m = map (\<lambda>i. (gname m i, i)) (mg_groups m)" "\<forall>i\<in>set (mg_groups m). entry_ok (mg_entries m ! i)"
    "\<forall>i\<in>set (mg_draining m). ge_retired (mg_entries m ! i) \<and> ge_met (mg_entries m ! i) = group_collectors (gname m i)"
    "ids (mg_reg m) = base \<union> \<Union> (group_descs ` set (map (gname m) (mg_groups m @ mg_draining m)))"
  using assms unfolding manager_inv_def by blast+

lemma byName_lookup:
  assumes "manager_inv ids base m"
  shows "map_of (mg_byName m) name = Some i \<longleftrightarrow> i \<in> set (mg_groups m) \<and> gname m i = name"
    "map_of (mg_byName m) name = None \<longleftrightarrow> name \<notin> gname m ` set (mg_groups m)"
proof -
  note inv = manager_invD [OF assms]
  from inv(4) have "distinct (map fst (mg_byName m))" by (simp add: inv(5) comp_def)
  then show "map_of (mg_byName m) name = Some i \<longleftrightarrow> i \<in> set (mg_groups m) \<and> gname m i = name"
    by (auto simp: map_of_eq_Some_iff inv(5))
  show "map_of (mg_byName m) name = None \<longleftrightarrow> name \<notin> gname m ` set (mg_groups m)"
    by (auto simp: map_of_eq_None_iff inv(5) image_iff)
qed

lemma acc_inv_kept:
  assumes "acc_inv env ids base m0 cs (m, nb, ng, pend, err)" and "manager_inv ids base m0"
    and "i \<in> set (mg_groups m0)" "gname m0 i = cf_GroupName cfg" and "cf_GroupName cfg \<notin> cf_GroupName ` set cs"
    and "reloadFromConfig (me_transport env) cfg (ge_lb (mg_entries m ! i)) = (e, lb)"
  shows "acc_inv env ids base m0 (cs @ [cfg])
    (m\<lparr>mg_entries := (mg_entries m)[i := (mg_entries m ! i)\<lparr>ge_lb := lb\<rparr>]\<rparr>, AList.update (cf_GroupName cfg) i nb, ng @ [i], pend,
     (case e of Some x \<Rightarrow> Some x | None \<Rightarrow> err))"
proof -
  let ?m = "m\<lparr>mg_entries := (mg_entries m)[i := (mg_entries m ! i)\<lparr>ge_lb := lb\<rparr>]\<rparr>"
  note a = acc_invD [OF assms(1)] and inv = manager_invD [OF assms(2)]
  have i: "i < length (mg_entries m0)" "i < length (mg_entries m)"
    using inv(2) a(1) assms(3) by (auto simp: frame_def dest: order_less_le_trans)
  with frame_gname [OF a(1)] assms(4) have name: "gname m i = cf_GroupName cfg" by simp
  have ok: "entry_ok (mg_entries m ! i)" and lb0: "ge_lb (mg_entries m ! i) = ge_lb (mg_entries m0 ! i)"
    using a(2) assms(3) reloaded_first [OF assms(5,4), of env] by (simp_all add: kept_inv_def)
  note lb = reload_lb_keeps [OF assms(6)]
  have old: "mg_entries ?m ! j = mg_entries m ! j" if "j \<noteq> i" for j using that by simp
  have static: "static (mg_entries ?m ! j) = static (mg_entries m ! j)" for j
    using i lb(2) ok by (cases "j = i") (simp_all add: static_def entry_ok_def)
  then have g: "gname ?m j = gname m j" for j by (simp add: static_def)
  have nm: "\<forall>j\<in>set ng. gname m j \<in> cf_GroupName ` set cs" using a(2) by (simp add: kept_inv_def)
  then have ng: "i \<notin> set ng" using name assms(5) by metis
  have "frame m0 ?m" using a(1) static by (simp add: frame_def)
  moreover have "kept_inv env m0 (cs @ [cfg]) ?m (ng @ [i])"
    unfolding kept_inv_def
  proof (intro conjI ballI)
    fix j
    assume j: "j \<in> set (mg_groups m0)"
    have oth: "gname m0 j \<noteq> cf_GroupName cfg" if "j \<noteq> i"
      using that j assms(3,4) inv(4) by (metis distinct_append distinct_map inj_onD map_append)
    show "entry_ok (mg_entries ?m ! j)"
      using a(2) j ok lb(1) i by (cases "j = i") (auto simp: kept_inv_def entry_ok_def)
    show "ge_lb (mg_entries ?m ! j) = reloaded env (cs @ [cfg]) (mg_entries m0 ! j)"
      using a(2) j i oth reloaded_other [of "mg_entries m0 ! j" cfg env cs] reloaded_first [OF assms(5,4), of env] lb0 assms(6)
      by (cases "j = i") (auto simp: kept_inv_def)
    show "gname m0 j \<in> cf_GroupName ` set (cs @ [cfg]) \<longrightarrow> j \<in> set (ng @ [i])"
      using a(2) j oth by (cases "j = i") (auto simp: kept_inv_def)
  next
    fix j
    assume "j \<in> set (ng @ [i])"
    then consider "j \<in> set ng" "j \<noteq> i" | "j = i" using ng by auto
    then show "j < length (mg_entries ?m)" "gname ?m j \<in> cf_GroupName ` set (cs @ [cfg])"
      "j \<in> set (mg_groups m0) \<or> length (mg_entries m0) \<le> j \<and> entry_ok (mg_entries ?m ! j) \<and>
        lb_cfg (ge_lb (mg_entries ?m ! j)) \<in> set (cs @ [cfg]) \<and> cf_GroupName (lb_cfg (ge_lb (mg_entries ?m ! j))) = gname ?m j"
      unfolding g using a(2) old name i assms(3) by (cases; auto simp: kept_inv_def)+
  qed
  moreover have "names_inv ids base m0 ?m pend" using a(3) unfolding names_inv_def g by simp
  moreover have "gname m ` set ng \<subseteq> cf_GroupName ` set cs" using nm by blast
  with assms(5) have new: "cf_GroupName cfg \<notin> gname m ` set ng" by blast
  then have "cf_GroupName cfg \<notin> fst ` set nb" by (simp add: a(4) image_image)
  then have "AList.update (cf_GroupName cfg) i nb = map (\<lambda>j. (gname ?m j, j)) (ng @ [i])"
    unfolding g using update_new [of "cf_GroupName cfg" nb i] a(4) name by simp
  moreover have "distinct (map (gname ?m) (ng @ [i]))"
    unfolding g using a(5) new name by simp
  moreover have "pend = filter (\<lambda>j. length (mg_entries m0) \<le> j) (ng @ [i])" using a(6) i by simp
  moreover have "(case e of Some x \<Rightarrow> Some x | None \<Rightarrow> err) = None \<longrightarrow> map (gname ?m) (ng @ [i]) = map cf_GroupName (cs @ [cfg])"
    unfolding g using a(7) name by (auto split: option.splits)
  ultimately show ?thesis by (simp only: acc_inv_def prod.case)
qed

lemma acc_inv_one:
  assumes "acc_inv env ids base m0 cs acc" and "manager_inv ids base m0" and "registry_ok (me_reg env) ids"
    and "cf_GroupName cfg \<notin> cf_GroupName ` set cs" and "cf_GroupName cfg \<noteq> []"
  shows "acc_inv env ids base m0 (cs @ [cfg]) (reload_one env cfg acc)"
proof -
  obtain m nb ng pend err where acc: "acc = (m, nb, ng, pend, err)" by (metis prod_cases5)
  note a = assms(1) [unfolded acc]
  have byName: "mg_byName m = mg_byName m0" using acc_invD(1) [OF a] by (simp add: frame_def)
  show ?thesis
  proof (cases "map_of (mg_byName m) (cf_GroupName cfg)")
    case (Some i)
    obtain e lb where r: "reloadFromConfig (me_transport env) cfg (ge_lb (mg_entries m ! i)) = (e, lb)" by fastforce
    have "i \<in> set (mg_groups m0)" "gname m0 i = cf_GroupName cfg"
      using Some byName_lookup(1) [OF assms(2)] by (simp_all add: byName)
    from acc_inv_kept [OF a assms(2) this assms(4) r] Some r show ?thesis by (simp add: reload_one_def acc Let_def)
  next
    case None
    then have no: "cf_GroupName cfg \<notin> gname m0 ` set (mg_groups m0)" using byName_lookup(2) [OF assms(2)] by (simp add: byName)
    obtain res r where b: "buildGroup env (mg_cfgPath m) cfg (mg_reg m) = (res, r)" by fastforce
    note ids = buildGroup_ids [OF assms(3) b assms(5)]
    show ?thesis
    proof (cases res)
      case (Inl x)
      with ids have "ids r = ids (mg_reg m)" by simp
      from acc_inv_error [OF a this no] None b Inl show ?thesis by (simp add: reload_one_def acc Let_def)
    next
      case (Inr e)
      with ids have e: "ge_name e = cf_GroupName cfg" "entry_ok e" "lb_cfg (ge_lb e) = cfg"
        "ids (mg_reg m) \<inter> group_descs (cf_GroupName cfg) = {}" "ids r = ids (mg_reg m) \<union> group_descs (cf_GroupName cfg)"
        by simp_all
      from acc_inv_new [OF a assms(2) no assms(4) e] None b Inr show ?thesis by (simp add: reload_one_def acc Let_def)
    qed
  qed
qed

lemma acc_inv_all:
  assumes "manager_inv ids base m0" and "registry_ok (me_reg env) ids"
    and "distinct (map cf_GroupName effs)" and "[] \<notin> set (map cf_GroupName effs)"
  shows "acc_inv env ids base m0 effs (fold (reload_one env) effs (m0, [], [], [], None))"
  using assms(3,4)
proof (induction effs rule: rev_induct)
  case Nil
  have "frame m0 m0" by (simp add: frame_def)
  moreover have "kept_inv env m0 [] m0 []" using manager_invD(6) [OF assms(1)] by (simp add: kept_inv_def reloaded_def)
  moreover have "names_inv ids base m0 m0 []" using manager_invD(4,8) [OF assms(1)] by (simp add: names_inv_def)
  ultimately show ?case by (simp add: acc_inv_def)
next
  case (snoc cfg effs)
  then show ?case
    using acc_inv_one [OF _ assms(1,2), where cs = effs and cfg = cfg and acc = "fold (reload_one env) effs (m0, [], [], [], None)"]
    by auto
qed

section \<open>Removing groups\<close>

lemma fold_retire:
  "mg_groups (fold retire R m) = mg_groups m" "mg_byName (fold retire R m) = mg_byName m" "mg_draining (fold retire R m) = mg_draining m"
  "mg_started (fold retire R m) = mg_started m" "mg_reg (fold retire R m) = mg_reg m" "mg_cfgPath (fold retire R m) = mg_cfgPath m"
  "length (mg_entries (fold retire R m)) = length (mg_entries m)"
  by (induction R arbitrary: m) (simp_all add: retire_def)

lemma fold_retire_entry:
  "mg_entries (fold retire R m) ! i =
     (if i \<in> set R \<and> i < length (mg_entries m) then (mg_entries m ! i)\<lparr>ge_retired := True\<rparr> else mg_entries m ! i)"
proof (induction R arbitrary: m)
  case (Cons j R)
  then show ?case by (cases "i = j") (auto simp: retire_def list_update_beyond)
qed simp

lemma fold_retire_sel [simp]:
  "gname (fold retire R m) i = gname m i" "listen_of (fold retire R m) i = listen_of m i"
  "ge_met (mg_entries (fold retire R m) ! i) = ge_met (mg_entries m ! i)"
  "ge_lb (mg_entries (fold retire R m) ! i) = ge_lb (mg_entries m ! i)"
  by (simp_all add: fold_retire_entry listen_of_def)

lemma fold_unregister:
  "fold (unregister_group env) is m =
     m\<lparr>mg_reg := fold (\<lambda>i. metrics_Unregister (me_reg env) (ge_met (mg_entries m ! i))) is (mg_reg m)\<rparr>"
  by (induction "is" arbitrary: m) (simp_all add: unregister_group_def)

lemma fold_unregister_ids:
  assumes "registry_ok (me_reg env) ids" and "\<forall>i\<in>set is. ge_met (mg_entries m ! i) = group_collectors (gname m i)"
  shows "ids (mg_reg (fold (unregister_group env) is m)) = ids (mg_reg m) - \<Union> (group_descs ` gname m ` set is)"
proof -
  have "ids (fold (\<lambda>i. metrics_Unregister (me_reg env) (ge_met (mg_entries m ! i))) is r) = ids r - \<Union> (group_descs ` gname m ` set is)" for r
    using assms(2)
  proof (induction "is" arbitrary: r)
    case (Cons i "is")
    then show ?case
      using unregister_all_ids [OF assms(1)] by (simp add: metrics_Unregister_def Diff_Un Diff_Int2 Int_Diff) blast
  qed simp
  then show ?thesis by (simp add: fold_unregister)
qed

text \<open>The groups that \<open>drain_clashing\<close> shuts down.\<close>

fun clashing :: "(nat \<Rightarrow> string) \<Rightarrow> nat list \<Rightarrow> (string \<Rightarrow> nat list) \<Rightarrow> nat list" where
  "clashing L [] B = []"
| "clashing L (p # ps) B = B (L p) @ clashing L ps (B(L p := []))"

lemma drain_clashing_eq:
  "drain_clashing env ps B D m =
     (D @ clashing (listen_of m) ps B, fold (unregister_group env) (clashing (listen_of m) ps B) m)"
proof (induction ps arbitrary: B D m)
  case (Cons p ps)
  have "listen_of (fold (unregister_group env) is m) = listen_of m" for "is"
    by (simp add: fun_eq_iff fold_unregister listen_of_def)
  then show ?case by (simp add: Cons.IH Let_def fun_upd_def)
qed simp

lemma set_clashing: "set (clashing L ps B) = (\<Union>p\<in>set ps. set (B (L p)))"
proof (induction ps arbitrary: B)
  case (Cons p ps)
  have "x \<in> set ((B(L p := [])) (L q)) \<longleftrightarrow> L q \<noteq> L p \<and> x \<in> set (B (L q))" for x q by auto
  with Cons.IH show ?case by (simp only: clashing.simps set_append set_simps) fastforce
qed simp

lemma distinct_clashing:
  assumes "\<And>l. distinct (B l)" and "\<And>l i. i \<in> set (B l) \<Longrightarrow> L i = l"
  shows "distinct (clashing L ps B)"
  using assms
proof (induction ps arbitrary: B)
  case (Cons p ps)
  let ?B = "B(L p := [])"
  have B: "distinct (?B l)" "i \<in> set (?B l) \<Longrightarrow> L i = l \<and> l \<noteq> L p" for l i
    using Cons.prems by (cases "l = L p"; simp)+
  then have "set (B (L p)) \<inter> set (clashing L ps ?B) = {}"
    using Cons.prems(2) by (fastforce simp only: set_clashing)
  moreover have "distinct (clashing L ps ?B)" by (rule Cons.IH) (use B in blast)+
  ultimately show ?case using Cons.prems(1) by simp
qed simp

lemma removed_groups_eq:
  assumes "acc_inv env ids base m0 cs (m, nb, ng, pend, err)" and "manager_inv ids base m0"
  shows "removed_groups m nb = filter (\<lambda>i. i \<notin> set ng) (mg_groups m0)"
proof -
  note a = acc_invD [OF assms(1)] and inv = manager_invD [OF assms(2)]
  have inj: "inj_on (gname m) (set (mg_groups m0 @ mg_draining m0 @ pend))"
    using a(3) by (simp only: names_inv_def distinct_map)
  have lt: "\<forall>i\<in>set (mg_groups m0). i < length (mg_entries m0)" using inv(2) by simp
  have "gname m0 i \<in> gname m ` set ng \<longleftrightarrow> i \<in> set ng" if i: "i \<in> set (mg_groups m0)" for i
  proof -
    have g: "gname m i = gname m0 i" using frame_gname [OF a(1)] lt i by blast
    have "set ng \<subseteq> set (mg_groups m0 @ mg_draining m0 @ pend)" using a(2,6) by (auto simp: kept_inv_def)
    with i have "gname m i \<in> gname m ` set ng \<longleftrightarrow> i \<in> set ng"
      using inj by (metis Un_iff inj_on_image_mem_iff set_append)
    with g show ?thesis by simp
  qed
  moreover have "mg_byName m = map (\<lambda>i. (gname m0 i, i)) (mg_groups m0)" using a(1) inv(5) by (simp add: frame_def)
  moreover have "map_of nb n = None \<longleftrightarrow> n \<notin> gname m ` set ng" for n
    unfolding a(4) by (auto simp: map_of_eq_None_iff image_image)
  ultimately show ?thesis by (simp add: removed_groups_def filter_map comp_def cong: filter_cong)
qed

lemma starts_eq: "concat (map (startGroupLocked m) ps) = (if mg_started m then map StartGroup ps else [])"
  by (induction ps) (simp_all add: startGroupLocked_def)

lemma reload_groups_cases:
  assumes "reload_groups env effs m0 = (err, m', evs)" and "manager_inv ids base m0" and "registry_ok (me_reg env) ids"
    and "distinct (map cf_GroupName effs)" and "[] \<notin> set (map cf_GroupName effs)"
  obtains m1 nb ng pend drained later where
    "acc_inv env ids base m0 effs (m1, nb, ng, pend, err)"
    "distinct drained" "set drained = {i \<in> set (mg_groups m0). i \<notin> set ng \<and> listen_of m1 i \<in> listen_of m1 ` set pend}"
    "later = filter (\<lambda>i. i \<notin> set drained) (filter (\<lambda>i. i \<notin> set ng) (mg_groups m0))"
    "m' = (fold (unregister_group env) drained (fold retire (filter (\<lambda>i. i \<notin> set ng) (mg_groups m0)) m1))
       \<lparr>mg_groups := ng, mg_byName := nb, mg_draining := mg_draining m0 @ later\<rparr>"
    "evs = map ShutdownGroup drained @ map DrainLater later @ (if mg_started m0 then map StartGroup pend else [])"
proof -
  obtain m1 nb ng pend e where acc: "fold (reload_one env) effs (m0, [], [], [], None) = (m1, nb, ng, pend, e)" by (metis prod_cases5)
  with acc_inv_all [OF assms(2-5)] have a: "acc_inv env ids base m0 effs (m1, nb, ng, pend, e)" by metis
  let ?R = "filter (\<lambda>i. i \<notin> set ng) (mg_groups m0)"
  let ?B = "\<lambda>l. filter (\<lambda>i. listen_of m1 i = l) ?R"
  let ?D = "clashing (listen_of m1) pend ?B"
  have L: "listen_of (fold retire R m1) = listen_of m1" for R by (simp add: fun_eq_iff)
  have "mg_started m1 = mg_started m0" "mg_draining m1 = mg_draining m0" using acc_invD(1) [OF a] by (simp_all add: frame_def)
  then have *: "err = e" "m' = (fold (unregister_group env) ?D (fold retire ?R m1))
      \<lparr>mg_groups := ng, mg_byName := nb, mg_draining := mg_draining m0 @ filter (\<lambda>i. i \<notin> set ?D) ?R\<rparr>"
      "evs = map ShutdownGroup ?D @ map DrainLater (filter (\<lambda>i. i \<notin> set ?D) ?R) @ (if mg_started m0 then map StartGroup pend else [])"
    using assms(1) acc
    by (simp_all add: reload_groups_def removed_groups_eq [OF a assms(2)] drain_clashing_eq L Let_def starts_eq
        fold_unregister fold_retire(3,4))
  have "distinct (mg_groups m0)" using manager_invD(3) [OF assms(2)] by simp
  then have "distinct ?D" by (intro distinct_clashing) auto
  moreover have "set ?D = {i \<in> set (mg_groups m0). i \<notin> set ng \<and> listen_of m1 i \<in> listen_of m1 ` set pend}"
    by (auto simp: set_clashing)
  ultimately show thesis using a * by (intro that) simp_all
qed

lemma UN_diff_disjoint:
  assumes "inj_on f S" and "D \<subseteq> S" and "\<And>g. base \<inter> F g = {}" and "\<And>g h. g \<noteq> h \<Longrightarrow> F g \<inter> F h = {}"
  shows "base \<union> \<Union> (F ` f ` S) - \<Union> (F ` f ` D) = base \<union> \<Union> (F ` f ` (S - D))"
proof (intro equalityI subsetI)
  fix x
  assume "x \<in> base \<union> \<Union> (F ` f ` S) - \<Union> (F ` f ` D)"
  then show "x \<in> base \<union> \<Union> (F ` f ` (S - D))" by blast
next
  fix x
  assume "x \<in> base \<union> \<Union> (F ` f ` (S - D))"
  then consider "x \<in> base" | s where "s \<in> S" "s \<notin> D" "x \<in> F (f s)" by blast
  then show "x \<in> base \<union> \<Union> (F ` f ` S) - \<Union> (F ` f ` D)"
  proof cases
    case 1
    then show ?thesis using assms(3) by blast
  next
    case 2
    have "x \<notin> F (f d)" if "d \<in> D" for d
    proof -
      have "f d \<noteq> f s" using 2(1,2) that assms(1,2) by (metis inj_onD subsetD)
      then show ?thesis using 2(3) assms(4) by blast
    qed
    with 2 show ?thesis by blast
  qed
qed

lemma distinct_map_sub: "inj_on f S \<Longrightarrow> set xs \<subseteq> S \<Longrightarrow> distinct xs \<Longrightarrow> distinct (map f xs)"
  by (auto simp: distinct_map intro: inj_on_subset)

lemma reload_groups_inv:
  assumes "reload_groups env effs m0 = (err, m', evs)" and "manager_inv ids base m0" and "registry_ok (me_reg env) ids"
    and "distinct (map cf_GroupName effs)" and "[] \<notin> set (map cf_GroupName effs)"
  shows "manager_inv ids base m'"
proof -
  from assms obtain m1 nb ng pend drained later where
    acc: "acc_inv env ids base m0 effs (m1, nb, ng, pend, err)"
    and D: "distinct drained" "set drained = {i \<in> set (mg_groups m0). i \<notin> set ng \<and> listen_of m1 i \<in> listen_of m1 ` set pend}"
    and later: "later = filter (\<lambda>i. i \<notin> set drained) (filter (\<lambda>i. i \<notin> set ng) (mg_groups m0))"
    and m': "m' = (fold (unregister_group env) drained (fold retire (filter (\<lambda>i. i \<notin> set ng) (mg_groups m0)) m1))
       \<lparr>mg_groups := ng, mg_byName := nb, mg_draining := mg_draining m0 @ later\<rparr>"
    by (rule reload_groups_cases)
  let ?R = "filter (\<lambda>i. i \<notin> set ng) (mg_groups m0)" and ?big = "mg_groups m0 @ mg_draining m0 @ pend"
  let ?m2 = "fold retire ?R m1"
  note a = acc_invD [OF acc] and inv = manager_invD [OF assms(2)]
  have ent: "mg_entries m' = mg_entries ?m2" by (simp add: m' fold_unregister)
  then have g: "gname m' i = gname m1 i" for i by simp
  have sets: "mg_groups m' = ng" "mg_byName m' = nb" "mg_draining m' = mg_draining m0 @ later" by (simp_all add: m')
  have lt0: "\<forall>i\<in>set (mg_groups m0 @ mg_draining m0). i < length (mg_entries m0)" by (rule inv(2))
  have len: "length (mg_entries m0) \<le> length (mg_entries m1)" using a(1) by (simp add: frame_def)
  then have lt1: "\<forall>i\<in>set (mg_groups m0 @ mg_draining m0). i < length (mg_entries m1)" using lt0 by fastforce
  have ng: "\<forall>i\<in>set ng. i < length (mg_entries m1) \<and> (i \<in> set (mg_groups m0) \<or> i \<in> set pend) \<and> entry_ok (mg_entries m1 ! i)"
    using a(2,6) by (auto simp: kept_inv_def)
  have inj: "inj_on (gname m1) (set ?big)" using a(3) by (simp only: names_inv_def distinct_map)
  have pend: "set pend \<subseteq> set ng" "set pend \<inter> set (mg_groups m0 @ mg_draining m0) = {}"
    using a(6) lt0 by (auto simp del: set_append)
  have big: "set (ng @ mg_draining m0 @ later) = set ?big - set drained"
    using D(2) ng pend inv(3) by (auto simp: later)
  have dist: "distinct (ng @ mg_draining m0 @ later)"
  proof -
    have "distinct ng" using a(5) by (simp add: distinct_map)
    moreover have "set ng \<inter> set (mg_draining m0) = {}" using ng pend(2) inv(3) by auto
    ultimately show ?thesis using inv(3) by (auto simp: later)
  qed
  have "\<forall>i\<in>set (ng @ mg_draining m0 @ later). i < length (mg_entries m')"
    using ng lt1 by (auto simp: ent fold_retire(7) later)
  moreover have "distinct (map (gname m') (ng @ mg_draining m0 @ later))"
    unfolding g using distinct_map_sub [OF inj _ dist] big by blast
  moreover have "nb = map (\<lambda>i. (gname m' i, i)) ng" unfolding g by (rule a(4))
  moreover have "\<forall>i\<in>set ng. entry_ok (mg_entries m' ! i)" using ng by (simp add: ent fold_retire_entry)
  moreover have "\<forall>i\<in>set (mg_draining m0 @ later). ge_retired (mg_entries m' ! i) \<and> ge_met (mg_entries m' ! i) = group_collectors (gname m' i)"
  proof
    fix i
    assume i: "i \<in> set (mg_draining m0 @ later)"
    have st: "static (mg_entries m1 ! i) = static (mg_entries m0 ! i)" using i a(1) lt0 by (auto simp: frame_def later)
    show "ge_retired (mg_entries m' ! i) \<and> ge_met (mg_entries m' ! i) = group_collectors (gname m' i)"
    proof (cases "i \<in> set later")
      case True
      then have "i \<in> set ?R" "i < length (mg_entries m1)" using lt1 by (auto simp: later)
      moreover have "entry_ok (mg_entries m0 ! i)" using True inv(6) by (simp add: later)
      ultimately show ?thesis using st by (simp add: ent fold_retire_entry static_def entry_ok_def)
    next
      case False
      then have "i \<in> set (mg_draining m0)" using i by simp
      with inv(3,7) st show ?thesis by (auto simp: ent fold_retire_entry static_def)
    qed
  qed
  moreover have "ids (mg_reg m') = base \<union> \<Union> (group_descs ` set (map (gname m') (ng @ mg_draining m0 @ later)))"
  proof -
    have met: "\<forall>i\<in>set drained. ge_met (mg_entries ?m2 ! i) = group_collectors (gname ?m2 i)"
      using D(2) a(2) by (auto simp: kept_inv_def entry_ok_def)
    have "mg_reg m' = mg_reg (fold (unregister_group env) drained ?m2)" by (simp add: m')
    then have "ids (mg_reg m') = ids (mg_reg m1) - \<Union> (group_descs ` gname m1 ` set drained)"
      using fold_unregister_ids [OF assms(3) met] by (simp add: fold_retire(5))
    also have "ids (mg_reg m1) = base \<union> \<Union> (group_descs ` gname m1 ` set ?big)" using a(3) by (simp only: names_inv_def set_map)
    also have "\<dots> - \<Union> (group_descs ` gname m1 ` set drained) = base \<union> \<Union> (group_descs ` gname m1 ` (set ?big - set drained))"
      using inv(1) group_descs_disjoint D(2) by (intro UN_diff_disjoint [OF inj]) auto
    finally show ?thesis unfolding big [symmetric] set_map g .
  qed
  ultimately show ?thesis
    using inv(1) dist unfolding manager_inv_def sets by (simp only: append_assoc simp_thms)
qed

end
