(* ===== verification/Spec2Isabelle.thy ===== *)
theory Spec2Isabelle
imports Socks5_UDP Pipe Upstream_Parse Multiconfig WRR_Fairness Dispatch StreamConn Session Manager
begin

text \<open>
  A model of s5lb, a SOCKS5 load balancer written in Go, and the theorems that make its parts
  correct.

  \<^item> \<open>S5_Prelude\<close>, \<open>NetIO\<close>, \<open>GoStd\<close>: bytes, errors, connections, the standard library.
  \<^item> \<open>Socks5\<close>: \<^verbatim>\<open>internal/socks5/protocol.go\<close>.
\<close>

end
